(* ===== verification/Prelude.thy ===== *)
theory Prelude
  imports Main "HOL-Library.Word" "HOL-Library.Sublist" "HOL-Library.Monad_Syntax"
begin

unbundle bit_operations_syntax

text \<open>
  Shared vocabulary of the development: the machine integer types of the source, the
  \<open>errno\<close> constants it compares with (Linux, x86-64), the \<open>wait\<close> status macros, the
  collections that carry the component proofs, and the generic list lemmas.
\<close>

named_theorems errno_defs "definitions of the errno constants"
named_theorems call_simps "how a system call changes errno and the call history"

section \<open>Machine types\<close>

type_synonym byte = "8 word"
type_synonym u32 = "32 word"
type_synonym u64 = "64 word"
type_synonym fd = int
type_synonym pid = int

section \<open>The errno values the source names\<close>

definition EPERM :: int where [errno_defs]: "EPERM = 1"
definition ENOENT :: int where [errno_defs]: "ENOENT = 2"
definition ESRCH :: int where [errno_defs]: "ESRCH = 3"
definition EINTR :: int where [errno_defs]: "EINTR = 4"
definition EIO :: int where [errno_defs]: "EIO = 5"
definition ECHILD :: int where [errno_defs]: "ECHILD = 10"
definition EAGAIN :: int where [errno_defs]: "EAGAIN = 11"
definition EACCES :: int where [errno_defs]: "EACCES = 13"
definition EBUSY :: int where [errno_defs]: "EBUSY = 16"
definition EEXIST :: int where [errno_defs]: "EEXIST = 17"
definition ENODEV :: int where [errno_defs]: "ENODEV = 19"
definition ENOTDIR :: int where [errno_defs]: "ENOTDIR = 20"
definition EINVAL :: int where [errno_defs]: "EINVAL = 22"
definition ENOSYS :: int where [errno_defs]: "ENOSYS = 38"
definition EOVERFLOW :: int where [errno_defs]: "EOVERFLOW = 75"
definition ESTALE :: int where [errno_defs]: "ESTALE = 116"

section \<open>Wait status macros\<close>

definition WIFEXITED :: "int \<Rightarrow> bool" where
  "WIFEXITED status \<longleftrightarrow> status mod 128 = 0"

definition WEXITSTATUS :: "int \<Rightarrow> int" where
  "WEXITSTATUS status = (status div 256) mod 256"

lemma WIFEXITED_0 [simp]: "WIFEXITED 0"
  by (simp add: WIFEXITED_def)

lemma WEXITSTATUS_0 [simp]: "WEXITSTATUS 0 = 0"
  by (simp add: WEXITSTATUS_def)

lemma exit_status_decodes:
  assumes "0 \<le> code" "code < 256"
  shows "WIFEXITED (code * 256) \<and> WEXITSTATUS (code * 256) = code"
proof -
  have "code * 256 mod 128 = 0" by presburger
  then show ?thesis using assms by (simp add: WIFEXITED_def WEXITSTATUS_def)
qed

section \<open>C strings and decimal numbers\<close>

definition is_digit :: "char \<Rightarrow> bool" where
  "is_digit c \<longleftrightarrow> 48 \<le> (of_char c :: nat) \<and> (of_char c :: nat) \<le> 57"

definition digit_value :: "char \<Rightarrow> nat" where
  "digit_value c = of_char c - 48"

definition digit_char :: "nat \<Rightarrow> char" where
  "digit_char n = char_of (48 + n)"

text \<open>The white space of \<open>isspace\<close> in the C locale.\<close>

definition is_space :: "char \<Rightarrow> bool" where
  "is_space c \<longleftrightarrow> (of_char c :: nat) \<in> {9, 10, 11, 12, 13, 32}"

text \<open>\<open>std::to_string\<close> on a signed and on an unsigned integer.\<close>

fun show_nat :: "nat \<Rightarrow> string" where
  "show_nat n = (if n < 10 then [digit_char n] else show_nat (n div 10) @ [digit_char (n mod 10)])"

declare show_nat.simps [simp del]

definition show_int :: "int \<Rightarrow> string" where
  "show_int i = (if i < 0 then CHR ''-'' # show_nat (nat (- i)) else show_nat (nat i))"

definition digits_value :: "string \<Rightarrow> nat" where
  "digits_value s = foldl (\<lambda>v c. 10 * v + digit_value c) 0 s"

lemma digit_char_props:
  assumes "n < 10"
  shows "is_digit (digit_char n)" "digit_value (digit_char n) = n"
  using assms by (simp_all add: is_digit_def digit_char_def digit_value_def)

lemma show_nat_digits: "list_all is_digit (show_nat n)"
proof (induction n rule: show_nat.induct)
  case (1 n)
  then show ?case
    by (subst show_nat.simps) (simp add: digit_char_props)
qed

lemma show_nat_nonempty [simp]: "show_nat n \<noteq> []"
  by (subst show_nat.simps) simp

lemma digits_value_show_nat [simp]: "digits_value (show_nat n) = n"
proof (induction n rule: show_nat.induct)
  case (1 n)
  show ?case
  proof (cases "n < 10")
    case True
    then show ?thesis
      by (subst show_nat.simps) (simp add: digits_value_def digit_char_props)
  next
    case False
    with 1 have "digits_value (show_nat (n div 10)) = n div 10" by simp
    with False show ?thesis
      by (subst show_nat.simps) (simp add: digits_value_def digit_char_props)
  qed
qed

section \<open>Lists\<close>

lemma takeWhile_dropWhile_block:
  assumes "list_all P xs" "ys = [] \<or> \<not> P (hd ys)"
  shows "takeWhile P (xs @ ys) = xs" "dropWhile P (xs @ ys) = ys"
proof -
  have "\<And>x. x \<in> set xs \<Longrightarrow> P x" using assms(1) by (simp add: list_all_iff)
  then show "takeWhile P (xs @ ys) = xs" "dropWhile P (xs @ ys) = ys"
    using assms(2) by (cases ys; simp)+
qed

text \<open>\<open>std::string::rfind\<close> for one character; \<open>npos\<close> is \<open>None\<close>.\<close>

definition rfind :: "'a \<Rightarrow> 'a list \<Rightarrow> nat option" where
  "rfind c s =
     (if c \<in> set s then Some (length s - 1 - length (takeWhile (\<lambda>x. x \<noteq> c) (rev s))) else None)"

lemma rfind_last:
  assumes "c \<notin> set ys"
  shows "rfind c (xs @ c # ys) = Some (length xs)"
proof -
  have "takeWhile (\<lambda>x. x \<noteq> c) (rev ys @ c # rev xs) = rev ys"
    using assms by (subst takeWhile_append2) auto
  then show ?thesis by (simp add: rfind_def)
qed

end
