(* ===== verification/Kernel.thy ===== *)
theory Kernel
  imports Prelude
begin

text \<open>
  The boundary to the Linux kernel and the C library. The kernel is not part of the
  repository: it is the parameter \<open>K\<close> of every definition that makes a system call, a
  function from the call and the kernel's own state to a reply and the next state. What
  the process itself keeps is the \<open>world\<close>: the kernel state, the \<open>errno\<close> of the calling
  thread, and the history of calls made so far with the replies they got. No
  definition reads the history; it is there so that theorems can speak about the order of
  calls.
\<close>

section \<open>System calls\<close>

text \<open>Flags are kept symbolic, in the order in which the source writes them.\<close>

datatype open_flag =
  O_RDONLY | O_WRONLY | O_PATH | O_DIRECTORY | O_CLOEXEC | O_NOFOLLOW | O_NONBLOCK | O_CREAT | O_APPEND

datatype resolve_flag = RESOLVE_BENEATH | RESOLVE_NO_SYMLINKS | RESOLVE_NO_MAGICLINKS

datatype access_mode = W_OK | X_OK

datatype rlimit_resource = RLIMIT_AS | RLIMIT_FSIZE | RLIMIT_NOFILE

datatype namespace_flag = CLONE_NEWNS | CLONE_NEWUSER | CLONE_NEWPID | CLONE_NEWNET

datatype mount_flag =
  MS_REC | MS_PRIVATE | MS_NOSUID | MS_NODEV | MS_NOEXEC

datatype mount_attribute =
  MOUNT_ATTR_RDONLY | MOUNT_ATTR_NOSUID | MOUNT_ATTR_NODEV | MOUNT_ATTR_NOEXEC

datatype wait_flag = WEXITED | WNOHANG | WNOWAIT

record mount_attr =
  attr_set :: "mount_attribute list"
  attr_clr :: "mount_attribute list"
  propagation :: "mount_flag option"

record rlimit =
  rlim_cur :: u64
  rlim_max :: u64

definition zero_rlimit :: rlimit where
  "zero_rlimit = \<lparr>rlim_cur = 0, rlim_max = 0\<rparr>"

datatype file_kind = S_IFREG | S_IFDIR | S_IFLNK | S_IFCHR | S_IFOTHER

record file_stat =
  st_kind :: file_kind
  st_dev :: u64
  st_ino :: u64

definition zero_stat :: file_stat where
  "zero_stat = \<lparr>st_kind = S_IFOTHER, st_dev = 0, st_ino = 0\<rparr>"

text \<open>
  A classic BPF instruction as the macros \<open>BPF_STMT\<close> and \<open>BPF_JUMP\<close> of the source spell
  it: a 32-bit absolute load, the two conditional jumps with a constant, and return.
\<close>

datatype sock_filter =
    BPF_LD_W_ABS nat
  | BPF_JEQ_K u32 nat nat
  | BPF_JSET_K u32 nat nat
  | BPF_RET_K u32

datatype fs_call =
    Open string "open_flag list"
  | Openat fd string "open_flag list"
  | Openat2 fd string "open_flag list" "resolve_flag list"
  | Fstat fd
  | Lstat string
  | Stat string
  | Access string "access_mode list"
  | Faccessat2 fd "access_mode list"
  | Mkdir string nat
  | Rmdir string
  | Chmod string nat
  | Mknod string nat nat nat
  | Mkdtemp string
  | Canonical string

datatype dir_call =
    Opendir string
  | Fdopendir fd
  | Readdir int
  | Closedir int
  | Read_line string

datatype fd_call =
    Read fd nat
  | Pread fd nat nat
  | Write fd "byte list"
  | Close fd
  | Dup2 fd fd
  | Pipe2
  | Close_range int int
  | Fcntl_getfl fd
  | Fcntl_setfl_nonblock fd int
  | Poll "fd list" int

datatype proc_call =
    Fork
  | Setsid
  | Waitpid pid
  | Waitid_pid pid "wait_flag list"
  | Waitid_pidfd fd "wait_flag list"
  | Kill pid int
  | Pidfd_open pid
  | Pidfd_send_signal fd int
  | Getpid
  | Getuid
  | Getgid
  | Getgroups int
  | Umask u32
  | Chdir string
  | Execveat fd "string list" "string list"

datatype control_call =
    Prctl_set_no_new_privs
  | Prctl_set_seccomp "sock_filter list"
  | Prctl_cap_ambient_clear
  | Capset
  | Getrlimit rlimit_resource
  | Setrlimit rlimit_resource rlimit
  | Sysconf_open_max
  | Clock_now
  | Sleep_ms nat
  | Landlock_version
  | Cancellation_requested

datatype mount_call =
    Unshare namespace_flag
  | Mount string string string "mount_flag list" string
  | Open_tree fd
  | Mount_setattr fd mount_attr
  | Move_mount fd fd
  | Chroot string
  | Fchdir fd

datatype net_call =
    Socket_netlink
  | Socket_stream
  | Bind_netlink fd
  | Bind_loopback fd
  | Listen fd
  | Getsockname fd
  | Connect fd
  | Accept4 fd
  | Sendto_kernel fd "byte list"
  | Recv fd nat
  | Send_byte fd byte
  | Recv_byte fd

datatype syscall =
    Fs fs_call
  | Dir dir_call
  | Fd fd_call
  | Proc proc_call
  | Ctl control_call
  | Mnt mount_call
  | Net net_call

section \<open>Replies and the world\<close>

text \<open>
  A reply is the returned number, the error number the C library stores in \<open>errno\<close> when
  that number is negative, and what the kernel writes through an output argument.
\<close>

record siginfo =
  si_pid :: pid
  si_code :: int
  si_status :: int

definition zero_siginfo :: siginfo where
  "zero_siginfo = \<lparr>si_pid = 0, si_code = 0, si_status = 0\<rparr>"

datatype payload =
    No_data
  | Stat_data file_stat
  | Rlimit_data rlimit
  | Bytes_data "byte list"
  | Fd_pair fd fd
  | Status_data int
  | Siginfo_data siginfo
  | Text_data string
  | Gids_data "u32 list"

record reply =
  ret :: int
  err :: int
  out :: payload

definition reply_text :: "reply \<Rightarrow> string" where
  "reply_text r = (case out r of Text_data s \<Rightarrow> s | _ \<Rightarrow> [])"

definition reply_stat :: "reply \<Rightarrow> file_stat" where
  "reply_stat r = (case out r of Stat_data s \<Rightarrow> s | _ \<Rightarrow> zero_stat)"

definition reply_bytes :: "reply \<Rightarrow> byte list" where
  "reply_bytes r = (case out r of Bytes_data bs \<Rightarrow> bs | _ \<Rightarrow> [])"

type_synonym 'k kernel = "syscall \<Rightarrow> 'k \<Rightarrow> reply \<times> 'k"

record 'k world =
  kern :: 'k
  errno :: int
  history :: "(syscall \<times> reply) list"

definition invoke :: "'k kernel \<Rightarrow> syscall \<Rightarrow> 'k world \<Rightarrow> reply \<times> 'k world" where
  "invoke K c w =
     (let (r, k) = K c (kern w)
      in (r, \<lparr>kern = k,
              errno = (if ret r < 0 then err r else errno w),
              history = history w @ [(c, r)]\<rparr>))"

definition syscall :: "'k kernel \<Rightarrow> syscall \<Rightarrow> 'k world \<Rightarrow> int \<times> 'k world" where
  "syscall K c w = (let (r, w) = invoke K c w in (ret r, w))"

definition set_errno :: "int \<Rightarrow> 'k world \<Rightarrow> 'k world" where
  "set_errno e w = w\<lparr>errno := e\<rparr>"

text \<open>The calls made between two worlds, oldest first.\<close>

definition calls_between :: "'k world \<Rightarrow> 'k world \<Rightarrow> (syscall \<times> reply) list" where
  "calls_between w w' = drop (length (history w)) (history w')"

definition extends :: "'k world \<Rightarrow> 'k world \<Rightarrow> bool" where
  "extends w w' \<longleftrightarrow> prefix (history w) (history w')"

section \<open>Lemmas on calls\<close>

lemma invokeD:
  assumes "invoke K c w = (r, w')"
  shows "K c (kern w) = (r, kern w')"
    and "history w' = history w @ [(c, r)]"
    and "errno w' = (if ret r < 0 then err r else errno w)"
  using assms by (auto simp: invoke_def split: prod.splits)

lemma syscallD:
  assumes "syscall K c w = (n, w')"
  obtains r where "ret r = n" "K c (kern w) = (r, kern w')"
    and "history w' = history w @ [(c, r)]"
    and "errno w' = (if n < 0 then err r else errno w)"
  using assms by (auto simp: syscall_def invoke_def split: prod.splits)

lemma set_errno_simps [simp]:
  "history (set_errno e w) = history w"
  "errno (set_errno e w) = e"
  "kern (set_errno e w) = kern w"
  by (simp_all add: set_errno_def)

lemma invoke_extends: "invoke K c w = (r, w') \<Longrightarrow> extends w w'"
  by (auto simp: extends_def dest: invokeD(2))

lemma syscall_extends: "syscall K c w = (n, w') \<Longrightarrow> extends w w'"
  by (auto simp: extends_def elim: syscallD)

named_theorems extends_intros "an operation only adds calls to the history"

lemma extends_refl [simp, intro]: "extends w w"
  by (simp add: extends_def)

lemma extends_trans [trans]: "extends a b \<Longrightarrow> extends b c \<Longrightarrow> extends a c"
  by (auto simp: extends_def)

lemma extends_invoke [extends_intros]: "extends w w0 \<Longrightarrow> extends w (snd (invoke K c w0))"
  by (metis extends_trans invoke_extends prod.collapse)

lemma extends_syscall [extends_intros]: "extends w w0 \<Longrightarrow> extends w (snd (syscall K c w0))"
  by (metis extends_trans syscall_extends prod.collapse)

lemma extends_history:
  "extends w w' \<longleftrightarrow> history w' = history w @ calls_between w w'"
  by (auto simp: extends_def calls_between_def prefix_def)

lemma calls_between_append:
  "history w' = history w @ cs \<Longrightarrow> calls_between w w' = cs"
  by (simp add: calls_between_def)

lemma calls_between_trans:
  assumes "extends a b" "extends b c"
  shows "calls_between a c = calls_between a b @ calls_between b c"
proof -
  have "history c = history a @ calls_between a b @ calls_between b c"
    using assms by (simp add: extends_history)
  then show ?thesis by (rule calls_between_append)
qed

lemma calls_between_set_errno [simp]:
  "calls_between (set_errno e w) w' = calls_between w w'"
  "calls_between w (set_errno e w') = calls_between w w'"
  by (simp_all add: calls_between_def)

lemma extends_set_errno [simp]:
  "extends (set_errno e w) w' = extends w w'"
  "extends w (set_errno e w') = extends w w'"
  by (simp_all add: extends_def)

lemma calls_between_invoke:
  "invoke K c w = (r, w') \<Longrightarrow> calls_between w w' = [(c, r)]"
  by (simp add: calls_between_def invokeD)

lemma calls_between_refl [simp]: "calls_between w w = []"
  by (simp add: calls_between_def)

text \<open>A property of the kernel state that every call keeps.\<close>

lemma kern_kept_invoke:
  "(\<And>c k. P k \<Longrightarrow> P (snd (K c k))) \<Longrightarrow> P (kern w) \<Longrightarrow> invoke K c w = (r, w') \<Longrightarrow> P (kern w')"
  by (metis invokeD(1) snd_conv)

lemma kern_kept_syscall:
  "(\<And>c k. P k \<Longrightarrow> P (snd (K c k))) \<Longrightarrow> P (kern w) \<Longrightarrow> syscall K c w = (n, w') \<Longrightarrow> P (kern w')"
  by (erule syscallD) (metis snd_conv)

section \<open>Which calls an operation makes\<close>

text \<open>An operation only adds calls of a given kind to the history.\<close>

definition only_calls :: "(syscall \<Rightarrow> bool) \<Rightarrow> 'k world \<Rightarrow> 'k world \<Rightarrow> bool" where
  "only_calls P w w' \<longleftrightarrow> extends w w' \<and> (\<forall>(c, r) \<in> set (calls_between w w'). P c)"

lemma only_calls_refl [simp]: "only_calls P w w"
  by (simp add: only_calls_def)

lemma only_calls_trans [trans]:
  "only_calls P a b \<Longrightarrow> only_calls P b c \<Longrightarrow> only_calls P a c"
proof -
  assume h: "only_calls P a b" "only_calls P b c"
  then have e: "extends a b" "extends b c" by (simp_all add: only_calls_def)
  from h show "only_calls P a c"
    unfolding only_calls_def calls_between_trans [OF e] using extends_trans [OF e] by auto
qed

lemma only_calls_mono: "only_calls P a b \<Longrightarrow> (\<And>c. P c \<Longrightarrow> Q c) \<Longrightarrow> only_calls Q a b"
  by (auto simp: only_calls_def)

lemma only_calls_invoke: "invoke K c w = (r, w') \<Longrightarrow> P c \<Longrightarrow> only_calls P w w'"
  by (simp add: only_calls_def invoke_extends calls_between_invoke)

lemma only_calls_syscall: "syscall K c w = (n, w') \<Longrightarrow> P c \<Longrightarrow> only_calls P w w'"
  by (auto simp: syscall_def split: prod.splits intro: only_calls_invoke)

lemma only_calls_set_errno [simp]:
  "only_calls P (set_errno e w) w' = only_calls P w w'"
  "only_calls P w (set_errno e w') = only_calls P w w'"
  by (simp_all add: only_calls_def)

lemma only_calls_extends: "only_calls P w w' \<Longrightarrow> extends w w'"
  by (simp add: only_calls_def)

lemma only_calls_member:
  "only_calls P w w' \<Longrightarrow> (c, r) \<in> set (calls_between w w') \<Longrightarrow> P c"
  by (auto simp: only_calls_def)

lemma extends_calls_subset:
  "extends w0 w \<Longrightarrow> extends w w' \<Longrightarrow> set (calls_between w0 w) \<subseteq> set (calls_between w0 w')"
  using calls_between_trans [of w0 w w'] by auto

section \<open>Structural rules for the calls of an operation\<close>

text \<open>
  The result of an operation carries the world it ends in as last component. The rules follow the
  shape of a definition: a case distinction, a pair bound by \<open>let\<close>, an option bound by \<open>do\<close>.
\<close>

definition makes :: "(syscall \<Rightarrow> bool) \<Rightarrow> 'k world \<Rightarrow> 'a \<times> 'k world \<Rightarrow> bool" where
  "makes P w p \<longleftrightarrow> only_calls P w (snd p)"

definition may_make :: "(syscall \<Rightarrow> bool) \<Rightarrow> 'k world \<Rightarrow> ('a \<times> 'k world) option \<Rightarrow> bool" where
  "may_make P w x \<longleftrightarrow> (\<forall>p. x = Some p \<longrightarrow> makes P w p)"

named_theorems makes_intros "structural rules for the calls of an operation"

lemma makes_pair [makes_intros]: "only_calls P w w' \<Longrightarrow> makes P w (x, w')"
  by (simp add: makes_def)

lemma makes_prod [makes_intros]:
  "makes P w p \<Longrightarrow> (\<And>x w'. only_calls P w w' \<Longrightarrow> makes P w (f x w')) \<Longrightarrow> makes P w (case p of (x, w') \<Rightarrow> f x w')"
  by (cases p) (simp add: makes_def)

lemma makes_if [makes_intros]:
  "(b \<Longrightarrow> makes P w x) \<Longrightarrow> (\<not> b \<Longrightarrow> makes P w y) \<Longrightarrow> makes P w (if b then x else y)"
  by simp

lemma makes_sum [makes_intros]:
  "(\<And>a. s = Inl a \<Longrightarrow> makes P w (f a)) \<Longrightarrow> (\<And>b. s = Inr b \<Longrightarrow> makes P w (g b)) \<Longrightarrow>
   makes P w (case s of Inl a \<Rightarrow> f a | Inr b \<Rightarrow> g b)"
  by (cases s) simp_all

lemma makes_option [makes_intros]:
  "(s = None \<Longrightarrow> makes P w f) \<Longrightarrow> (\<And>b. s = Some b \<Longrightarrow> makes P w (g b)) \<Longrightarrow>
   makes P w (case s of None \<Rightarrow> f | Some b \<Rightarrow> g b)"
  by (cases s) simp_all

lemma makes_syscall [makes_intros]: "only_calls P w w0 \<Longrightarrow> P c \<Longrightarrow> makes P w (syscall K c w0)"
  unfolding makes_def by (metis only_calls_syscall only_calls_trans prod.collapse)

lemma makes_invoke [makes_intros]: "only_calls P w w0 \<Longrightarrow> P c \<Longrightarrow> makes P w (invoke K c w0)"
  unfolding makes_def by (metis only_calls_invoke only_calls_trans prod.collapse)

lemma may_make_Some [makes_intros]: "makes P w p \<Longrightarrow> may_make P w (Some p)"
  by (simp add: may_make_def)

lemma may_make_bind [makes_intros]:
  "may_make P w m \<Longrightarrow> (\<And>x w'. only_calls P w w' \<Longrightarrow> may_make P w (f (x, w'))) \<Longrightarrow> may_make P w (Option.bind m f)"
  by (cases m) (auto simp: may_make_def makes_def)

lemma may_make_prod [makes_intros]:
  "makes P w p \<Longrightarrow> (\<And>x w'. only_calls P w w' \<Longrightarrow> may_make P w (f x w')) \<Longrightarrow> may_make P w (case p of (x, w') \<Rightarrow> f x w')"
  by (cases p) (simp add: makes_def)

lemma may_make_if [makes_intros]:
  "(b \<Longrightarrow> may_make P w x) \<Longrightarrow> (\<not> b \<Longrightarrow> may_make P w y) \<Longrightarrow> may_make P w (if b then x else y)"
  by simp

lemma may_make_sum [makes_intros]:
  "(\<And>a. s = Inl a \<Longrightarrow> may_make P w (f a)) \<Longrightarrow> (\<And>b. s = Inr b \<Longrightarrow> may_make P w (g b)) \<Longrightarrow>
   may_make P w (case s of Inl a \<Rightarrow> f a | Inr b \<Rightarrow> g b)"
  by (cases s) simp_all

lemma may_make_option [makes_intros]:
  "(s = None \<Longrightarrow> may_make P w f) \<Longrightarrow> (\<And>b. s = Some b \<Longrightarrow> may_make P w (g b)) \<Longrightarrow>
   may_make P w (case s of None \<Rightarrow> f | Some b \<Rightarrow> g b)"
  by (cases s) simp_all

lemma only_calls_errno [makes_intros]: "only_calls P w w0 \<Longrightarrow> only_calls P w (set_errno e w0)"
  by simp

lemma only_calls_snd [makes_intros]: "makes P w p \<Longrightarrow> only_calls P w (snd p)"
  by (simp add: makes_def)

lemma makes_only: "makes P w p \<Longrightarrow> p = (x, w') \<Longrightarrow> only_calls P w w'"
  by (simp add: makes_def)

lemma may_make_only: "may_make P w m \<Longrightarrow> m = Some (x, w') \<Longrightarrow> only_calls P w w'"
  by (simp add: may_make_def makes_def)

section \<open>Guarded call histories\<close>

text \<open>
  Safety statements about the order of calls have one shape: every call in a history
  satisfies a guard that looks at the calls made before it. A guard that stays true when
  more calls precede is preserved by composing operations.
\<close>

type_synonym call_guard_pred = "(syscall \<times> reply) list \<Rightarrow> syscall \<times> reply \<Rightarrow> bool"

definition guarded :: "call_guard_pred \<Rightarrow> (syscall \<times> reply) list \<Rightarrow> bool" where
  "guarded P cs \<longleftrightarrow> (\<forall>pre x post. cs = pre @ x # post \<longrightarrow> P pre x)"

text \<open>More calls are appended whose guard holds after the calls made so far.\<close>

lemma guarded_extend:
  assumes "guarded P h" "\<And>us x. x \<in> set cs \<Longrightarrow> P (h @ us) x"
  shows "guarded P (h @ cs)"
  unfolding guarded_def
proof (intro allI impI)
  fix pre x post
  assume "h @ cs = pre @ x # post"
  then consider us where "h = pre @ x # us" | us where "pre = h @ us" "cs = us @ x # post"
    by (auto simp: append_eq_append_conv2 append_eq_Cons_conv)
  then show "P pre x"
  proof cases
    case 1
    with assms(1) show ?thesis unfolding guarded_def by blast
  next
    case 2
    with assms(2) show ?thesis by simp
  qed
qed

locale call_guard =
  fixes P :: call_guard_pred
  assumes weaken: "P pre x \<Longrightarrow> P (pre0 @ pre) x"
begin

lemma guarded_append:
  assumes "guarded P cs" "guarded P ds"
  shows "guarded P (cs @ ds)"
  unfolding guarded_def
proof (intro allI impI)
  fix pre x post
  assume "cs @ ds = pre @ x # post"
  then consider us where "cs = pre @ us" "us @ ds = x # post" | us where "pre = cs @ us" "ds = us @ x # post"
    by (auto simp: append_eq_append_conv2)
  then show "P pre x"
  proof cases
    case 1
    then show ?thesis
    proof (cases us)
      case Nil
      with 1 assms(2) have "P [] x" unfolding guarded_def by (metis append_Nil)
      then show ?thesis using weaken [of "[]" x pre] by simp
    next
      case (Cons u us')
      with 1 have "cs = pre @ x # us'" by simp
      then show ?thesis using assms(1) unfolding guarded_def by blast
    qed
  next
    case 2
    with assms(2) have "P us x" unfolding guarded_def by blast
    with 2 show ?thesis by (simp add: weaken)
  qed
qed

lemma guarded_all:
  assumes "\<And>x. x \<in> set cs \<Longrightarrow> P [] x"
  shows "guarded P cs"
  unfolding guarded_def
proof (intro allI impI)
  fix pre x post
  assume "cs = pre @ x # post"
  with assms have "P [] x" by simp
  then show "P pre x" using weaken [of "[]" x pre] by simp
qed

lemma guarded_empty: "guarded P []"
  by (rule guarded_all) simp

lemma guarded_compose:
  assumes "extends a b" "extends b c" "guarded P (calls_between a b)" "guarded P (calls_between b c)"
  shows "extends a c" "guarded P (calls_between a c)"
  using extends_trans [OF assms(1,2)] calls_between_trans [OF assms(1,2)] guarded_append [OF assms(3,4)]
  by simp_all

end

section \<open>Loops that retry an interrupted call\<close>

text \<open>
  The source repeats many calls while they fail with \<open>EINTR\<close>. Nothing in the source bounds
  the repetition, so the loop is a partial function: \<open>None\<close> is not returning.
\<close>

partial_function (option) retry_eintr ::
  "'k kernel \<Rightarrow> syscall \<Rightarrow> 'k world \<Rightarrow> (reply \<times> 'k world) option" where
  "retry_eintr K c w =
     (let (r, w) = invoke K c w
      in if ret r < 0 \<and> errno w = EINTR then retry_eintr K c w else Some (r, w))"

declare retry_eintr.simps [code]

text \<open>
  The kernel does not interrupt the call for ever: after finitely many \<open>EINTR\<close> replies it
  answers otherwise.
\<close>

inductive settles :: "'k kernel \<Rightarrow> syscall \<Rightarrow> 'k \<Rightarrow> bool" for K c where
  now: "K c k = (r, k') \<Longrightarrow> \<not> (ret r < 0 \<and> err r = EINTR) \<Longrightarrow> settles K c k"
| later: "K c k = (r, k') \<Longrightarrow> ret r < 0 \<Longrightarrow> err r = EINTR \<Longrightarrow> settles K c k' \<Longrightarrow> settles K c k"

lemma retry_eintr_unfold:
  assumes "invoke K c w = (r, w')"
  shows "retry_eintr K c w =
    (if ret r < 0 \<and> err r = EINTR then retry_eintr K c w' else Some (r, w'))"
  using invokeD [OF assms] assms by (subst retry_eintr.simps) simp

lemma retry_eintr_returns:
  assumes "settles K c (kern w)"
  shows "\<exists>r w'. retry_eintr K c w = Some (r, w') \<and> \<not> (ret r < 0 \<and> err r = EINTR)"
  using assms
proof (induction "kern w" arbitrary: w rule: settles.induct)
  case (now r k')
  then have "invoke K c w = (r, snd (invoke K c w))"
    by (simp add: invoke_def)
  from retry_eintr_unfold [OF this] now(2) show ?case by auto
next
  case (later r k')
  let ?w = "snd (invoke K c w)"
  from later(1) have "invoke K c w = (r, ?w)" "kern ?w = k'"
    by (simp_all add: invoke_def)
  with later retry_eintr_unfold [of K c w r ?w] show ?case by metis
qed

lemma retry_eintr_calls:
  assumes "retry_eintr K c w = Some y"
  shows "extends w (snd y) \<and> (\<exists>pre. calls_between w (snd y) = pre @ [(c, fst y)] \<and>
    (\<forall>(c', r') \<in> set pre. c' = c \<and> ret r' < 0))"
proof (rule retry_eintr.raw_induct [where P = "\<lambda>K c w y. extends w (snd y) \<and>
    (\<exists>pre. calls_between w (snd y) = pre @ [(c, fst y)] \<and> (\<forall>(c', r') \<in> set pre. c' = c \<and> ret r' < 0))",
    OF _ assms], goal_cases)
  case (1 f K c w y)
  obtain r w1 where i: "invoke K c w = (r, w1)" by fastforce
  note IH = 1(1) and e1 = invoke_extends [OF i] and c1 = calls_between_invoke [OF i]
  show ?case
  proof (cases "ret r < 0 \<and> errno w1 = EINTR")
    case True
    with 1(2) i have "f K c w1 = Some y" by simp
    from IH [OF this] obtain pre where e2: "extends w1 (snd y)"
      and p: "calls_between w1 (snd y) = pre @ [(c, fst y)]" "\<forall>(c', r') \<in> set pre. c' = c \<and> ret r' < 0" by blast
    have "calls_between w (snd y) = ((c, r) # pre) @ [(c, fst y)]"
      using calls_between_trans [OF e1 e2] c1 p(1) by simp
    moreover have "\<forall>(c', r') \<in> set ((c, r) # pre). c' = c \<and> ret r' < 0" using p(2) True by simp
    ultimately show ?thesis using extends_trans [OF e1 e2] by blast
  next
    case False
    with 1(2) i have "y = (r, w1)" by auto
    with e1 c1 show ?thesis by auto
  qed
qed

lemma retry_eintr_only: "retry_eintr K c w = Some (r, w') \<Longrightarrow> P c \<Longrightarrow> only_calls P w w'"
  using retry_eintr_calls [of K c w "(r, w')"] by (auto simp: only_calls_def)

text \<open>
  \<open>while (::waitpid(child, &status, 0) < 0 && errno == EINTR)\<close> with \<open>status\<close> initialised
  to zero: the status word is the one the successful call writes, and stays zero when the
  call fails for another reason.
\<close>

definition reply_status :: "reply \<Rightarrow> int" where
  "reply_status r = (if ret r < 0 then 0 else case out r of Status_data s \<Rightarrow> s | _ \<Rightarrow> 0)"

definition waitpid_retry :: "'k kernel \<Rightarrow> pid \<Rightarrow> 'k world \<Rightarrow> (int \<times> int \<times> 'k world) option" where
  "waitpid_retry K child w =
     do { (r, w) \<leftarrow> retry_eintr K (Proc (Waitpid child)) w;
          Some (ret r, reply_status r, w) }"

text \<open>
  A function that forks returns in the parent; the child it creates ends in \<open>_exit\<close> with a
  code, or blocks for ever.
\<close>

datatype 'a outcome = Returned 'a | Exited int | Blocked

section \<open>Time\<close>

text \<open>
  \<open>Clock_now\<close> answers with the count of \<open>std::chrono::steady_clock\<close>, nanoseconds in a signed
  64-bit integer; a duration in milliseconds is converted to that count.
\<close>

definition milliseconds :: "int \<Rightarrow> int" where
  "milliseconds t = t * 1000000"

section \<open>A kernel that replays replies\<close>

text \<open>
  A concrete instance of the parameter: the replies are taken from a list in order, and
  zero afterwards. Concrete runs of the model are evaluated on it.
\<close>

definition ok_reply :: reply where
  "ok_reply = \<lparr>ret = 0, err = 0, out = No_data\<rparr>"

definition num_reply :: "int \<Rightarrow> reply" where
  "num_reply n = \<lparr>ret = n, err = 0, out = No_data\<rparr>"

definition err_reply :: "int \<Rightarrow> reply" where
  "err_reply e = \<lparr>ret = -1, err = e, out = No_data\<rparr>"

definition data_reply :: "int \<Rightarrow> payload \<Rightarrow> reply" where
  "data_reply n p = \<lparr>ret = n, err = 0, out = p\<rparr>"

fun scripted :: "reply list kernel" where
  "scripted c [] = (ok_reply, [])"
| "scripted c (r # rs) = (r, rs)"

definition start_world :: "'k \<Rightarrow> 'k world" where
  "start_world k = \<lparr>kern = k, errno = 0, history = []\<rparr>"

text \<open>
  Evaluating a run by rewriting: the continuation of a bind, a let or a case distinction is not
  touched before its argument is known.
\<close>

lemma bind_weak_cong: "x = y \<Longrightarrow> Option.bind x f = Option.bind y f"
  by simp

lemmas run_congs = bind_weak_cong let_weak_cong prod.case_cong_weak option.case_cong_weak if_weak_cong

lemmas scripted_simps = scripted.simps invoke_def syscall_def start_world_def ok_reply_def
  num_reply_def err_reply_def data_reply_def

end
