(* ===== verification/Seccomp.thy ===== *)
theory Seccomp
  imports Kernel
begin

text \<open>
  The seccomp containment of \<open>src/process_control.cpp\<close>: the classic BPF program that
  \<open>install_process_group_containment\<close> installs, an interpreter for the fragment of classic
  BPF it uses, the installation itself, and the proof that the program computes the
  containment policy for every architecture word, system call number and argument.
\<close>

section \<open>Classic BPF\<close>

text \<open>
  \<open>struct seccomp_data\<close> of \<open>linux/seccomp.h\<close>. The interpreter loads 32-bit words at a
  byte offset; on x86-64 the low half of a 64-bit field comes first.
\<close>

record seccomp_data =
  nr :: u32
  arch :: u32
  instruction_pointer :: u64
  args :: "u64 list"

definition low32 :: "u64 \<Rightarrow> u32" where
  "low32 x = ucast x"

definition high32 :: "u64 \<Rightarrow> u32" where
  "high32 x = ucast (drop_bit 32 x)"

definition offsetof_nr :: nat where "offsetof_nr = 0"
definition offsetof_arch :: nat where "offsetof_arch = 4"
definition offsetof_arg :: "nat \<Rightarrow> nat" where "offsetof_arg i = 16 + 8 * i"

definition arg :: "seccomp_data \<Rightarrow> nat \<Rightarrow> u64" where
  "arg d i = (if i < length (args d) then args d ! i else 0)"

definition load_abs :: "seccomp_data \<Rightarrow> nat \<Rightarrow> u32" where
  "load_abs d off =
     (if off = 0 then nr d
      else if off = 4 then arch d
      else if off = 8 then low32 (instruction_pointer d)
      else if off = 12 then high32 (instruction_pointer d)
      else if (off - 16) mod 8 = 0 then low32 (arg d ((off - 16) div 8))
      else high32 (arg d ((off - 16) div 8)))"

text \<open>Running off the end is no verdict; the kernel rejects such a program on load.\<close>

fun bpf_exec :: "sock_filter list \<Rightarrow> u32 \<Rightarrow> seccomp_data \<Rightarrow> u32 option" where
  "bpf_exec [] acc d = None"
| "bpf_exec (BPF_LD_W_ABS off # rest) acc d = bpf_exec rest (load_abs d off) d"
| "bpf_exec (BPF_JEQ_K k jt jf # rest) acc d =
     bpf_exec (drop (if acc = k then jt else jf) rest) acc d"
| "bpf_exec (BPF_JSET_K k jt jf # rest) acc d =
     bpf_exec (drop (if acc AND k \<noteq> 0 then jt else jf) rest) acc d"
| "bpf_exec (BPF_RET_K k # rest) acc d = Some k"

definition bpf_run :: "sock_filter list \<Rightarrow> seccomp_data \<Rightarrow> u32 option" where
  "bpf_run prog d = bpf_exec prog 0 d"

section \<open>Constants of the x86-64 ABI\<close>

named_theorems abi_defs "numeric values of the ABI constants"

definition AUDIT_ARCH_X86_64 :: u32 where [abi_defs]: "AUDIT_ARCH_X86_64 = 0xC000003E"
definition SECCOMP_RET_KILL_PROCESS :: u32 where [abi_defs]: "SECCOMP_RET_KILL_PROCESS = 0x80000000"
definition SECCOMP_RET_ERRNO :: u32 where [abi_defs]: "SECCOMP_RET_ERRNO = 0x00050000"
definition SECCOMP_RET_ALLOW :: u32 where [abi_defs]: "SECCOMP_RET_ALLOW = 0x7FFF0000"

definition NR_clone :: u32 where [abi_defs]: "NR_clone = 56"
definition NR_setpgid :: u32 where [abi_defs]: "NR_setpgid = 109"
definition NR_setsid :: u32 where [abi_defs]: "NR_setsid = 112"
definition NR_pivot_root :: u32 where [abi_defs]: "NR_pivot_root = 155"
definition NR_setrlimit :: u32 where [abi_defs]: "NR_setrlimit = 160"
definition NR_chroot :: u32 where [abi_defs]: "NR_chroot = 161"
definition NR_mount :: u32 where [abi_defs]: "NR_mount = 165"
definition NR_umount2 :: u32 where [abi_defs]: "NR_umount2 = 166"
definition NR_unshare :: u32 where [abi_defs]: "NR_unshare = 272"
definition NR_prlimit64 :: u32 where [abi_defs]: "NR_prlimit64 = 302"
definition NR_setns :: u32 where [abi_defs]: "NR_setns = 308"
definition NR_open_tree :: u32 where [abi_defs]: "NR_open_tree = 428"
definition NR_move_mount :: u32 where [abi_defs]: "NR_move_mount = 429"
definition NR_clone3 :: u32 where [abi_defs]: "NR_clone3 = 435"
definition NR_mount_setattr :: u32 where [abi_defs]: "NR_mount_setattr = 442"

text \<open>
  \<open>CLONE_NEWCGROUP | CLONE_NEWIPC | CLONE_NEWNET | CLONE_NEWNS | CLONE_NEWPID |
  CLONE_NEWTIME | CLONE_NEWUSER | CLONE_NEWUTS\<close>.
\<close>

definition clone_namespace_flags :: u32 where
  [abi_defs]: "clone_namespace_flags =
     0x02000000 OR 0x08000000 OR 0x40000000 OR 0x00020000 OR
     0x20000000 OR 0x00000080 OR 0x10000000 OR 0x04000000"

definition errno_word :: "int \<Rightarrow> u32" where
  "errno_word e = SECCOMP_RET_ERRNO OR word_of_int e"

section \<open>The installed program\<close>

definition deny_call :: "u32 \<Rightarrow> int \<Rightarrow> sock_filter list" where
  "deny_call n e = [BPF_JEQ_K n 0 1, BPF_RET_K (errno_word e)]"

definition containment_filter :: "bool \<Rightarrow> sock_filter list" where
  "containment_filter seal_resource_limits =
     [BPF_LD_W_ABS offsetof_arch,
      BPF_JEQ_K AUDIT_ARCH_X86_64 1 0,
      BPF_RET_K SECCOMP_RET_KILL_PROCESS,
      BPF_LD_W_ABS offsetof_nr,
      BPF_JEQ_K NR_clone 0 3,
      BPF_LD_W_ABS (offsetof_arg 0),
      BPF_JSET_K clone_namespace_flags 0 1,
      BPF_RET_K (errno_word EPERM),
      BPF_LD_W_ABS offsetof_nr] @
     deny_call NR_setsid EPERM @
     deny_call NR_setpgid EPERM @
     deny_call NR_unshare EPERM @
     deny_call NR_setns EPERM @
     deny_call NR_clone3 ENOSYS @
     deny_call NR_mount EPERM @
     deny_call NR_umount2 EPERM @
     deny_call NR_pivot_root EPERM @
     deny_call NR_chroot EPERM @
     deny_call NR_open_tree EPERM @
     deny_call NR_move_mount EPERM @
     deny_call NR_mount_setattr EPERM @
     [BPF_JEQ_K NR_setrlimit 0 1,
      BPF_RET_K (if seal_resource_limits then errno_word EPERM else SECCOMP_RET_ALLOW),
      BPF_JEQ_K NR_prlimit64 0 5,
      BPF_LD_W_ABS (offsetof_arg 2),
      BPF_JEQ_K 0 0 2,
      BPF_LD_W_ABS (offsetof_arg 2 + 4),
      BPF_JEQ_K 0 1 0,
      BPF_RET_K (if seal_resource_limits then errno_word EPERM else SECCOMP_RET_ALLOW),
      BPF_RET_K SECCOMP_RET_ALLOW]"

text \<open>
  \<open>supported_architecture\<close> is the compile-time constant of the source: true exactly when
  the library is built for x86-64.
\<close>

definition install_process_group_containment ::
  "'k kernel \<Rightarrow> bool \<Rightarrow> bool \<Rightarrow> 'k world \<Rightarrow> bool \<times> 'k world" where
  "install_process_group_containment K supported_architecture seal_resource_limits w =
     (if \<not> supported_architecture then (False, w)
      else let (n, w) = syscall K (Ctl Prctl_set_no_new_privs) w in
        if n \<noteq> 0 then (False, w)
        else let (n, w) = syscall K (Ctl (Prctl_set_seccomp
                              (containment_filter seal_resource_limits))) w in
          (n = 0, w))"

section \<open>The policy the program computes\<close>

definition denied_calls :: "u32 list" where
  "denied_calls = [NR_setsid, NR_setpgid, NR_unshare, NR_setns, NR_mount, NR_umount2,
     NR_pivot_root, NR_chroot, NR_open_tree, NR_move_mount, NR_mount_setattr]"

definition containment_policy :: "bool \<Rightarrow> seccomp_data \<Rightarrow> u32" where
  "containment_policy seal d =
     (if arch d \<noteq> AUDIT_ARCH_X86_64 then SECCOMP_RET_KILL_PROCESS
      else if nr d = NR_clone \<and> low32 (arg d 0) AND clone_namespace_flags \<noteq> 0
        then errno_word EPERM
      else if nr d \<in> set denied_calls then errno_word EPERM
      else if nr d = NR_clone3 then errno_word ENOSYS
      else if seal \<and> nr d = NR_setrlimit then errno_word EPERM
      else if seal \<and> nr d = NR_prlimit64 \<and> arg d 2 \<noteq> 0 then errno_word EPERM
      else SECCOMP_RET_ALLOW)"

lemma split_word_zero: "low32 x = 0 \<and> high32 x = 0 \<longleftrightarrow> x = 0"
proof
  assume h: "low32 x = 0 \<and> high32 x = 0"
  show "x = 0"
  proof (rule bit_word_eqI)
    fix n assume n: "n < LENGTH(64)"
    have lo: "\<not> bit (low32 x) n" and hi: "\<not> bit (high32 x) (n - 32)"
      using h by simp_all
    show "bit x n = bit 0 n"
    proof (cases "n < 32")
      case True
      with lo show ?thesis by (simp add: low32_def bit_ucast_iff)
    next
      case False
      with hi n show ?thesis by (simp add: high32_def bit_ucast_iff bit_drop_bit_eq)
    qed
  qed
qed (simp add: low32_def high32_def)

lemma exec_deny_call:
  "bpf_exec (deny_call n e @ rest) acc d =
     (if acc = n then Some (errno_word e) else bpf_exec rest acc d)"
  by (simp add: deny_call_def)

text \<open>The head of the program: architecture check and the namespace flags of \<open>clone\<close>.\<close>

definition filter_head :: "sock_filter list" where
  "filter_head =
     [BPF_LD_W_ABS offsetof_arch,
      BPF_JEQ_K AUDIT_ARCH_X86_64 1 0,
      BPF_RET_K SECCOMP_RET_KILL_PROCESS,
      BPF_LD_W_ABS offsetof_nr,
      BPF_JEQ_K NR_clone 0 3,
      BPF_LD_W_ABS (offsetof_arg 0),
      BPF_JSET_K clone_namespace_flags 0 1,
      BPF_RET_K (errno_word EPERM),
      BPF_LD_W_ABS offsetof_nr]"

lemmas filter_eval = offsetof_nr_def offsetof_arch_def offsetof_arg_def load_abs_def

lemma exec_filter_head:
  "bpf_exec (filter_head @ rest) acc d =
     (if arch d \<noteq> AUDIT_ARCH_X86_64 then Some SECCOMP_RET_KILL_PROCESS
      else if nr d = NR_clone \<and> low32 (arg d 0) AND clone_namespace_flags \<noteq> 0
        then Some (errno_word EPERM)
      else bpf_exec rest (nr d) d)"
  by (simp add: filter_head_def filter_eval)

text \<open>The tail: the two calls that change resource limits.\<close>

definition filter_tail :: "bool \<Rightarrow> sock_filter list" where
  "filter_tail seal =
     [BPF_JEQ_K NR_setrlimit 0 1,
      BPF_RET_K (if seal then errno_word EPERM else SECCOMP_RET_ALLOW),
      BPF_JEQ_K NR_prlimit64 0 5,
      BPF_LD_W_ABS (offsetof_arg 2),
      BPF_JEQ_K 0 0 2,
      BPF_LD_W_ABS (offsetof_arg 2 + 4),
      BPF_JEQ_K 0 1 0,
      BPF_RET_K (if seal then errno_word EPERM else SECCOMP_RET_ALLOW),
      BPF_RET_K SECCOMP_RET_ALLOW]"

lemma exec_filter_tail:
  "bpf_exec (filter_tail seal) acc d =
     Some (if seal \<and> (acc = NR_setrlimit \<or> acc = NR_prlimit64 \<and> arg d 2 \<noteq> 0)
           then errno_word EPERM else SECCOMP_RET_ALLOW)"
proof (cases "acc = NR_prlimit64")
  case True
  have "arg d 2 \<noteq> 0 \<longleftrightarrow> low32 (arg d 2) \<noteq> 0 \<or> high32 (arg d 2) \<noteq> 0"
    using split_word_zero [of "arg d 2"] by blast
  with True show ?thesis
    by (simp add: filter_tail_def filter_eval NR_prlimit64_def NR_setrlimit_def)
next
  case False
  then show ?thesis by (simp add: filter_tail_def)
qed

text \<open>The calls denied by number alone.\<close>

definition filter_numbers :: "sock_filter list" where
  "filter_numbers =
     deny_call NR_setsid EPERM @ deny_call NR_setpgid EPERM @
     deny_call NR_unshare EPERM @ deny_call NR_setns EPERM @ deny_call NR_clone3 ENOSYS @
     deny_call NR_mount EPERM @ deny_call NR_umount2 EPERM @ deny_call NR_pivot_root EPERM @
     deny_call NR_chroot EPERM @ deny_call NR_open_tree EPERM @ deny_call NR_move_mount EPERM @
     deny_call NR_mount_setattr EPERM"

lemma exec_numbers_denied:
  "n \<in> set denied_calls \<Longrightarrow> bpf_exec (filter_numbers @ rest) n d = Some (errno_word EPERM)"
  unfolding filter_numbers_def denied_calls_def append_assoc exec_deny_call set_simps insert_iff empty_iff
  by (elim disjE) (simp_all add: NR_clone3_def NR_setns_def NR_open_tree_def NR_move_mount_def
      NR_mount_def NR_umount2_def NR_pivot_root_def NR_chroot_def NR_mount_setattr_def)

lemma exec_numbers_clone3:
  "bpf_exec (filter_numbers @ rest) NR_clone3 d = Some (errno_word ENOSYS)"
  unfolding filter_numbers_def append_assoc exec_deny_call
  by (simp add: NR_clone3_def NR_setsid_def NR_setpgid_def NR_unshare_def NR_setns_def)

lemma exec_numbers_other:
  "n \<notin> set denied_calls \<Longrightarrow> n \<noteq> NR_clone3 \<Longrightarrow>
   bpf_exec (filter_numbers @ rest) n d = bpf_exec rest n d"
  unfolding filter_numbers_def denied_calls_def append_assoc exec_deny_call by simp

lemma containment_filter_parts:
  "containment_filter seal = filter_head @ filter_numbers @ filter_tail seal"
  by (simp add: containment_filter_def filter_head_def filter_numbers_def filter_tail_def)

lemma clone3_not_denied: "NR_clone3 \<notin> set denied_calls"
  by (simp add: denied_calls_def abi_defs)

lemma bpf_run_containment:
  "bpf_run (containment_filter seal) d = Some (containment_policy seal d)"
proof -
  consider "nr d \<in> set denied_calls" | "nr d = NR_clone3"
    | "nr d \<notin> set denied_calls" "nr d \<noteq> NR_clone3" by blast
  then show ?thesis
  proof cases
    case 1
    then show ?thesis
      by (simp add: bpf_run_def containment_filter_parts exec_filter_head
          containment_policy_def exec_numbers_denied)
  next
    case 2
    then show ?thesis
      by (simp add: bpf_run_def containment_filter_parts exec_filter_head
          containment_policy_def exec_numbers_clone3 clone3_not_denied)
  next
    case 3
    then show ?thesis
      by (auto simp: bpf_run_def containment_filter_parts exec_filter_head
          containment_policy_def exec_numbers_other exec_filter_tail)
  qed
qed

section \<open>Installation\<close>

lemma install_extends:
  "install_process_group_containment K supported seal w = (ok, w') \<Longrightarrow> extends w w'"
  by (auto simp: install_process_group_containment_def Let_def split: if_splits prod.splits
      dest!: syscall_extends intro: extends_trans)

lemma install_True:
  assumes "install_process_group_containment K supported seal w = (True, w')"
  obtains r1 r2 where "supported" "ret r1 = 0" "ret r2 = 0"
    "calls_between w w' = [(Ctl Prctl_set_no_new_privs, r1),
       (Ctl (Prctl_set_seccomp (containment_filter seal)), r2)]"
proof -
  obtain r1 w1 where i1: "invoke K (Ctl Prctl_set_no_new_privs) w = (r1, w1)" by fastforce
  obtain r2 w2 where i2: "invoke K (Ctl (Prctl_set_seccomp (containment_filter seal))) w1 = (r2, w2)"
    by fastforce
  from assms i1 i2 have "supported" "ret r1 = 0" "ret r2 = 0" "w' = w2"
    by (auto simp: install_process_group_containment_def syscall_def split: if_splits)
  moreover have "calls_between w w2 = [(Ctl Prctl_set_no_new_privs, r1),
       (Ctl (Prctl_set_seccomp (containment_filter seal)), r2)]"
    using invokeD(2) [OF i1] invokeD(2) [OF i2] by (simp add: calls_between_def)
  ultimately show ?thesis using that by blast
qed

section \<open>The x32 entry points\<close>

definition x32_number :: "u32 \<Rightarrow> u32" where
  "x32_number n = n OR 0x40000000"

lemma x32_number_bit: "bit (x32_number n) 30"
  by (simp add: x32_number_def bit_or_iff)

lemma x32_number_neq:
  "x32_number n \<noteq> NR_clone" "x32_number n \<noteq> NR_clone3" "x32_number n \<noteq> NR_setsid"
  "x32_number n \<noteq> NR_setpgid" "x32_number n \<noteq> NR_unshare" "x32_number n \<noteq> NR_setns"
  "x32_number n \<noteq> NR_mount" "x32_number n \<noteq> NR_umount2" "x32_number n \<noteq> NR_pivot_root"
  "x32_number n \<noteq> NR_chroot" "x32_number n \<noteq> NR_open_tree" "x32_number n \<noteq> NR_move_mount"
  "x32_number n \<noteq> NR_mount_setattr" "x32_number n \<noteq> NR_setrlimit" "x32_number n \<noteq> NR_prlimit64"
proof -
  have clear: "x32_number n \<noteq> c" if "\<not> bit c 30" for c
    using that x32_number_bit [of n] by auto
  show "x32_number n \<noteq> NR_clone" "x32_number n \<noteq> NR_clone3" "x32_number n \<noteq> NR_setsid"
    "x32_number n \<noteq> NR_setpgid" "x32_number n \<noteq> NR_unshare" "x32_number n \<noteq> NR_setns"
    "x32_number n \<noteq> NR_mount" "x32_number n \<noteq> NR_umount2" "x32_number n \<noteq> NR_pivot_root"
    "x32_number n \<noteq> NR_chroot" "x32_number n \<noteq> NR_open_tree" "x32_number n \<noteq> NR_move_mount"
    "x32_number n \<noteq> NR_mount_setattr" "x32_number n \<noteq> NR_setrlimit" "x32_number n \<noteq> NR_prlimit64"
    by (rule clear, simp add: abi_defs)+
qed

section \<open>Properties\<close>

text \<open>
  C9. The installed classic BPF program decides every system call exactly as the containment
  policy says, for each architecture word, call number and argument: a foreign architecture
  is killed; \<open>clone\<close> with a namespace flag, the session, process-group, namespace and mount
  calls fail with \<open>EPERM\<close>; \<open>clone3\<close> fails with \<open>ENOSYS\<close>; the calls that change resource
  limits fail with \<open>EPERM\<close> exactly when the limits are sealed, where \<open>prlimit64\<close> is judged
  on all 64 bits of its new-limit pointer; everything else is allowed.
\<close>

theorem seccomp_program_exact:
  "bpf_run (containment_filter seal) d = Some (containment_policy seal d)"
  by (rule bpf_run_containment)

text \<open>
  The program compares the call number with the plain x86-64 numbers only. Every call
  made through the x32 entry points, which report the same architecture word and set bit 30
  of the number, is allowed, whatever the number is: \<open>unshare\<close>, \<open>setsid\<close>, \<open>mount\<close> and the
  other denied calls included.
\<close>

theorem seccomp_x32_numbers_allowed:
  "bpf_run (containment_filter seal)
     \<lparr>nr = x32_number n, arch = AUDIT_ARCH_X86_64, instruction_pointer = ip, args = as\<rparr> =
   Some SECCOMP_RET_ALLOW"
  unfolding bpf_run_containment containment_policy_def denied_calls_def
  by (simp add: x32_number_neq)

text \<open>
  C30. A successful installation made exactly two calls, \<open>PR_SET_NO_NEW_PRIVS\<close> before
  \<open>PR_SET_SECCOMP\<close>, both successful, and passed the program for the requested sealing; it
  succeeds on the supported architecture only.
\<close>

theorem containment_installed_in_order:
  assumes "install_process_group_containment K supported seal w = (True, w')"
  shows "supported \<and> (\<exists>r1 r2. ret r1 = 0 \<and> ret r2 = 0 \<and>
    calls_between w w' = [(Ctl Prctl_set_no_new_privs, r1),
      (Ctl (Prctl_set_seccomp (containment_filter seal)), r2)])"
  using install_True [OF assms] by metis

theorem containment_installed_in_order_witness:
  "\<exists>w'. install_process_group_containment scripted True True (start_world []) = (True, w') \<and>
     length (calls_between (start_world []) w') = 2"
proof -
  let ?w = "snd (install_process_group_containment scripted True True (start_world []))"
  have e: "install_process_group_containment scripted True True (start_world []) = (True, ?w)"
    by (simp add: install_process_group_containment_def scripted_simps)
  from containment_installed_in_order [OF e] e show ?thesis by auto
qed

end
