(* ===== verification/Process_Control.thy ===== *)
theory Process_Control
  imports Seccomp
begin

text \<open>
  The rest of \<open>src/process_control.cpp\<close>: scanning \<open>/proc\<close> for the members of a process
  group, signalling them through pidfds, waiting for them to disappear, dropping
  capabilities, closing inherited descriptors, and the probes of these mechanisms.
\<close>

section \<open>Reading /proc\<close>

definition INT_MAX :: int where "INT_MAX = 2147483647"
definition LONG_MAX :: int where "LONG_MAX = 9223372036854775807"
definition ERANGE :: int where [errno_defs]: "ERANGE = 34"

definition numeric_name :: "string \<Rightarrow> bool" where
  "numeric_name value \<longleftrightarrow> value \<noteq> [] \<and> list_all is_digit value"

text \<open>
  One \<open>%ld\<close> conversion of \<open>sscanf\<close>: leading white space, an optional sign, at least one
  digit; the value saturates at the bounds of \<open>long\<close>.
\<close>

definition scan_long :: "string \<Rightarrow> (int \<times> string) option" where
  "scan_long s =
     (let s = dropWhile is_space s;
          neg = (s \<noteq> [] \<and> hd s = CHR ''-'');
          s = (if s \<noteq> [] \<and> hd s \<in> {CHR ''-'', CHR ''+''} then tl s else s);
          ds = takeWhile is_digit s;
          v = (if neg then - int (digits_value ds) else int (digits_value ds))
      in if ds = [] then None
         else Some (max (- LONG_MAX - 1) (min LONG_MAX v), dropWhile is_digit s))"

text \<open>
  \<open>sscanf(text, "%c %ld %ld", ...) == 3\<close>: the third value, when all three convert. The
  text ends at the first NUL.
\<close>

definition scan_stat_tail :: "string \<Rightarrow> int option" where
  "scan_stat_tail text =
     (case takeWhile (\<lambda>c. c \<noteq> CHR 0x00) text of
        [] \<Rightarrow> None
      | state # rest \<Rightarrow>
          do { (parent, rest) \<leftarrow> scan_long (dropWhile is_space rest);
               (grp, rest) \<leftarrow> scan_long (dropWhile is_space rest);
               Some grp })"

definition parse_stat_group :: "string \<Rightarrow> pid option" where
  "parse_stat_group line =
     (case rfind (CHR '')'') line of
        None \<Rightarrow> None
      | Some close \<Rightarrow>
          if close + 2 \<ge> length line then None
          else case scan_stat_tail (drop (close + 2) line) of
                 None \<Rightarrow> None
               | Some grp \<Rightarrow> if grp \<le> 0 \<or> grp > INT_MAX then None else Some grp)"

definition stat_path :: "pid \<Rightarrow> string" where
  "stat_path process = ''/proc/'' @ show_int process @ ''/stat''"

definition stat_reply_group :: "reply \<Rightarrow> pid option" where
  "stat_reply_group r = (if ret r < 0 then None else parse_stat_group (reply_text r))"

definition process_group_of :: "'k kernel \<Rightarrow> pid \<Rightarrow> 'k world \<Rightarrow> pid option \<times> 'k world" where
  "process_group_of K process w =
     (let (r, w) = invoke K (Dir (Read_line (stat_path process))) w in (stat_reply_group r, w))"

text \<open>
  \<open>strtol\<close> on a name that consists of digits only: it consumes the whole name, and stores
  \<open>ERANGE\<close> in \<open>errno\<close> when the value does not fit.
\<close>

definition strtol_digits :: "string \<Rightarrow> 'k world \<Rightarrow> int \<times> 'k world" where
  "strtol_digits name w =
     (let v = int (digits_value name)
      in if v > LONG_MAX then (LONG_MAX, set_errno ERANGE w) else (v, w))"

partial_function (option) process_ids_loop ::
  "'k kernel \<Rightarrow> int \<Rightarrow> pid list \<Rightarrow> 'k world \<Rightarrow> (pid list \<times> 'k world) option" where
  "process_ids_loop K directory result w =
     (let (r, w) = invoke K (Dir (Readdir directory)) w in
      if ret r \<le> 0 then Some (result, w)
      else let name = reply_text r in
        if \<not> numeric_name name then process_ids_loop K directory result w
        else let (value, w) = strtol_digits name (set_errno 0 w) in
          process_ids_loop K directory
            (if errno w = 0 \<and> value > 0 \<and> value \<le> INT_MAX then result @ [value] else result) w)"

declare process_ids_loop.simps [code]

definition process_ids :: "'k kernel \<Rightarrow> 'k world \<Rightarrow> (pid list option \<times> 'k world) option" where
  "process_ids K w =
     (let (directory, w) = syscall K (Dir (Opendir ''/proc'')) w in
      if directory < 0 then Some (None, w)
      else do { (result, w) \<leftarrow> process_ids_loop K directory [] (set_errno 0 w);
                let saved = errno w;
                let (closed, w) = syscall K (Dir (Closedir directory)) w;
                Some (if closed = 0 \<and> saved = 0 then Some result else None, w) })"

section \<open>Signals through pidfds\<close>

definition SIGTERM :: int where "SIGTERM = 15"
definition SIGKILL :: int where "SIGKILL = 9"

definition open_pidfd :: "'k kernel \<Rightarrow> pid \<Rightarrow> 'k world \<Rightarrow> fd \<times> 'k world" where
  "open_pidfd K process w = syscall K (Proc (Pidfd_open process)) w"

definition send_pidfd_signal :: "'k kernel \<Rightarrow> fd \<Rightarrow> int \<Rightarrow> 'k world \<Rightarrow> bool \<times> 'k world" where
  "send_pidfd_signal K pidfd signal w =
     (let (n, w) = syscall K (Proc (Pidfd_send_signal pidfd signal)) w in (n = 0, w))"

record process_group_signal_result =
  complete :: bool
  leader_signaled :: bool

text \<open>The body of the loop over the scanned processes, for one process.\<close>

definition signal_member ::
  "'k kernel \<Rightarrow> pid \<Rightarrow> pid \<Rightarrow> int \<Rightarrow> pid \<Rightarrow> bool \<Rightarrow> 'k world \<Rightarrow> bool \<times> 'k world" where
  "signal_member K grp leader signal process ok w =
     (if process = leader then (ok, w)
      else let (observed, w) = process_group_of K process w in
        if observed \<noteq> Some grp then (ok, w)
        else let (pidfd, w) = open_pidfd K process w in
          if pidfd < 0 then (ok \<and> errno w = ESRCH, w)
          else let (confirmed, w) = process_group_of K process w;
                   (ok, w) =
                     (if confirmed = Some grp
                      then let (sent, w) = send_pidfd_signal K pidfd signal w
                           in (ok \<and> (sent \<or> errno w = ESRCH), w)
                      else (ok, w));
                   (_, w) = syscall K (Fd (Close pidfd)) w
               in (ok, w))"

fun signal_members ::
  "'k kernel \<Rightarrow> pid \<Rightarrow> pid \<Rightarrow> int \<Rightarrow> pid list \<Rightarrow> bool \<Rightarrow> 'k world \<Rightarrow> bool \<times> 'k world" where
  "signal_members K grp leader signal [] ok w = (ok, w)"
| "signal_members K grp leader signal (p # ps) ok w =
     (let (ok, w) = signal_member K grp leader signal p ok w
      in signal_members K grp leader signal ps ok w)"

definition signal_process_group_members ::
  "'k kernel \<Rightarrow> pid \<Rightarrow> pid \<Rightarrow> fd \<Rightarrow> int \<Rightarrow> 'k world \<Rightarrow>
   (process_group_signal_result \<times> 'k world) option" where
  "signal_process_group_members K grp leader leader_pidfd signal w =
     do { (processes, w) \<leftarrow> process_ids K w;
          let (ok, w) =
            (case processes of
               None \<Rightarrow> (False, w)
             | Some ps \<Rightarrow> signal_members K grp leader signal ps True w);
          let (sent, w) = send_pidfd_signal K leader_pidfd signal w;
          Some (\<lparr>complete = ok \<and> (sent \<or> errno w = ESRCH),
                 leader_signaled = sent\<rparr>, w) }"

section \<open>Waiting for the group\<close>

text \<open>The scan of one round: whether a member other than the leader is seen.\<close>

fun find_member ::
  "'k kernel \<Rightarrow> pid \<Rightarrow> pid \<Rightarrow> pid list \<Rightarrow> 'k world \<Rightarrow> bool \<times> 'k world" where
  "find_member K grp leader [] w = (False, w)"
| "find_member K grp leader (p # ps) w =
     (if p = leader then find_member K grp leader ps w
      else let (member_group, w) = process_group_of K p w in
        if member_group = Some grp then (True, w) else find_member K grp leader ps w)"

partial_function (option) wait_members_loop ::
  "'k kernel \<Rightarrow> pid \<Rightarrow> pid \<Rightarrow> int \<Rightarrow> 'k world \<Rightarrow> (bool \<times> 'k world) option" where
  "wait_members_loop K grp leader deadline w =
     do { (processes, w) \<leftarrow> process_ids K w;
          case processes of
            None \<Rightarrow> Some (False, w)
          | Some ps \<Rightarrow>
              let (found, w) = find_member K grp leader ps w in
              if \<not> found then Some (True, w)
              else let (now, w) = syscall K (Ctl Clock_now) w in
                if now \<ge> deadline then Some (False, w)
                else let (_, w) = syscall K (Ctl (Sleep_ms 10)) w in
                  wait_members_loop K grp leader deadline w }"

declare wait_members_loop.simps [code]

definition wait_process_group_members_gone ::
  "'k kernel \<Rightarrow> pid \<Rightarrow> pid \<Rightarrow> int \<Rightarrow> 'k world \<Rightarrow> (bool \<times> 'k world) option" where
  "wait_process_group_members_gone K grp leader timeout w =
     (let (now, w) = syscall K (Ctl Clock_now) w
      in wait_members_loop K grp leader (now + milliseconds timeout) w)"

section \<open>Capabilities and descriptors\<close>

definition drop_process_capabilities :: "'k kernel \<Rightarrow> 'k world \<Rightarrow> bool \<times> 'k world" where
  "drop_process_capabilities K w =
     (let (n, w) = syscall K (Ctl Capset) w in
      if n \<noteq> 0 then (False, w)
      else let (n, w) = syscall K (Ctl Prctl_cap_ambient_clear) w in
        if n \<noteq> 0 \<and> errno w \<noteq> EINVAL then (False, w) else (True, w))"

definition UINT_MAX :: int where "UINT_MAX = 4294967295"

text \<open>The fallback loop \<open>for (int fd = 3; fd < upper; ++fd)\<close>.\<close>

fun close_each :: "'k kernel \<Rightarrow> fd \<Rightarrow> fd \<Rightarrow> fd list \<Rightarrow> 'k world \<Rightarrow> 'k world" where
  "close_each K first second [] w = w"
| "close_each K first second (fd # fds) w =
     (if fd \<noteq> first \<and> fd \<noteq> second
      then close_each K first second fds (snd (syscall K (Fd (Close fd)) w))
      else close_each K first second fds w)"

text \<open>One guarded \<open>close_range\<close> of the sequence; a failure disables the later ones.\<close>

definition close_range_if ::
  "'k kernel \<Rightarrow> bool \<Rightarrow> int \<Rightarrow> int \<Rightarrow> bool \<times> 'k world \<Rightarrow> bool \<times> 'k world" where
  "close_range_if K enabled lo hi st =
     (let (closed, w) = st in
      if closed \<and> enabled
      then let (n, w) = syscall K (Fd (Close_range lo hi)) w in (n = 0, w)
      else (closed, w))"

definition fallback_bound :: "int \<Rightarrow> int" where
  "fallback_bound maximum = (if maximum > 0 \<and> maximum < INT_MAX then maximum else 65536)"

definition close_fds_except :: "'k kernel \<Rightarrow> fd \<Rightarrow> fd \<Rightarrow> 'k world \<Rightarrow> 'k world" where
  "close_fds_except K a b w =
     (let (first, second) = (if b < a then (b, a) else (a, b));
          (closed, w) = close_range_if K (first > 3) 3 (first - 1) (True, w);
          (closed, w) = close_range_if K (second > first + 1) (first + 1) (second - 1) (closed, w);
          (closed, w) = close_range_if K True (second + 1) UINT_MAX (closed, w)
      in if closed then w
         else let (maximum, w) = syscall K (Ctl Sysconf_open_max) w
              in close_each K first second [3..fallback_bound maximum - 1] w)"

section \<open>Probes\<close>

text \<open>
  The pattern \<open>fork\<close>, run a check in the child, \<open>_exit\<close> with its verdict, wait in the
  parent: \<open>child\<close> is the code the child runs and yields its exit code.
\<close>

definition fork_probe ::
  "'k kernel \<Rightarrow> ('k world \<Rightarrow> int \<times> 'k world) \<Rightarrow> 'k world \<Rightarrow> (bool outcome \<times> 'k world) option" where
  "fork_probe K child_code w =
     (let (child, w) = syscall K (Proc Fork) w in
      if child < 0 then Some (Returned False, w)
      else if child = 0 then (let (code, w) = child_code w in Some (Exited code, w))
      else do { (_, status, w) \<leftarrow> waitpid_retry K child w;
                Some (Returned (WIFEXITED status \<and> WEXITSTATUS status = 0), w) })"

definition probe_process_group_containment ::
  "'k kernel \<Rightarrow> bool \<Rightarrow> 'k world \<Rightarrow> (bool outcome \<times> 'k world) option" where
  "probe_process_group_containment K supported_architecture w =
     fork_probe K (\<lambda>w. let (ok, w) = install_process_group_containment K supported_architecture False w
                        in (if ok then 0 else 1, w)) w"

definition probe_capability_drop :: "'k kernel \<Rightarrow> 'k world \<Rightarrow> (bool outcome \<times> 'k world) option" where
  "probe_capability_drop K w =
     fork_probe K (\<lambda>w. let (ok, w) = drop_process_capabilities K w in (if ok then 0 else 1, w)) w"

definition probe_descriptor_execution :: "'k kernel \<Rightarrow> 'k world \<Rightarrow> bool \<times> 'k world" where
  "probe_descriptor_execution K w =
     (let (_, w) = syscall K (Proc (Execveat (-1) [] [])) (set_errno 0 w) in (errno w \<noteq> ENOSYS, w))"

definition probe_close_range :: "'k kernel \<Rightarrow> 'k world \<Rightarrow> bool \<times> 'k world" where
  "probe_close_range K w =
     (let (result, w) = syscall K (Fd (Close_range UINT_MAX UINT_MAX)) (set_errno 0 w)
      in (result = 0 \<or> errno w \<noteq> ENOSYS, w))"

definition probe_pidfd :: "'k kernel \<Rightarrow> 'k world \<Rightarrow> bool \<times> 'k world" where
  "probe_pidfd K w =
     (let (self, w) = syscall K (Proc Getpid) w;
          (fd, w) = open_pidfd K self w in
      if fd < 0 then (errno w \<noteq> ENOSYS \<and> errno w \<noteq> EINVAL, w)
      else let (_, w) = syscall K (Fd (Close fd)) w in (True, w))"

text \<open>\<open>revents & (POLLIN | POLLHUP | POLLERR)\<close> for the single polled descriptor.\<close>

definition poll_ready :: "reply \<Rightarrow> bool" where
  "poll_ready r = (case out r of Status_data revents \<Rightarrow> (word_of_int revents :: u32) AND (1 OR 16 OR 8) \<noteq> 0
                               | _ \<Rightarrow> False)"

definition pidfd_exited :: "'k kernel \<Rightarrow> fd \<Rightarrow> int \<Rightarrow> 'k world \<Rightarrow> (bool \<times> 'k world) option" where
  "pidfd_exited K pidfd timeout_milliseconds w =
     do { (r, w) \<leftarrow> retry_eintr K (Fd (Poll [pidfd] timeout_milliseconds)) w;
          Some (if ret r > 0 then poll_ready r else False, w) }"

definition CLD_EXITED :: int where "CLD_EXITED = 1"
definition CLD_KILLED :: int where "CLD_KILLED = 2"

definition reply_siginfo :: "reply \<Rightarrow> siginfo" where
  "reply_siginfo r = (case out r of Siginfo_data i \<Rightarrow> i | _ \<Rightarrow> zero_siginfo)"

definition cancellation_probe_child ::
  "'k kernel \<Rightarrow> fd \<Rightarrow> fd \<Rightarrow> 'k world \<Rightarrow> bool outcome \<times> 'k world" where
  "cancellation_probe_child K ready0 ready1 w =
     (let (_, w) = syscall K (Fd (Close ready0)) w;
          (n, w) = syscall K (Proc Setsid) w in
      if n < 0 then (Exited 2, w)
      else let (descendant, w) = syscall K (Proc Fork) w in
        if descendant < 0 then (Exited 3, w)
        else if descendant = 0 then (Blocked, w)
        else let (_, w) = syscall K (Fd (Write ready1 [1])) w in (Blocked, w))"

text \<open>The abandoned child is killed by group and waited for once.\<close>

definition abandon_probe_child :: "'k kernel \<Rightarrow> pid \<Rightarrow> 'k world \<Rightarrow> bool outcome \<times> 'k world" where
  "abandon_probe_child K child w =
     (let (_, w) = syscall K (Proc (Kill (- child) SIGKILL)) w;
          (_, w) = syscall K (Proc (Waitpid child)) w
      in (Returned False, w))"

definition cancellation_probe_parent ::
  "'k kernel \<Rightarrow> pid \<Rightarrow> fd \<Rightarrow> fd \<Rightarrow> 'k world \<Rightarrow> (bool outcome \<times> 'k world) option" where
  "cancellation_probe_parent K child ready0 ready1 w =
     do { let (_, w) = syscall K (Fd (Close ready1)) w;
          (r, w) \<leftarrow> retry_eintr K (Fd (Read ready0 1)) w;
          let (_, w) = syscall K (Fd (Close ready0)) w;
          if ret r \<noteq> 1 then Some (abandon_probe_child K child w)
          else do {
            let (pidfd, w) = open_pidfd K child w;
            if pidfd < 0 then Some (abandon_probe_child K child w)
            else do {
              (signal_result, w) \<leftarrow> signal_process_group_members K child child pidfd SIGTERM w;
              (exited, w) \<leftarrow> pidfd_exited K pidfd 1000 w;
              (members_gone, w) \<leftarrow> wait_process_group_members_gone K child child 1000 w;
              let (r, w) = invoke K (Proc (Waitid_pidfd pidfd [WEXITED, WNOWAIT])) w;
              (_, _, w) \<leftarrow> waitpid_retry K child w;
              let (_, w) = syscall K (Fd (Close pidfd)) w;
              Some (Returned (complete signal_result \<and> leader_signaled signal_result \<and>
                exited \<and> members_gone \<and> ret r = 0 \<and>
                si_code (reply_siginfo r) = CLD_KILLED \<and> si_status (reply_siginfo r) = SIGTERM), w) } } }"

definition probe_pidfd_cancellation :: "'k kernel \<Rightarrow> 'k world \<Rightarrow> (bool outcome \<times> 'k world) option" where
  "probe_pidfd_cancellation K w =
     (let (r, w) = invoke K (Fd Pipe2) w in
      if ret r \<noteq> 0 then Some (Returned False, w)
      else let (ready0, ready1) = (case out r of Fd_pair a b \<Rightarrow> (a, b) | _ \<Rightarrow> (-1, -1));
               (child, w) = syscall K (Proc Fork) w in
        if child < 0
        then let (_, w) = syscall K (Fd (Close ready0)) w;
                 (_, w) = syscall K (Fd (Close ready1)) w
             in Some (Returned False, w)
        else if child = 0 then Some (cancellation_probe_child K ready0 ready1 w)
        else cancellation_probe_parent K child ready0 ready1 w)"

section \<open>The scan of /proc/PID/stat\<close>

text \<open>
  The line the kernel writes: the command name is whatever the program chose, between the
  first opening and the last closing parenthesis; only numbers follow.
\<close>

definition stat_line :: "pid \<Rightarrow> string \<Rightarrow> char \<Rightarrow> nat \<Rightarrow> nat \<Rightarrow> string \<Rightarrow> string" where
  "stat_line process comm state parent pgrp rest =
     show_int process @ '' ('' @ comm @ '') '' @ [state] @ '' '' @ show_nat parent @ '' '' @
     show_nat pgrp @ '' '' @ rest"

lemma digit_not:
  "is_digit c \<Longrightarrow> \<not> is_space c" "is_digit c \<Longrightarrow> c \<noteq> CHR ''-''" "is_digit c \<Longrightarrow> c \<noteq> CHR ''+''"
  "is_digit c \<Longrightarrow> c \<noteq> CHR '')''" "is_digit c \<Longrightarrow> c \<noteq> CHR 0x00" "\<not> is_digit (CHR '' '')"
  by (auto simp: is_digit_def is_space_def)

lemma hd_show_nat: "is_digit (hd (show_nat n))"
  using show_nat_digits [of n] show_nat_nonempty [of n] by (cases "show_nat n") auto

lemma scan_long_show:
  assumes "int n \<le> LONG_MAX" "rest = [] \<or> \<not> is_digit (hd rest)"
  shows "scan_long (show_nat n @ rest) = Some (int n, rest)"
proof -
  note hd = hd_show_nat [of n]
  have dw: "dropWhile is_space (show_nat n @ rest) = show_nat n @ rest"
    using hd digit_not(1) [OF hd] by (cases "show_nat n") auto
  have ne: "hd (show_nat n @ rest) \<noteq> CHR ''-''" "hd (show_nat n @ rest) \<noteq> CHR ''+''"
    using hd digit_not(2,3) [OF hd] by simp_all
  show ?thesis
    using ne takeWhile_dropWhile_block [OF show_nat_digits assms(2), of n] assms(1)
    unfolding scan_long_def dw by (simp add: Let_def LONG_MAX_def)
qed

lemma show_nat_no_nul: "CHR 0x00 \<notin> set (show_nat n)"
  using show_nat_digits [of n] digit_not(5) by (auto simp: list_all_iff)

lemma show_nat_no_paren: "CHR '')'' \<notin> set (show_nat n)"
  using show_nat_digits [of n] digit_not(4) by (auto simp: list_all_iff)

lemma scan_stat_tail_show:
  assumes "state \<noteq> CHR 0x00" "CHR 0x00 \<notin> set rest" "int parent \<le> LONG_MAX" "int pgrp \<le> LONG_MAX"
  shows "scan_stat_tail ([state] @ '' '' @ show_nat parent @ '' '' @ show_nat pgrp @ '' '' @ rest)
    = Some (int pgrp)"
proof -
  let ?tail = "'' '' @ show_nat pgrp @ '' '' @ rest"
  have tw: "takeWhile (\<lambda>c. c \<noteq> CHR 0x00) ([state] @ '' '' @ show_nat parent @ ?tail)
      = [state] @ '' '' @ show_nat parent @ ?tail"
    using assms(1,2) show_nat_no_nul by (subst takeWhile_eq_all_conv) auto
  have sp: "dropWhile is_space ('' '' @ show_nat n @ xs) = show_nat n @ xs" for n xs
    using hd_show_nat [of n] digit_not(1) by (cases "show_nat n") (auto simp: is_space_def)
  have one: "scan_long (show_nat parent @ ?tail) = Some (int parent, ?tail)"
    by (rule scan_long_show) (use assms(3) digit_not(6) in auto)
  have two: "scan_long (show_nat pgrp @ '' '' @ rest) = Some (int pgrp, '' '' @ rest)"
    by (rule scan_long_show) (use assms(4) digit_not(6) in auto)
  show ?thesis
    unfolding scan_stat_tail_def tw using sp one two by simp
qed

lemma drop_length_two: "drop (length xs + 2) (xs @ a # b # ys) = ys"
  by simp

lemma parse_stat_group_line:
  assumes "state \<noteq> CHR 0x00" "state \<noteq> CHR '')''"
    and "CHR 0x00 \<notin> set rest" "CHR '')'' \<notin> set rest"
    and "int parent \<le> LONG_MAX" "0 < pgrp" "int pgrp \<le> INT_MAX"
  shows "parse_stat_group (stat_line process comm state parent pgrp rest) = Some (int pgrp)"
proof -
  let ?front = "show_int process @ '' ('' @ comm"
  let ?tail = "[state] @ '' '' @ show_nat parent @ '' '' @ show_nat pgrp @ '' '' @ rest"
  have line: "stat_line process comm state parent pgrp rest = ?front @ CHR '')'' # '' '' @ ?tail"
    by (simp add: stat_line_def)
  have "rfind (CHR '')'') (?front @ CHR '')'' # '' '' @ ?tail) = Some (length ?front)"
    by (rule rfind_last) (use assms(2,4) show_nat_no_paren in auto)
  moreover have "drop (length ?front + 2) (?front @ CHR '')'' # '' '' @ ?tail) = ?tail"
    using drop_length_two [of ?front] by (simp only: append.simps)
  moreover have "scan_stat_tail ?tail = Some (int pgrp)"
    by (rule scan_stat_tail_show) (use assms in \<open>auto simp: INT_MAX_def LONG_MAX_def\<close>)
  ultimately show ?thesis
    using assms(6,7) unfolding line parse_stat_group_def by simp
qed


section \<open>Which processes are signalled\<close>

text \<open>
  Every signal has the given number and goes to a pidfd that was opened for a process other
  than the leader and whose group was read again, and found to be the given group, after
  the pidfd was open.
\<close>

definition signal_guard :: "pid \<Rightarrow> pid \<Rightarrow> int \<Rightarrow> call_guard_pred" where
  "signal_guard grp leader signal pre x \<longleftrightarrow>
     (\<forall>f s. fst x = Proc (Pidfd_send_signal f s) \<longrightarrow> s = signal \<and>
        (\<exists>pre' p r1 r2. pre = pre' @ [(Proc (Pidfd_open p), r1), (Dir (Read_line (stat_path p)), r2)]
           \<and> ret r1 = f \<and> p \<noteq> leader \<and> stat_reply_group r2 = Some grp))"

interpretation signals: call_guard "signal_guard grp leader signal" for grp leader signal
  by unfold_locales (auto simp: signal_guard_def)

abbreviation guarded_signals :: "pid \<Rightarrow> pid \<Rightarrow> int \<Rightarrow> (syscall \<times> reply) list \<Rightarrow> bool" where
  "guarded_signals grp leader signal \<equiv> guarded (signal_guard grp leader signal)"

definition no_signals :: "(syscall \<times> reply) list \<Rightarrow> bool" where
  "no_signals cs \<longleftrightarrow> (\<forall>f s r. (Proc (Pidfd_send_signal f s), r) \<notin> set cs)"

lemma no_signals_guarded: "no_signals cs \<Longrightarrow> guarded_signals grp leader signal cs"
  by (rule signals.guarded_all) (auto simp: no_signals_def signal_guard_def)

lemma no_signals_append [simp]: "no_signals (cs @ ds) \<longleftrightarrow> no_signals cs \<and> no_signals ds"
  by (auto simp: no_signals_def)

lemma guarded_signals_member:
  assumes "ret r2 = f" "p \<noteq> leader" "stat_reply_group r3 = Some grp"
  shows "guarded_signals grp leader signal
    [(Dir (Read_line (stat_path p)), r1), (Proc (Pidfd_open p), r2),
     (Dir (Read_line (stat_path p)), r3), (Proc (Pidfd_send_signal f signal), r4),
     (Fd (Close f), r5)]"
  using assms by (auto simp: guarded_def signal_guard_def Cons_eq_append_conv)

lemma signal_member_calls:
  assumes "signal_member K grp leader signal p ok w = (ok', w')"
  shows "extends w w' \<and> guarded_signals grp leader signal (calls_between w w')"
proof -
  let ?rd = "Dir (Read_line (stat_path p))"
  obtain r1 w1 where i1: "invoke K ?rd w = (r1, w1)" by fastforce
  obtain r2 w2 where i2: "invoke K (Proc (Pidfd_open p)) w1 = (r2, w2)" by fastforce
  obtain r3 w3 where i3: "invoke K ?rd w2 = (r3, w3)" by fastforce
  obtain r4 w4 where i4: "invoke K (Proc (Pidfd_send_signal (ret r2) signal)) w3 = (r4, w4)" by fastforce
  obtain r5 w5 where i5: "invoke K (Fd (Close (ret r2))) w4 = (r5, w5)" by fastforce
  obtain r5' w5' where i5': "invoke K (Fd (Close (ret r2))) w3 = (r5', w5')" by fastforce
  note h = invokeD(2) [OF i1] invokeD(2) [OF i2] invokeD(2) [OF i3] invokeD(2) [OF i4]
    invokeD(2) [OF i5] invokeD(2) [OF i5']
  consider "w' = w" | "w' = w1" | "w' = w2"
    | "w' = w5'" | "w' = w5" "p \<noteq> leader" "stat_reply_group r3 = Some grp"
    using assms i1 i2 i3 i4 i5 i5'
    by (auto simp: signal_member_def process_group_of_def open_pidfd_def send_pidfd_signal_def
        syscall_def Let_def split: if_splits)
  then show ?thesis
  proof cases
    case 5
    then have "calls_between w w' = [(?rd, r1), (Proc (Pidfd_open p), r2), (?rd, r3),
        (Proc (Pidfd_send_signal (ret r2) signal), r4), (Fd (Close (ret r2)), r5)]"
      using h by (simp add: calls_between_def)
    with 5 guarded_signals_member [OF refl 5(2,3)] h show ?thesis
      by (simp add: extends_def)
  qed (use h in \<open>auto simp: calls_between_def extends_def no_signals_def intro!: no_signals_guarded\<close>)
qed

lemma signal_members_calls:
  assumes "signal_members K grp leader signal ps ok w = (ok', w')"
  shows "extends w w' \<and> guarded_signals grp leader signal (calls_between w w')"
  using assms
proof (induction ps arbitrary: ok w)
  case Nil
  then show ?case by (auto intro: no_signals_guarded simp: no_signals_def)
next
  case (Cons p ps)
  obtain ok1 w1 where m: "signal_member K grp leader signal p ok w = (ok1, w1)" by fastforce
  with Cons.prems have "signal_members K grp leader signal ps ok1 w1 = (ok', w')" by simp
  from Cons.IH [OF this] have e2: "extends w1 w'"
    and g2: "guarded_signals grp leader signal (calls_between w1 w')" by simp_all
  from signal_member_calls [OF m] have e1: "extends w w1"
    and g1: "guarded_signals grp leader signal (calls_between w w1)" by simp_all
  from signals.guarded_compose [OF e1 e2 g1 g2] show ?case by simp
qed

text \<open>Scanning \<open>/proc\<close> only reads directories.\<close>

definition only_dir_calls :: "(syscall \<times> reply) list \<Rightarrow> bool" where
  "only_dir_calls cs \<longleftrightarrow> (\<forall>(c, r) \<in> set cs. \<exists>d. c = Dir d)"

lemma only_dir_no_signals: "only_dir_calls cs \<Longrightarrow> no_signals cs"
  by (force simp: only_dir_calls_def no_signals_def)

definition scanned_pid :: "pid \<Rightarrow> bool" where
  "scanned_pid p \<longleftrightarrow> 0 < p \<and> p \<le> INT_MAX"


lemma only_dir_Cons:
  assumes "invoke K (Dir d) w = (r, w1)" "extends w1 w'" "only_dir_calls (calls_between w1 w')"
  shows "extends w w'" "only_dir_calls (calls_between w w')"
proof -
  note e = invoke_extends [OF assms(1)]
  show "extends w w'" using extends_trans [OF e assms(2)] .
  show "only_dir_calls (calls_between w w')"
    using calls_between_trans [OF e assms(2)] calls_between_invoke [OF assms(1)] assms(3)
    by (simp add: only_dir_calls_def)
qed

lemma history_strtol [simp]: "history (snd (strtol_digits n w)) = history w"
  by (simp add: strtol_digits_def Let_def)

lemma process_ids_loop_post:
  assumes ret: "process_ids_loop K directory acc w = Some y"
  shows "extends w (snd y) \<and> only_dir_calls (calls_between w (snd y)) \<and>
    (list_all scanned_pid acc \<longrightarrow> list_all scanned_pid (fst y))"
proof (rule process_ids_loop.raw_induct [where P = "\<lambda>K directory acc w y.
    extends w (snd y) \<and> only_dir_calls (calls_between w (snd y)) \<and>
    (list_all scanned_pid acc \<longrightarrow> list_all scanned_pid (fst y))", OF _ ret], goal_cases)
  case (1 f K directory acc w y)
  obtain r w1 where i: "invoke K (Dir (Readdir directory)) w = (r, w1)" by fastforce
  let ?s = "strtol_digits (reply_text r) (set_errno 0 w1)"
  let ?acc = "if errno (snd ?s) = 0 \<and> fst ?s > 0 \<and> fst ?s \<le> INT_MAX then acc @ [fst ?s] else acc"
  have hs: "extends (snd ?s) w' = extends w1 w'" "calls_between (snd ?s) w' = calls_between w1 w'" for w'
    by (simp_all add: extends_def calls_between_def)
  note IH = 1(1)
  have "y = (acc, w1) \<or> f K directory acc w1 = Some y \<or> f K directory ?acc (snd ?s) = Some y"
    using 1(2) i by (cases "ret r \<le> 0"; cases "numeric_name (reply_text r)")
      (simp_all add: case_prod_beta Let_def)
  then consider "y = (acc, w1)" | "f K directory acc w1 = Some y"
    | "f K directory ?acc (snd ?s) = Some y" by blast
  then show ?case
  proof cases
    case 1
    then show ?thesis
      using only_dir_Cons [OF i, of w1] by (simp add: only_dir_calls_def)
  next
    case 2
    from IH [OF 2] show ?thesis using only_dir_Cons [OF i] by blast
  next
    case 3
    from IH [OF 3] have e: "extends w1 (snd y)" and o: "only_dir_calls (calls_between w1 (snd y))"
      and l: "list_all scanned_pid ?acc \<longrightarrow> list_all scanned_pid (fst y)"
      unfolding hs by blast+
    have "list_all scanned_pid acc \<longrightarrow> list_all scanned_pid ?acc"
      by (simp add: scanned_pid_def)
    with l only_dir_Cons [OF i e o] show ?thesis by blast
  qed
qed

lemma process_ids_post:
  assumes "process_ids K w = Some (res, w')"
  shows "extends w w' \<and> only_dir_calls (calls_between w w') \<and>
    (case res of None \<Rightarrow> True | Some ps \<Rightarrow> list_all scanned_pid ps)"
proof -
  obtain r1 w1 where i1: "invoke K (Dir (Opendir ''/proc'')) w = (r1, w1)" by fastforce
  note o1 = only_dir_Cons [OF i1]
  show ?thesis
  proof (cases "ret r1 < 0")
    case True
    with assms i1 o1 [of w1] show ?thesis
      by (auto simp: process_ids_def syscall_def only_dir_calls_def)
  next
    case False
    with assms i1 obtain ps w2 where
      l: "process_ids_loop K (ret r1) [] (set_errno 0 w1) = Some (ps, w2)"
      and w': "(let (closed, w3) = syscall K (Dir (Closedir (ret r1))) w2
        in Some (if closed = 0 \<and> errno w2 = 0 then Some ps else None, w3)) = Some (res, w')"
      by (auto simp: process_ids_def syscall_def bind_eq_Some_conv Let_def)
    obtain r3 w3 where i3: "invoke K (Dir (Closedir (ret r1))) w2 = (r3, w3)" by fastforce
    from process_ids_loop_post [OF l] have e2: "extends w1 w2"
      and o2: "only_dir_calls (calls_between w1 w2)" and ps: "list_all scanned_pid ps"
      by simp_all
    from w' i3 have w3: "w' = w3" and res: "res = None \<or> res = Some ps"
      by (auto simp: syscall_def Let_def split: if_splits)
    from only_dir_Cons [OF i3, of w3] have e3: "extends w2 w3" and o3: "only_dir_calls (calls_between w2 w3)"
      by (simp_all add: only_dir_calls_def)
    have "only_dir_calls (calls_between w1 w3)"
      using o2 o3 calls_between_trans [OF e2 e3] by (auto simp: only_dir_calls_def)
    from o1 [OF extends_trans [OF e2 e3] this] res ps w3 show ?thesis by auto
  qed
qed

lemma signal_process_group_members_calls:
  assumes "signal_process_group_members K grp leader leader_pidfd signal w = Some (res, w')"
  obtains cs r where "history w' = history w @ cs @ [(Proc (Pidfd_send_signal leader_pidfd signal), r)]"
    and "guarded_signals grp leader signal cs" and "leader_signaled res \<longleftrightarrow> ret r = 0"
proof -
  from assms obtain ps w1 where p: "process_ids K w = Some (ps, w1)"
    by (auto simp: signal_process_group_members_def bind_eq_Some_conv)
  obtain ok w2 where m: "(case ps of None \<Rightarrow> (False, w1)
      | Some ps \<Rightarrow> signal_members K grp leader signal ps True w1) = (ok, w2)" by fastforce
  obtain r w3 where i: "invoke K (Proc (Pidfd_send_signal leader_pidfd signal)) w2 = (r, w3)" by fastforce
  from assms p m i have "w' = w3" and l: "leader_signaled res \<longleftrightarrow> ret r = 0"
    by (auto simp: signal_process_group_members_def send_pidfd_signal_def syscall_def Let_def)
  from process_ids_post [OF p] have e1: "extends w w1" and g1: "guarded_signals grp leader signal (calls_between w w1)"
    by (auto intro: no_signals_guarded only_dir_no_signals)
  from m have e2: "extends w1 w2" and g2: "guarded_signals grp leader signal (calls_between w1 w2)"
    by (cases ps; force simp: no_signals_def dest: signal_members_calls intro: no_signals_guarded)+
  have "history w' = history w @ calls_between w w2 @ [(Proc (Pidfd_send_signal leader_pidfd signal), r)]"
    using extends_trans [OF e1 e2] invokeD(2) [OF i] \<open>w' = w3\<close> by (simp add: extends_history)
  moreover have "guarded_signals grp leader signal (calls_between w w2)"
    by (rule signals.guarded_compose(2) [OF e1 e2 g1 g2])
  ultimately show ?thesis using l that by blast
qed

section \<open>Inherited descriptors\<close>

text \<open>
  What the code relies on of the kernel, for a view \<open>table\<close> of the open descriptors:
  \<open>close_range\<close> closes the whole inclusive range or nothing, \<open>close\<close> closes its argument,
  \<open>sysconf\<close> closes nothing.
\<close>

definition fd_table_law :: "'k kernel \<Rightarrow> ('k \<Rightarrow> fd set) \<Rightarrow> bool" where
  "fd_table_law K table \<longleftrightarrow>
     (\<forall>a b k. table (snd (K (Fd (Close_range a b)) k)) =
        (if ret (fst (K (Fd (Close_range a b)) k)) = 0 then table k - {a..b} else table k)) \<and>
     (\<forall>f k. table (snd (K (Fd (Close f)) k)) = table k - {f}) \<and>
     (\<forall>k. table (snd (K (Ctl Sysconf_open_max) k)) = table k)"

lemma kern_syscall: "kern (snd (syscall K c w)) = snd (K c (kern w))"
  by (simp add: syscall_def invoke_def split_beta)

lemma fst_syscall: "fst (syscall K c w) = ret (fst (K c (kern w)))"
  by (simp add: syscall_def invoke_def split_beta)

lemma table_close_range:
  assumes "fd_table_law K table" "syscall K (Fd (Close_range a b)) w = (n, w')"
  shows "table (kern w') = (if n = 0 then table (kern w) - {a..b} else table (kern w))"
proof -
  have "w' = snd (syscall K (Fd (Close_range a b)) w)" "n = fst (syscall K (Fd (Close_range a b)) w)"
    using assms(2) by simp_all
  with assms(1) show ?thesis
    unfolding fd_table_law_def by (simp only: kern_syscall fst_syscall)
qed

lemma table_sysconf:
  assumes "fd_table_law K table" "syscall K (Ctl Sysconf_open_max) w = (n, w')"
  shows "table (kern w') = table (kern w)"
proof -
  have "w' = snd (syscall K (Ctl Sysconf_open_max) w)" using assms(2) by simp
  with assms(1) show ?thesis unfolding fd_table_law_def by (simp only: kern_syscall)
qed

lemma table_close_each:
  assumes "fd_table_law K table"
  shows "table (kern (close_each K first second fds w)) =
    table (kern w) - (set fds - {first, second})"
proof (induction fds arbitrary: w)
  case (Cons f fds)
  have "table (kern (snd (syscall K (Fd (Close f)) w))) = table (kern w) - {f}"
    using assms unfolding fd_table_law_def by (simp only: kern_syscall)
  with Cons show ?case by auto
qed simp

lemma close_range_if_table:
  assumes "fd_table_law K table" "close_range_if K enabled lo hi (c, w) = (c', w')"
  shows "c' \<Longrightarrow> c \<and> table (kern w') = table (kern w) - (if enabled then {lo..hi} else {})"
    and "\<not> c' \<Longrightarrow> table (kern w') = table (kern w)"
  using assms(2) table_close_range [OF assms(1)]
  by (auto simp: close_range_if_def Let_def split: if_splits prod.splits)

lemma close_range_if_extends:
  "close_range_if K enabled lo hi (c, w) = (c', w') \<Longrightarrow> extends w w'"
  by (auto simp: close_range_if_def Let_def split: if_splits prod.splits dest: syscall_extends)

lemma close_each_extends: "extends w (close_each K first second fds w)"
  by (induction fds arbitrary: w)
    (auto simp: extends_intros intro: extends_trans [OF extends_syscall [OF extends_refl]])

text \<open>The two ways the function ends, on the descriptor table.\<close>

lemma close_fds_except_cases:
  assumes law: "fd_table_law K table" and ge: "3 \<le> a" "3 \<le> b" and ne: "a \<noteq> b"
    and le: "a \<le> INT_MAX" "b \<le> INT_MAX"
    and w': "w' = close_fds_except K a b w"
  obtains (range) "table (kern w') = table (kern w) - ({3..UINT_MAX} - {a, b})"
  | (fallback) r where "(Ctl Sysconf_open_max, r) \<in> set (calls_between w w')"
      "\<And>f. f \<in> table (kern w') \<Longrightarrow> f \<in> table (kern w)"
      "\<And>f. f \<in> table (kern w') \<Longrightarrow> f < 3 \<or> f \<in> {a, b} \<or> fallback_bound (ret r) \<le> f"
      "\<And>f. f \<in> table (kern w) \<Longrightarrow> f < 3 \<or> f \<in> {a, b} \<Longrightarrow> f \<in> table (kern w')"
proof -
  define x y where "x = min a b" and "y = max a b"
  have xy: "(if b < a then (b, a) else (a, b)) = (x, y)" "3 \<le> x" "x < y" "{a, b} = {x, y}" "y \<le> UINT_MAX"
    using ge ne le by (auto simp: x_def y_def INT_MAX_def UINT_MAX_def)
  obtain c1 w1 where s1: "close_range_if K (x > 3) 3 (x - 1) (True, w) = (c1, w1)" by fastforce
  obtain c2 w2 where s2: "close_range_if K (y > x + 1) (x + 1) (y - 1) (c1, w1) = (c2, w2)" by fastforce
  obtain c3 w3 where s3: "close_range_if K True (y + 1) UINT_MAX (c2, w2) = (c3, w3)" by fastforce
  obtain m w4 where s4: "syscall K (Ctl Sysconf_open_max) w3 = (m, w4)" by fastforce
  note t1 = close_range_if_table [OF law s1] and t2 = close_range_if_table [OF law s2]
    and t3 = close_range_if_table [OF law s3]
  have fin: "w' = (if c3 then w3 else close_each K x y [3..fallback_bound m - 1] w4)"
    unfolding w' close_fds_except_def xy(1) using s1 s2 s3 s4 by (simp add: Let_def)
  show ?thesis
  proof (cases c3)
    case True
    with t3(1) t2(1) t1(1) have "table (kern w3) = table (kern w) - (if x > 3 then {3..x - 1} else {})
        - (if y > x + 1 then {x + 1..y - 1} else {}) - {y + 1..UINT_MAX}" by simp
    also have "\<dots> = table (kern w) - ({3..UINT_MAX} - {x, y})"
      using xy(2,3,5) by auto
    finally show ?thesis using True fin range xy(4) by simp
  next
    case False
    obtain r where r: "ret r = m" "history w4 = history w3 @ [(Ctl Sysconf_open_max, r)]"
      using s4 by (auto elim: syscallD)
    have e: "extends w w3"
      using extends_trans [OF extends_trans [OF close_range_if_extends [OF s1]
          close_range_if_extends [OF s2]] close_range_if_extends [OF s3]] .
    have e4: "extends w4 w'" using False fin close_each_extends by simp
    note e34 = syscall_extends [OF s4] and c34 = calls_between_append [OF r(2)]
    have A: "(Ctl Sysconf_open_max, r) \<in> set (calls_between w w')"
      using calls_between_trans [OF e extends_trans [OF e34 e4]] calls_between_trans [OF e34 e4] c34
      by simp
    have B: "table (kern w') = table (kern w3) - ({3..<fallback_bound m} - {x, y})"
      using False fin table_close_each [OF law] table_sysconf [OF law s4] by auto
    have C: "table (kern w3) \<subseteq> table (kern w)"
      "\<And>f. f \<in> table (kern w) \<Longrightarrow> f < 3 \<or> f \<in> {x, y} \<Longrightarrow> f \<in> table (kern w3)"
      using t1 t2 t3 xy(2,3) False by (cases c1; cases c2; auto split: if_splits)+
    show ?thesis
      by (rule fallback [of r, OF A]) (use B C r(1) xy(4) in auto)
  qed
qed


section \<open>Probes by a forked child\<close>

text \<open>A verdict \<open>True\<close> of the parent: what \<open>fork\<close> and the last \<open>waitpid\<close> replied.\<close>

lemma retry_eintr_last:
  assumes "retry_eintr K c w = Some y"
  shows "extends w (snd y) \<and> (c, fst y) \<in> set (calls_between w (snd y))
    \<and> (\<forall>(c', r') \<in> set (calls_between w (snd y)). c' = c)
    \<and> \<not> (ret (fst y) < 0 \<and> err (fst y) = EINTR)"
proof (rule retry_eintr.raw_induct [where P = "\<lambda>K c w y. extends w (snd y)
    \<and> (c, fst y) \<in> set (calls_between w (snd y))
    \<and> (\<forall>(c', r') \<in> set (calls_between w (snd y)). c' = c)
    \<and> \<not> (ret (fst y) < 0 \<and> err (fst y) = EINTR)", OF _ assms], goal_cases)
  case (1 f K c w y)
  obtain r w1 where i: "invoke K c w = (r, w1)" by fastforce
  note IH = 1(1) and e1 = invoke_extends [OF i] and c1 = calls_between_invoke [OF i]
  show ?case
  proof (cases "ret r < 0 \<and> errno w1 = EINTR")
    case True
    with 1(2) i have "f K c w1 = Some y" by simp
    from IH [OF this] have e2: "extends w1 (snd y)" by blast
    from IH [OF \<open>f K c w1 = Some y\<close>] extends_trans [OF e1 e2] show ?thesis
      unfolding calls_between_trans [OF e1 e2] c1 by auto
  next
    case False
    with 1(2) i have "y = (r, w1)" by auto
    with e1 c1 False invokeD(3) [OF i] show ?thesis by auto
  qed
qed

lemma fork_probe_True:
  assumes "fork_probe K child_code w = Some (Returned True, w')"
  obtains child r where "0 < child" "(Proc (Waitpid child), r) \<in> set (calls_between w w')"
    and "WIFEXITED (reply_status r)" "WEXITSTATUS (reply_status r) = 0"
proof -
  obtain rf w1 where f: "invoke K (Proc Fork) w = (rf, w1)" by fastforce
  from assms f obtain r where ch: "0 < ret rf"
    and rt: "retry_eintr K (Proc (Waitpid (ret rf))) w1 = Some (r, w')"
    and st: "WIFEXITED (reply_status r)" "WEXITSTATUS (reply_status r) = 0"
    by (auto simp: fork_probe_def syscall_def waitpid_retry_def bind_eq_Some_conv Let_def
        split: if_splits prod.splits)
  from retry_eintr_last [OF rt] have "extends w1 w'"
    and "(Proc (Waitpid (ret rf)), r) \<in> set (calls_between w1 w')" by simp_all
  with calls_between_trans [OF invoke_extends [OF f] \<open>extends w1 w'\<close>]
  have "(Proc (Waitpid (ret rf)), r) \<in> set (calls_between w w')" by simp
  with ch st that show ?thesis by blast
qed

lemma fork_probe_child:
  assumes "invoke K (Proc Fork) w = (r, w1)" "ret r = 0" "child_code w1 = (code, w2)"
  shows "fork_probe K child_code w = Some (Exited code, w2)"
  using assms by (simp add: fork_probe_def syscall_def)

text \<open>When \<open>waitpid\<close> fails for a reason other than \<open>EINTR\<close> the verdict is still \<open>True\<close>.\<close>

lemma fork_probe_wait_failure:
  assumes "invoke K (Proc Fork) w = (rf, w1)" "0 < ret rf"
    and "invoke K (Proc (Waitpid (ret rf))) w1 = (r, w2)" "ret r < 0" "err r \<noteq> EINTR"
  shows "fork_probe K child_code w = Some (Returned True, w2)"
  using assms retry_eintr_unfold [OF assms(3)]
  by (simp add: fork_probe_def syscall_def waitpid_retry_def reply_status_def)

lemma close_range_if_refused:
  assumes "\<And>a b k. ret (fst (K (Fd (Close_range a b)) k)) \<noteq> 0"
    and "fd_table_law K table" "close_range_if K enabled lo hi (c, w) = (c', w')"
  shows "(c' \<longrightarrow> c \<and> \<not> enabled) \<and> table (kern w') = table (kern w)"
  using assms(3) table_close_range [OF assms(2)] assms(1) fst_syscall [of K "Fd (Close_range lo hi)" w]
  by (auto simp: close_range_if_def Let_def split: if_splits prod.splits)

lemma close_fds_except_fallback:
  assumes law: "fd_table_law K table"
    and refused: "\<And>a b k. ret (fst (K (Fd (Close_range a b)) k)) \<noteq> 0"
    and bound: "\<And>k. ret (fst (K (Ctl Sysconf_open_max) k)) = n"
  shows "table (kern (close_fds_except K a b w)) =
    table (kern w) - ({3..<fallback_bound n} - {a, b})"
proof -
  define x y where "x = min a b" and "y = max a b"
  have xy: "(if b < a then (b, a) else (a, b)) = (x, y)" "{a, b} = {x, y}"
    by (auto simp: x_def y_def)
  obtain c1 w1 where s1: "close_range_if K (x > 3) 3 (x - 1) (True, w) = (c1, w1)" by fastforce
  obtain c2 w2 where s2: "close_range_if K (y > x + 1) (x + 1) (y - 1) (c1, w1) = (c2, w2)" by fastforce
  obtain c3 w3 where s3: "close_range_if K True (y + 1) UINT_MAX (c2, w2) = (c3, w3)" by fastforce
  obtain m w4 where s4: "syscall K (Ctl Sysconf_open_max) w3 = (m, w4)" by fastforce
  note t = close_range_if_refused [OF refused law]
  from t [OF s1] t [OF s2] t [OF s3] have "\<not> c3" and tab: "table (kern w3) = table (kern w)" by simp_all
  then have w': "close_fds_except K a b w = close_each K x y [3..fallback_bound m - 1] w4"
    unfolding close_fds_except_def xy(1) using s1 s2 s3 s4 by (simp add: Let_def)
  have "m = n" using bound fst_syscall [of K "Ctl Sysconf_open_max" w3] s4 by simp
  then show ?thesis
    unfolding w' table_close_each [OF law] table_sysconf [OF law s4] tab xy(2) by auto
qed

text \<open>A kernel whose state is the list of open descriptors.\<close>

definition table_kernel :: "bool \<Rightarrow> int \<Rightarrow> fd list kernel" where
  "table_kernel has_close_range n c k =
     (case c of
        Fd (Close_range a b) \<Rightarrow>
          if has_close_range then (ok_reply, filter (\<lambda>f. \<not> (a \<le> f \<and> f \<le> b)) k) else (err_reply ENOSYS, k)
      | Fd (Close f) \<Rightarrow> (ok_reply, filter (\<lambda>g. g \<noteq> f) k)
      | Ctl Sysconf_open_max \<Rightarrow> (num_reply n, k)
      | _ \<Rightarrow> (ok_reply, k))"

lemma table_kernel_law: "fd_table_law (table_kernel has_close_range n) set"
  by (auto simp: fd_table_law_def table_kernel_def ok_reply_def err_reply_def)

section \<open>Properties\<close>



text \<open>
  C15. Signalling a process group sends the requested signal only: first to pidfds of
  processes other than the leader that were re-read, after the pidfd was opened, and found
  to be members of the group; last, once, to the leader's own pidfd. The reported
  \<open>leader_signaled\<close> is the verdict of that last call.
\<close>

theorem signals_reach_confirmed_members_only:
  assumes "signal_process_group_members K grp leader leader_pidfd signal w = Some (res, w')"
  shows "\<exists>cs r. calls_between w w' = cs @ [(Proc (Pidfd_send_signal leader_pidfd signal), r)] \<and>
    guarded (signal_guard grp leader signal) cs \<and> (leader_signaled res \<longleftrightarrow> ret r = 0)"
  using signal_process_group_members_calls [OF assms] by (metis calls_between_append)

definition scan_script :: "reply list" where
  "scan_script =
     [num_reply 3,
      data_reply 1 (Text_data ''self''), data_reply 1 (Text_data ''41''), data_reply 1 (Text_data ''42''),
      num_reply 0, num_reply 0,
      data_reply 0 (Text_data ''42 (sh) S 41 41 41 0''), num_reply 9,
      data_reply 0 (Text_data ''42 (sh) S 41 41 41 0''), num_reply 0, num_reply 0,
      num_reply 0]"

theorem signals_reach_confirmed_members_only_witness:
  "\<exists>res w'. signal_process_group_members scripted 41 41 8 SIGTERM (start_world scan_script) = Some (res, w')
     \<and> leader_signaled res \<and> complete res \<and>
     (\<exists>cs r. calls_between (start_world scan_script) w' =
         cs @ [(Proc (Pidfd_send_signal 8 SIGTERM), r)] \<and>
       guarded (signal_guard 41 41 SIGTERM) cs)"
proof -
  let ?run = "signal_process_group_members scripted 41 41 8 SIGTERM (start_world scan_script)"
  have "map_option (\<lambda>(res, w). (complete res, leader_signaled res)) ?run = Some (True, True)"
    by code_simp
  then obtain res w' where r: "?run = Some (res, w')" "complete res" "leader_signaled res" by auto
  from signals_reach_confirmed_members_only [OF r(1)] r show ?thesis by blast
qed

text \<open>
  C28. Closing inherited descriptors: the standard descriptors and the two given ones stay
  open when they were, nothing is opened, and every other descriptor is closed, except,
  when \<open>close_range\<close> failed and the loop had to be used, those not below the bound that
  \<open>sysconf(_SC_OPEN_MAX)\<close> reported.
\<close>

theorem inherited_descriptors_closed:
  assumes "fd_table_law K table" "3 \<le> a" "3 \<le> b" "a \<noteq> b" "a \<le> INT_MAX" "b \<le> INT_MAX"
    and "table (kern w) \<subseteq> {0..INT_MAX}"
    and "w' = close_fds_except K a b w"
  shows "table (kern w') \<subseteq> table (kern w) \<and>
    table (kern w) \<inter> {0, 1, 2, a, b} \<subseteq> table (kern w') \<and>
    (\<forall>f \<in> table (kern w') - {0, 1, 2, a, b}.
       \<exists>r. (Ctl Sysconf_open_max, r) \<in> set (calls_between w w') \<and> fallback_bound (ret r) \<le> f)"
proof -
  have std: "f < 3 \<longleftrightarrow> f \<in> {0, 1, 2}" "f \<le> UINT_MAX" if "f \<in> table (kern w)" for f
    using that assms(7) by (force simp: INT_MAX_def UINT_MAX_def)+
  from assms(1-6,8) show ?thesis
  proof (cases rule: close_fds_except_cases)
    case range
    then have "f \<in> table (kern w') \<longleftrightarrow> f \<in> table (kern w) \<and> f \<in> {0, 1, 2, a, b}" for f
      using std [of f] assms(2,3) by (cases "f \<in> table (kern w)") auto
    then show ?thesis by blast
  next
    case (fallback r)
    then show ?thesis using std by blast
  qed
qed

theorem inherited_descriptors_closed_witness:
  "kern (close_fds_except (table_kernel True 1024) 6 4 (start_world [0, 1, 2, 3, 4, 5, 6, 7, 900])) = [0, 1, 2, 4, 6] \<and>
   (let w = start_world [0, 1, 2, 3, 4, 5, 6, 7, 900];
        w' = close_fds_except (table_kernel False 5) 6 4 w
    in \<forall>f \<in> set (kern w') - {0, 1, 2, 6, 4}. \<exists>r.
         (Ctl Sysconf_open_max, r) \<in> set (calls_between w w') \<and> fallback_bound (ret r) \<le> f)"
proof
  show "kern (close_fds_except (table_kernel True 1024) 6 4 (start_world [0, 1, 2, 3, 4, 5, 6, 7, 900])) = [0, 1, 2, 4, 6]"
    by code_simp
  show "let w = start_world [0, 1, 2, 3, 4, 5, 6, 7, 900];
        w' = close_fds_except (table_kernel False 5) 6 4 w
    in \<forall>f \<in> set (kern w') - {0, 1, 2, 6, 4}. \<exists>r.
         (Ctl Sysconf_open_max, r) \<in> set (calls_between w w') \<and> fallback_bound (ret r) \<le> f"
    using inherited_descriptors_closed [OF table_kernel_law [of False 5], of 6 4 "start_world [0, 1, 2, 3, 4, 5, 6, 7, 900]", OF _ _ _ _ _ _ refl]
    unfolding Let_def by (simp add: start_world_def INT_MAX_def)
qed

text \<open>
  The fallback of \<open>close_fds_except\<close> closes nothing at or above the bound that
  \<open>sysconf(_SC_OPEN_MAX)\<close> reports, which is the soft limit on descriptors in force at that
  time: a descriptor inherited above it stays open.
\<close>

theorem close_fallback_keeps_high_descriptors:
  assumes "fd_table_law K table"
    and "\<And>a b k. ret (fst (K (Fd (Close_range a b)) k)) \<noteq> 0"
    and "\<And>k. ret (fst (K (Ctl Sysconf_open_max) k)) = n" "0 < n" "n < INT_MAX"
    and "f \<in> table (kern w)" "n \<le> f"
  shows "f \<in> table (kern (close_fds_except K a b w))"
  using close_fds_except_fallback [OF assms(1-3)] assms(4-) by (simp add: fallback_bound_def)

theorem close_fallback_keeps_high_descriptors_witness:
  "900 \<in> set (kern (close_fds_except (table_kernel False 64) 3 4 (start_world [0, 1, 2, 3, 4, 900])))"
  by (rule close_fallback_keeps_high_descriptors [OF table_kernel_law, where n = 64])
    (simp_all add: table_kernel_def err_reply_def num_reply_def INT_MAX_def start_world_def)

text \<open>
  A probe that forks a child accepts when the wait for the child fails for a reason
  other than \<open>EINTR\<close>: the status word is still zero, which decodes as a successful exit,
  whatever the child did.
\<close>

theorem capability_probe_accepts_lost_child:
  assumes "invoke K (Proc Fork) w = (rf, w1)" "0 < ret rf"
    and "invoke K (Proc (Waitpid (ret rf))) w1 = (r, w2)" "ret r < 0" "err r = ECHILD"
  shows "probe_capability_drop K w = Some (Returned True, w2)"
  using assms fork_probe_wait_failure [OF assms(1-4)]
  by (simp add: probe_capability_drop_def errno_defs)

theorem capability_probe_accepts_lost_child_witness:
  "map_option fst (probe_capability_drop scripted (start_world [num_reply 77, err_reply ECHILD]))
     = Some (Returned True)"
  using capability_probe_accepts_lost_child [of scripted "start_world [num_reply 77, err_reply ECHILD]"
    "num_reply 77" _ "err_reply ECHILD"]
  by (simp add: scripted_simps)



end
