(* ===== verification/Wire.thy ===== *)
theory Wire
  imports Process_Control
begin

text \<open>
  Descriptors that close themselves and fixed-size records that travel through a pipe: the
  object representation of 16- and 32-bit integers on the little-endian target, and the two
  loops the source writes for sending and receiving a record (\<open>report_child_error\<close> in
  \<open>src/backend.cpp\<close>, \<open>write_failure\<close> and the read loops of the probes in
  \<open>src/network_isolation.cpp\<close> and \<open>src/mount_isolation.cpp\<close>). The interface between a sender
  and a receiver is the locale \<open>wire_record\<close>.
\<close>

section \<open>Descriptors\<close>

text \<open>\<open>unique_fd::reset()\<close>: the descriptor is closed when valid, and is \<open>-1\<close> afterwards.\<close>

definition reset_fd :: "'k kernel \<Rightarrow> fd \<Rightarrow> 'k world \<Rightarrow> 'k world" where
  "reset_fd K fd w = (if fd \<ge> 0 then snd (syscall K (Fd (Close fd)) w) else w)"

definition read_data :: "reply \<Rightarrow> byte list" where
  "read_data r = take (nat (ret r)) (reply_bytes r)"

lemma reset_fd_only: "(\<And>fd. P (Fd (Close fd))) \<Longrightarrow> only_calls P w (reset_fd K fd w)"
  by (simp add: reset_fd_def) (metis only_calls_syscall prod.collapse)

section \<open>Object representations\<close>

text \<open>Object representation on the little-endian target.\<close>

definition bytes_of_u32 :: "u32 \<Rightarrow> byte list" where
  "bytes_of_u32 x = [ucast x, ucast (drop_bit 8 x), ucast (drop_bit 16 x), ucast (drop_bit 24 x)]"

fun u32_of_bytes :: "byte list \<Rightarrow> u32" where
  "u32_of_bytes [] = 0"
| "u32_of_bytes (b # bs) = ucast b OR push_bit 8 (u32_of_bytes bs)"

definition bytes_of_u16 :: "16 word \<Rightarrow> byte list" where
  "bytes_of_u16 x = [ucast x, ucast (drop_bit 8 x)]"

lemma u32_of_bytes_of_u32 [simp]: "u32_of_bytes (bytes_of_u32 x) = x"
proof (rule bit_word_eqI)
  fix n assume "n < LENGTH(32)"
  then have n: "n < 32" by simp
  show "bit (u32_of_bytes (bytes_of_u32 x)) n = bit x n"
    using n by (cases "n < 8"; cases "n < 16"; cases "n < 24")
      (auto simp: bytes_of_u32_def bit_or_iff bit_ucast_iff bit_push_bit_iff bit_drop_bit_eq)
qed

lemma length_bytes_of_u32 [simp]: "length (bytes_of_u32 x) = 4"
  by (simp add: bytes_of_u32_def)

lemma length_bytes_of_u16 [simp]: "length (bytes_of_u16 x) = 2"
  by (simp add: bytes_of_u16_def)

lemma u32_of_bytes_of_u16 [simp]: "u32_of_bytes (bytes_of_u16 x) = ucast x"
proof (rule bit_word_eqI)
  fix n assume "n < LENGTH(32)"
  then have n: "n < 32" by simp
  show "bit (u32_of_bytes (bytes_of_u16 x)) n = bit (ucast x :: u32) n"
    using n by (cases "n < 8"; cases "n < 16")
      (auto simp: bytes_of_u16_def bit_or_iff bit_ucast_iff bit_push_bit_iff bit_drop_bit_eq dest: bit_imp_le_length)
qed

lemma take4_bytes [simp]: "take 4 (bytes_of_u32 x) = bytes_of_u32 x" "take 2 (bytes_of_u16 y) = bytes_of_u16 y"
  by (simp_all add: bytes_of_u32_def bytes_of_u16_def)

lemma bytes_of_u32_parts [simp]:
  "take 4 (bytes_of_u32 x @ b) = bytes_of_u32 x" "drop 4 (bytes_of_u32 x @ b) = b"
  by (simp_all add: bytes_of_u32_def)

section \<open>Sending and receiving a record\<close>

text \<open>The write loop, on the bytes that remain to be written.\<close>

partial_function (option) write_record :: "'k kernel \<Rightarrow> fd \<Rightarrow> byte list \<Rightarrow> 'k world \<Rightarrow> 'k world option" where
  "write_record K fd bytes w =
     (if bytes = [] then Some w
      else let (r, w) = invoke K (Fd (Write fd bytes)) w in
        if ret r > 0 then write_record K fd (drop (nat (ret r)) bytes) w
        else if ret r < 0 \<and> errno w = EINTR then write_record K fd bytes w
        else Some w)"

declare write_record.simps [code]

text \<open>The read loop: \<open>acc\<close> holds the bytes read so far, at most \<open>len\<close> of them.\<close>

partial_function (option) read_record ::
  "'k kernel \<Rightarrow> fd \<Rightarrow> nat \<Rightarrow> byte list \<Rightarrow> 'k world \<Rightarrow> (byte list \<times> 'k world) option" where
  "read_record K fd len acc w =
     (if length acc \<ge> len then Some (acc, w)
      else let (r, w) = invoke K (Fd (Read fd (len - length acc))) w in
        if ret r > 0 then read_record K fd len (acc @ read_data r) w
        else if ret r < 0 \<and> errno w = EINTR then read_record K fd len acc w
        else Some (acc, w))"

declare read_record.simps [code]

text \<open>The bytes the kernel accepted from the writes of a history.\<close>

definition accepted :: "(syscall \<times> reply) list \<Rightarrow> byte list" where
  "accepted cs = concat (map (\<lambda>(c, r). case c of Fd (Write fd bs) \<Rightarrow> take (nat (ret r)) bs | _ \<Rightarrow> []) cs)"

definition all_accepted :: "(syscall \<times> reply) list \<Rightarrow> bool" where
  "all_accepted cs = list_all (\<lambda>(c, r). ret r > 0 \<or> ret r < 0 \<and> err r = EINTR) cs"

lemma write_record_post:
  assumes "write_record K fd bytes w = Some w'"
  shows "extends w w' \<and> prefix (accepted (calls_between w w')) bytes \<and>
    (all_accepted (calls_between w w') \<longrightarrow> accepted (calls_between w w') = bytes)"
proof (rule write_record.raw_induct [where P = "\<lambda>K fd bytes w w'. extends w w' \<and>
    prefix (accepted (calls_between w w')) bytes \<and>
    (all_accepted (calls_between w w') \<longrightarrow> accepted (calls_between w w') = bytes)", OF _ assms], goal_cases)
  case (1 f K fd bytes w w')
  obtain r w1 where i: "invoke K (Fd (Write fd bytes)) w = (r, w1)" by fastforce
  note e1 = invoke_extends [OF i] and c1 = calls_between_invoke [OF i]
  consider "bytes = []" | "bytes \<noteq> []" "ret r > 0" | "bytes \<noteq> []" "ret r < 0" "err r = EINTR"
    | "bytes \<noteq> []" "\<not> ret r > 0" "\<not> (ret r < 0 \<and> err r = EINTR)" by blast
  then show ?case
  proof cases
    case 1
    with \<open>_ = Some w'\<close> show ?thesis by (simp add: accepted_def all_accepted_def)
  next
    case 2
    with 1(2) i have f: "f K fd (drop (nat (ret r)) bytes) w1 = Some w'" by simp
    from 1(1) [OF f] have e2: "extends w1 w'" and p: "prefix (accepted (calls_between w1 w')) (drop (nat (ret r)) bytes)"
      and a: "all_accepted (calls_between w1 w') \<longrightarrow> accepted (calls_between w1 w') = drop (nat (ret r)) bytes" by blast+
    have "calls_between w w' = (Fd (Write fd bytes), r) # calls_between w1 w'"
      using calls_between_trans [OF e1 e2] c1 by simp
    then have c: "accepted (calls_between w w') = take (nat (ret r)) bytes @ accepted (calls_between w1 w')"
      "all_accepted (calls_between w w') \<longleftrightarrow> all_accepted (calls_between w1 w')"
      using 2 by (simp_all add: accepted_def all_accepted_def)
    have "prefix (take (nat (ret r)) bytes @ accepted (calls_between w1 w')) (take (nat (ret r)) bytes @ drop (nat (ret r)) bytes)"
      using p by (simp only: same_prefix_prefix)
    then have "prefix (take (nat (ret r)) bytes @ accepted (calls_between w1 w')) bytes" by simp
    then show ?thesis using extends_trans [OF e1 e2] a unfolding c by simp
  next
    case 3
    with 1(2) i invokeD(3) [OF i] have f: "f K fd bytes w1 = Some w'" by simp
    from 1(1) [OF f] have e2: "extends w1 w'" by blast
    have "calls_between w w' = (Fd (Write fd bytes), r) # calls_between w1 w'"
      using calls_between_trans [OF e1 e2] c1 by simp
    then have c: "accepted (calls_between w w') = accepted (calls_between w1 w')"
      "all_accepted (calls_between w w') \<longleftrightarrow> all_accepted (calls_between w1 w')"
      using 3 by (simp_all add: accepted_def all_accepted_def)
    show ?thesis using extends_trans [OF e1 e2] 1(1) [OF f] unfolding c by simp
  next
    case 4
    then have "\<not> (ret r < 0 \<and> errno w1 = EINTR)" using invokeD(3) [OF i] by auto
    with 4 1(2) i have "w' = w1" by auto
    with 4 c1 e1 show ?thesis by (simp add: accepted_def all_accepted_def)
  qed
qed

text \<open>The bytes the reads of a history delivered.\<close>

definition bytes_read :: "(syscall \<times> reply) list \<Rightarrow> byte list" where
  "bytes_read cs = concat (map (\<lambda>(c, r). case c of Fd (Read fd n) \<Rightarrow> if ret r > 0 then read_data r else [] | _ \<Rightarrow> []) cs)"

lemma bytes_read_append [simp]: "bytes_read (cs @ ds) = bytes_read cs @ bytes_read ds"
  by (simp add: bytes_read_def)

lemma accepted_append [simp]: "accepted (cs @ ds) = accepted cs @ accepted ds"
  by (simp add: accepted_def)

lemma accepted_none:
  "(\<And>c r fd bs. (c, r) \<in> set cs \<Longrightarrow> c \<noteq> Fd (Write fd bs)) \<Longrightarrow> accepted cs = []"
  by (fastforce simp: accepted_def split: syscall.splits fd_call.splits)

lemma bytes_read_none:
  "(\<And>c r fd n. (c, r) \<in> set cs \<Longrightarrow> c \<noteq> Fd (Read fd n)) \<Longrightarrow> bytes_read cs = []"
  by (fastforce simp: bytes_read_def split: syscall.splits fd_call.splits)

lemma write_record_only:
  assumes "write_record K fd bytes w = Some w'"
  shows "only_calls (\<lambda>c. \<exists>bs. c = Fd (Write fd bs)) w w'"
proof (rule write_record.raw_induct [where P = "\<lambda>K fd bytes w w'. only_calls (\<lambda>c. \<exists>bs. c = Fd (Write fd bs)) w w'",
    OF _ assms], goal_cases)
  case (1 f K fd bytes w w')
  obtain r w1 where i: "invoke K (Fd (Write fd bytes)) w = (r, w1)" by fastforce
  then have o: "only_calls (\<lambda>c. \<exists>bs. c = Fd (Write fd bs)) w w1" by (auto intro: only_calls_invoke)
  from 1(2) i have "w' = w \<or> w' = w1 \<or> (\<exists>bs. f K fd bs w1 = Some w')" by (auto split: if_splits)
  then show ?case using 1(1) only_calls_trans [OF o] o by auto
qed

lemma read_record_post:
  assumes "read_record K fd len acc w = Some y"
  shows "only_calls (\<lambda>c. \<exists>n. c = Fd (Read fd n)) w (snd y) \<and> fst y = acc @ bytes_read (calls_between w (snd y))"
proof (rule read_record.raw_induct [where P = "\<lambda>K fd len acc w y. only_calls (\<lambda>c. \<exists>n. c = Fd (Read fd n)) w (snd y) \<and>
    fst y = acc @ bytes_read (calls_between w (snd y))", OF _ assms], goal_cases)
  case (1 f K fd len acc w y)
  obtain r w1 where i: "invoke K (Fd (Read fd (len - length acc))) w = (r, w1)" by fastforce
  note c1 = calls_between_invoke [OF i]
  from i have o: "only_calls (\<lambda>c. \<exists>n. c = Fd (Read fd n)) w w1" by (auto intro: only_calls_invoke)
  consider "length acc \<ge> len" | "length acc < len" "ret r > 0" | "length acc < len" "ret r < 0" "errno w1 = EINTR"
    | "length acc < len" "\<not> ret r > 0" "\<not> (ret r < 0 \<and> errno w1 = EINTR)" by linarith
  then show ?case
  proof cases
    case 1
    with \<open>_ = Some y\<close> have "y = (acc, w)" by simp
    then show ?thesis by (simp add: bytes_read_def)
  next
    case 2
    with 1(2) i have f: "f K fd len (acc @ read_data r) w1 = Some y" by simp
    from 1(1) [OF f] calls_between_trans [OF only_calls_extends [OF o], of "snd y"] c1 2 show ?thesis
      using only_calls_trans [OF o] by (auto simp: bytes_read_def only_calls_def)
  next
    case 3
    with 1(2) i have f: "f K fd len acc w1 = Some y" by simp
    from 1(1) [OF f] calls_between_trans [OF only_calls_extends [OF o], of "snd y"] c1 3 show ?thesis
      using only_calls_trans [OF o] by (auto simp: bytes_read_def only_calls_def)
  next
    case 4
    with 1(2) i have "y = (acc, w1)" by auto
    with c1 o 4 show ?thesis by (simp add: bytes_read_def)
  qed
qed

text \<open>
  A record type and its representation. The reader decodes what was sent as soon as every
  byte was accepted.
\<close>

locale wire_record =
  fixes encode :: "'a \<Rightarrow> byte list" and decode :: "byte list \<Rightarrow> 'a" and len :: nat
  assumes decode_encode: "decode (encode x) = x"
    and length_encode: "length (encode x) = len"
begin

lemma sent_prefix:
  "write_record K fd (encode x) w = Some w' \<Longrightarrow> prefix (accepted (calls_between w w')) (encode x)"
  using write_record_post by blast

lemma sent_decodes:
  assumes "write_record K fd (encode x) w = Some w'" "all_accepted (calls_between w w')"
  shows "decode (accepted (calls_between w w')) = x" "length (accepted (calls_between w w')) = len"
  using write_record_post [OF assms(1)] assms(2) by (simp_all add: decode_encode length_encode)

lemma complete_decodes:
  assumes "write_record K fd (encode x) w = Some w'" "length (accepted (calls_between w w')) = len"
  shows "decode (accepted (calls_between w w')) = x"
proof -
  have "accepted (calls_between w w') = encode x"
    using sent_prefix [OF assms(1)] assms(2) length_encode
    by (metis append_eq_conv_conj prefix_def take_all_iff order_refl)
  then show ?thesis by (simp add: decode_encode)
qed

end

end
