(* ===== verification/Supervisor.thy ===== *)
theory Supervisor
  imports Wire
begin

text \<open>
  The supervising half of \<open>src/backend.cpp\<close>: the failure record a child sends over the
  control pipe, the helpers \<open>report_child_error\<close>, \<open>drain_fd\<close>, \<open>cleanup_group\<close>,
  \<open>observe_child_exit\<close>, \<open>write_start\<close>, and the loop of \<open>execute_backend\<close> that waits for
  the child, releases the start gate, delivers cancellation, cleans up the process group,
  reaps the leader and drains the pipes. The locals of that loop are the record
  \<open>supervision\<close>; each block of its body is one definition.
\<close>

section \<open>The failure record of the child\<close>

datatype child_stage =
    Process_group | Standard_streams | Mount_isolation | Network_isolation | Working_directory
  | Capability_drop | Containment | Resource_limits | Execute

text \<open>
  \<open>struct child_error\<close>. The stage is kept as the 32-bit word that travels through the pipe:
  the reader copies it from raw bytes.
\<close>

record child_error =
  failed_stage :: u32
  error_value :: u32
  error_detail :: u32

definition child_stage_code :: "child_stage \<Rightarrow> u32" where
  "child_stage_code stage =
     (case stage of
        Process_group \<Rightarrow> 0 | Standard_streams \<Rightarrow> 1 | Mount_isolation \<Rightarrow> 2 | Network_isolation \<Rightarrow> 3
      | Working_directory \<Rightarrow> 4 | Capability_drop \<Rightarrow> 5 | Containment \<Rightarrow> 6 | Resource_limits \<Rightarrow> 7
      | Execute \<Rightarrow> 8)"

definition child_stages :: "child_stage list" where
  "child_stages = [Process_group, Standard_streams, Mount_isolation, Network_isolation,
     Working_directory, Capability_drop, Containment, Resource_limits, Execute]"

definition child_stage_of :: "u32 \<Rightarrow> child_stage option" where
  "child_stage_of code = find (\<lambda>stage. child_stage_code stage = code) child_stages"

definition sizeof_child_error :: nat where "sizeof_child_error = 12"

definition child_error_bytes :: "child_error \<Rightarrow> byte list" where
  "child_error_bytes f =
     bytes_of_u32 (failed_stage f) @ bytes_of_u32 (error_value f) @ bytes_of_u32 (error_detail f)"

definition child_error_of_bytes :: "byte list \<Rightarrow> child_error" where
  "child_error_of_bytes bs =
     \<lparr>failed_stage = u32_of_bytes (take 4 bs), error_value = u32_of_bytes (take 4 (drop 4 bs)),
      error_detail = u32_of_bytes (take 4 (drop 8 bs))\<rparr>"

definition report_child_error ::
  "'k kernel \<Rightarrow> fd \<Rightarrow> child_stage \<Rightarrow> int \<Rightarrow> u32 \<Rightarrow> 'k world \<Rightarrow> 'k world option" where
  "report_child_error K fd stage v detail w =
     write_record K fd (child_error_bytes \<lparr>failed_stage = child_stage_code stage,
       error_value = word_of_int v, error_detail = detail\<rparr>) w"

section \<open>Draining a pipe\<close>

partial_function (option) drain_fd ::
  "'k kernel \<Rightarrow> fd \<Rightarrow> byte list \<Rightarrow> bool \<Rightarrow> 'k world \<Rightarrow> (fd \<times> byte list \<times> bool \<times> 'k world) option" where
  "drain_fd K fd output failed w =
     (if fd < 0 then Some (fd, output, failed, w)
      else let (r, w) = invoke K (Fd (Read fd 16384)) w in
        if ret r > 0 then drain_fd K fd (output @ read_data r) failed w
        else if ret r = 0 then Some (-1, output, failed, reset_fd K fd w)
        else if errno w = EINTR then drain_fd K fd output failed w
        else if errno w = EAGAIN then Some (fd, output, failed, w)
        else Some (-1, output, True, reset_fd K fd w))"

declare drain_fd.simps [code]

section \<open>Cleaning up a group by number\<close>

definition group_gone :: "'k kernel \<Rightarrow> pid \<Rightarrow> 'k world \<Rightarrow> bool \<times> 'k world" where
  "group_gone K grp w =
     (let (n, w) = syscall K (Proc (Kill (- grp) 0)) w in (n \<noteq> 0 \<and> errno w = ESRCH, w))"

text \<open>\<open>for (int i = 0; i < n; ++i)\<close>: probe the group, sleep ten milliseconds.\<close>

fun await_group_gone :: "'k kernel \<Rightarrow> pid \<Rightarrow> nat \<Rightarrow> 'k world \<Rightarrow> bool \<times> 'k world" where
  "await_group_gone K grp 0 w = (False, w)"
| "await_group_gone K grp (Suc n) w =
     (let (gone, w) = group_gone K grp w in
      if gone then (True, w)
      else let (_, w) = syscall K (Ctl (Sleep_ms 10)) w in await_group_gone K grp n w)"

definition cleanup_group :: "'k kernel \<Rightarrow> pid \<Rightarrow> 'k world \<Rightarrow> bool \<times> 'k world" where
  "cleanup_group K grp w =
     (let (gone, w) = group_gone K grp w in
      if gone then (True, w)
      else let (_, w) = syscall K (Proc (Kill (- grp) SIGTERM)) w;
               (gone, w) = await_group_gone K grp 20 w in
        if gone then (True, w)
        else let (_, w) = syscall K (Proc (Kill (- grp) SIGKILL)) w
             in await_group_gone K grp 100 w)"

section \<open>Observing the child and the start gate\<close>

definition observe_child_exit ::
  "'k kernel \<Rightarrow> pid \<Rightarrow> fd \<Rightarrow> 'k world \<Rightarrow> (bool \<times> siginfo \<times> 'k world) option" where
  "observe_child_exit K child pidfd w =
     do { (r, w) \<leftarrow> retry_eintr K
            (Proc (if pidfd \<ge> 0 then Waitid_pidfd pidfd [WEXITED, WNOHANG, WNOWAIT]
                   else Waitid_pid child [WEXITED, WNOHANG, WNOWAIT])) w;
          Some (if ret r = 0 then (si_pid (reply_siginfo r) \<noteq> 0, reply_siginfo r, w)
                else (False, zero_siginfo, w)) }"

definition write_start :: "'k kernel \<Rightarrow> fd \<Rightarrow> 'k world \<Rightarrow> (bool \<times> 'k world) option" where
  "write_start K fd w =
     do { (r, w) \<leftarrow> retry_eintr K (Fd (Write fd [1])) w;
          Some (ret r = 1, reset_fd K fd w) }"

section \<open>The state of the loop\<close>

text \<open>What the loop reads and never changes.\<close>

record supervision_context =
  child_pid :: pid
  pidfd :: fd
  cancellation :: bool
  grace_period_milliseconds :: u64

text \<open>
  The local variables, in the order of their declarations, after the read ends of the four
  pipes and the write end of the start pipe. \<open>control_bytes\<close> holds the first
  \<open>control_size\<close> bytes of the array. \<open>time_point::max()\<close> is the largest count.
\<close>

definition time_point_max :: int where "time_point_max = 9223372036854775807"

record supervision =
  output_fd :: fd
  error_fd :: fd
  control_fd :: fd
  ready_fd :: fd
  start_fd :: fd
  output_material :: "byte list"
  error_material :: "byte list"
  control_bytes :: "byte list"
  capture_failed :: bool
  ready_seen :: bool
  start_released :: bool
  exec_confirmed :: bool
  child_exited :: bool
  child_reaped :: bool
  child_information :: siginfo
  cancellation_observed :: bool
  cancellation_before_start :: bool
  cancellation_signal_attempted :: bool
  cancellation_signal_delivered :: bool
  forced_signal_sent :: bool
  cancellation_deadline :: int
  cleanup_started :: bool
  cleanup_complete :: bool
  cleanup_failed :: bool
  cleanup_deadline :: int

definition initial_supervision :: "fd \<Rightarrow> fd \<Rightarrow> fd \<Rightarrow> fd \<Rightarrow> fd \<Rightarrow> supervision" where
  "initial_supervision out_fd err_fd ctl_fd rdy_fd st_fd =
     \<lparr>output_fd = out_fd, error_fd = err_fd, control_fd = ctl_fd, ready_fd = rdy_fd, start_fd = st_fd,
      output_material = [], error_material = [], control_bytes = [], capture_failed = False,
      ready_seen = False, start_released = False, exec_confirmed = False, child_exited = False,
      child_reaped = False, child_information = zero_siginfo, cancellation_observed = False,
      cancellation_before_start = False, cancellation_signal_attempted = False,
      cancellation_signal_delivered = False, forced_signal_sent = False,
      cancellation_deadline = time_point_max, cleanup_started = False, cleanup_complete = False,
      cleanup_failed = False, cleanup_deadline = time_point_max\<rparr>"

text \<open>
  Adding \<open>std::chrono::milliseconds(n)\<close> of an unsigned \<open>n\<close> to a time point: the conversion to
  the signed count and the arithmetic on it are those of 64-bit words.
\<close>

definition add_milliseconds :: "int \<Rightarrow> u64 \<Rightarrow> int" where
  "add_milliseconds now n = sint (word_of_int now + n * 1000000 :: u64)"

section \<open>The blocks of the loop body\<close>

text \<open>Signal the members of the group; an incomplete delivery is remembered.\<close>

definition signal_group ::
  "'k kernel \<Rightarrow> supervision_context \<Rightarrow> int \<Rightarrow> supervision \<Rightarrow> 'k world \<Rightarrow>
   (process_group_signal_result \<times> supervision \<times> 'k world) option" where
  "signal_group K ctx signal s w =
     do { (result, w) \<leftarrow> signal_process_group_members K (child_pid ctx) (child_pid ctx) (pidfd ctx) signal w;
          Some (result, if complete result then s else s\<lparr>cleanup_failed := True\<rparr>, w) }"

definition observe_exit ::
  "'k kernel \<Rightarrow> supervision_context \<Rightarrow> supervision \<Rightarrow> 'k world \<Rightarrow> (supervision \<times> 'k world) option" where
  "observe_exit K ctx s w =
     (if child_exited s then Some (s, w)
      else do { (exited, information, w) \<leftarrow> observe_child_exit K (child_pid ctx) (pidfd ctx) w;
                Some (s\<lparr>child_exited := exited, child_information := information\<rparr>, w) })"

definition observe_cancellation ::
  "'k kernel \<Rightarrow> supervision_context \<Rightarrow> supervision \<Rightarrow> 'k world \<Rightarrow> supervision \<times> 'k world" where
  "observe_cancellation K ctx s w =
     (if \<not> cancellation ctx \<or> cancellation_observed s \<or> child_exited s then (s, w)
      else let (requested, w) = syscall K (Ctl Cancellation_requested) w in
        if requested = 0 then (s, w)
        else if start_released s
          then (s\<lparr>cancellation_observed := True, cancellation_before_start := False\<rparr>, w)
          else (s\<lparr>cancellation_observed := True, cancellation_before_start := True, start_fd := -1\<rparr>,
                reset_fd K (start_fd s) w))"

definition release_start ::
  "'k kernel \<Rightarrow> supervision_context \<Rightarrow> supervision \<Rightarrow> 'k world \<Rightarrow> (supervision \<times> 'k world) option" where
  "release_start K ctx s w =
     (if ready_seen s \<and> \<not> start_released s \<and> \<not> cancellation_observed s
      then let (s, w) = observe_cancellation K ctx s w in
        if cancellation_observed s then Some (s, w)
        else do { (written, w) \<leftarrow> write_start K (start_fd s) w;
                  Some (s\<lparr>start_fd := -1, start_released := written\<rparr>, w) }
      else Some (s, w))"

definition send_cancellation_signal ::
  "'k kernel \<Rightarrow> supervision_context \<Rightarrow> supervision \<Rightarrow> 'k world \<Rightarrow> (supervision \<times> 'k world) option" where
  "send_cancellation_signal K ctx s w =
     (if \<not> cancellation_observed s \<or> cancellation_signal_attempted s \<or>
         (start_released s \<and> \<not> exec_confirmed s) then Some (s, w)
      else do { (result, s, w) \<leftarrow> signal_group K ctx SIGTERM s w;
                let (now, w) = syscall K (Ctl Clock_now) w;
                Some (s\<lparr>cancellation_signal_attempted := True,
                        cancellation_signal_delivered := leader_signaled result,
                        cancellation_deadline := add_milliseconds now (grace_period_milliseconds ctx)\<rparr>, w) })"

definition force_cancellation ::
  "'k kernel \<Rightarrow> supervision_context \<Rightarrow> int \<Rightarrow> supervision \<Rightarrow> 'k world \<Rightarrow> (supervision \<times> 'k world) option" where
  "force_cancellation K ctx now s w =
     (if cancellation_signal_attempted s \<and> \<not> forced_signal_sent s \<and>
         now \<ge> cancellation_deadline s \<and> \<not> cleanup_complete s
      then do { (_, s, w) \<leftarrow> signal_group K ctx SIGKILL s w;
                Some (s\<lparr>forced_signal_sent := True, cleanup_deadline := now + milliseconds 1000\<rparr>, w) }
      else Some (s, w))"

definition start_cleanup ::
  "'k kernel \<Rightarrow> supervision_context \<Rightarrow> int \<Rightarrow> supervision \<Rightarrow> 'k world \<Rightarrow> (supervision \<times> 'k world) option" where
  "start_cleanup K ctx now s w =
     (if child_exited s \<and> cancellation ctx \<and> \<not> cleanup_started s
      then let s = s\<lparr>cleanup_started := True\<rparr> in
        if \<not> cancellation_signal_attempted s
        then do { (_, s, w) \<leftarrow> signal_group K ctx SIGTERM s w;
                  Some (s\<lparr>cleanup_deadline := now + milliseconds 200\<rparr>, w) }
        else if \<not> forced_signal_sent s
          then Some (s\<lparr>cleanup_deadline := cancellation_deadline s\<rparr>, w)
          else Some (s, w)
      else Some (s, w))"

text \<open>The deadline of the cleanup has passed and members remain.\<close>

definition cleanup_overdue ::
  "'k kernel \<Rightarrow> supervision_context \<Rightarrow> int \<Rightarrow> supervision \<Rightarrow> 'k world \<Rightarrow> (supervision \<times> 'k world) option" where
  "cleanup_overdue K ctx now s w =
     do { (_, s', w) \<leftarrow> signal_group K ctx SIGKILL s w;
          Some (if \<not> forced_signal_sent s
                then s'\<lparr>forced_signal_sent := True, cleanup_deadline := now + milliseconds 1000\<rparr>
                else s'\<lparr>cleanup_failed := True, cleanup_complete := True\<rparr>, w) }"

definition continue_cleanup ::
  "'k kernel \<Rightarrow> supervision_context \<Rightarrow> int \<Rightarrow> supervision \<Rightarrow> 'k world \<Rightarrow> (supervision \<times> 'k world) option" where
  "continue_cleanup K ctx now s w =
     (if child_exited s \<and> cancellation ctx \<and> cleanup_started s \<and> \<not> cleanup_complete s
      then do { (s, w) \<leftarrow>
                  (if forced_signal_sent s
                   then do { (_, s, w) \<leftarrow> signal_group K ctx SIGKILL s w; Some (s, w) }
                   else Some (s, w));
                (gone, w) \<leftarrow> wait_process_group_members_gone K (child_pid ctx) (child_pid ctx) 0 w;
                if gone then Some (s\<lparr>cleanup_complete := True\<rparr>, w)
                else if now \<ge> cleanup_deadline s then cleanup_overdue K ctx now s w
                else Some (s, w) }
      else Some (s, w))"

definition reap_child ::
  "'k kernel \<Rightarrow> supervision_context \<Rightarrow> supervision \<Rightarrow> 'k world \<Rightarrow> (supervision \<times> 'k world) option" where
  "reap_child K ctx s w =
     (if child_exited s \<and> cancellation ctx \<and> cleanup_complete s \<and> \<not> child_reaped s
      then do { (_, _, w) \<leftarrow> waitpid_retry K (child_pid ctx) w; Some (s\<lparr>child_reaped := True\<rparr>, w) }
      else if child_exited s \<and> \<not> cancellation ctx \<and> \<not> child_reaped s
        then do { (_, _, w) \<leftarrow> waitpid_retry K (child_pid ctx) w;
                  let (gone, w) = cleanup_group K (child_pid ctx) w;
                  Some (s\<lparr>child_reaped := True, cleanup_complete := gone, cleanup_failed := \<not> gone\<rparr>, w) }
        else Some (s, w))"

partial_function (option) read_control ::
  "'k kernel \<Rightarrow> supervision \<Rightarrow> 'k world \<Rightarrow> (supervision \<times> 'k world) option" where
  "read_control K s w =
     (if control_fd s < 0 then Some (s, w)
      else let (r, w) = invoke K
                 (Fd (Read (control_fd s) (sizeof_child_error - length (control_bytes s)))) w in
        if ret r > 0
        then let s' = s\<lparr>control_bytes := control_bytes s @ read_data r\<rparr> in
          if length (control_bytes s') = sizeof_child_error
          then Some (s'\<lparr>control_fd := -1\<rparr>, reset_fd K (control_fd s) w)
          else read_control K s' w
        else if ret r = 0
          then Some (s\<lparr>control_fd := -1,
                       exec_confirmed := exec_confirmed s \<or> (control_bytes s = [] \<and> start_released s)\<rparr>,
                     reset_fd K (control_fd s) w)
        else if errno w = EINTR then read_control K s w
        else if errno w \<noteq> EAGAIN then Some (s\<lparr>control_fd := -1\<rparr>, reset_fd K (control_fd s) w)
        else Some (s, w))"

declare read_control.simps [code]

partial_function (option) read_ready ::
  "'k kernel \<Rightarrow> supervision \<Rightarrow> 'k world \<Rightarrow> (supervision \<times> 'k world) option" where
  "read_ready K s w =
     (if ready_fd s < 0 then Some (s, w)
      else let (r, w) = invoke K (Fd (Read (ready_fd s) 1)) w in
        if ret r > 0
        then read_ready K (if read_data r = [1] then s\<lparr>ready_seen := True\<rparr> else s) w
        else if ret r = 0 then Some (s\<lparr>ready_fd := -1\<rparr>, reset_fd K (ready_fd s) w)
        else if errno w = EINTR then read_ready K s w
        else if errno w \<noteq> EAGAIN then Some (s\<lparr>ready_fd := -1\<rparr>, reset_fd K (ready_fd s) w)
        else Some (s, w))"

declare read_ready.simps [code]

definition drain_streams ::
  "'k kernel \<Rightarrow> supervision \<Rightarrow> 'k world \<Rightarrow> (supervision \<times> 'k world) option" where
  "drain_streams K s w =
     do { (fd, material, failed, w) \<leftarrow> drain_fd K (output_fd s) (output_material s) (capture_failed s) w;
          let s = s\<lparr>output_fd := fd, output_material := material, capture_failed := failed\<rparr>;
          (fd, material, failed, w) \<leftarrow> drain_fd K (error_fd s) (error_material s) (capture_failed s) w;
          Some (s\<lparr>error_fd := fd, error_material := material, capture_failed := failed\<rparr>, w) }"

section \<open>The loop\<close>

definition running :: "supervision \<Rightarrow> bool" where
  "running s \<longleftrightarrow> \<not> child_reaped s \<or> output_fd s \<ge> 0 \<or> error_fd s \<ge> 0 \<or> control_fd s \<ge> 0 \<or> ready_fd s \<ge> 0"

definition poll_pipes :: "'k kernel \<Rightarrow> supervision_context \<Rightarrow> supervision \<Rightarrow> 'k world \<Rightarrow> 'k world" where
  "poll_pipes K ctx s w =
     snd (syscall K (Fd (Poll [output_fd s, error_fd s, control_fd s, ready_fd s, pidfd ctx] 10)) w)"

definition supervise_step ::
  "'k kernel \<Rightarrow> supervision_context \<Rightarrow> supervision \<Rightarrow> 'k world \<Rightarrow> (supervision \<times> 'k world) option" where
  "supervise_step K ctx s w =
     do { (s, w) \<leftarrow> observe_exit K ctx s w;
          let (s, w) = observe_cancellation K ctx s w;
          (s, w) \<leftarrow> release_start K ctx s w;
          (s, w) \<leftarrow> send_cancellation_signal K ctx s w;
          let (now, w) = syscall K (Ctl Clock_now) w;
          (s, w) \<leftarrow> force_cancellation K ctx now s w;
          (s, w) \<leftarrow> start_cleanup K ctx now s w;
          (s, w) \<leftarrow> continue_cleanup K ctx now s w;
          (s, w) \<leftarrow> reap_child K ctx s w;
          (s, w) \<leftarrow> drain_streams K s (poll_pipes K ctx s w);
          (s, w) \<leftarrow> read_control K s w;
          read_ready K s w }"

partial_function (option) supervise ::
  "'k kernel \<Rightarrow> supervision_context \<Rightarrow> supervision \<Rightarrow> 'k world \<Rightarrow> (supervision \<times> 'k world) option" where
  "supervise K ctx s w =
     (if running s then do { (s, w) \<leftarrow> supervise_step K ctx s w; supervise K ctx s w }
      else Some (s, w))"

declare supervise.simps [code]

section \<open>The calls each block makes\<close>

lemma waitpid_retry_only:
  "waitpid_retry K child w = Some (n, st, w') \<Longrightarrow> P (Proc (Waitpid child)) \<Longrightarrow> only_calls P w w'"
  by (auto simp: waitpid_retry_def bind_eq_Some_conv intro: retry_eintr_only)

definition signal_call :: "int \<Rightarrow> syscall \<Rightarrow> bool" where
  "signal_call signal c = (case c of Dir d \<Rightarrow> True | Proc (Pidfd_open p) \<Rightarrow> True
     | Proc (Pidfd_send_signal fd s) \<Rightarrow> s = signal | Fd (Close fd) \<Rightarrow> True | _ \<Rightarrow> False)"

definition dir_or_clock :: "syscall \<Rightarrow> bool" where
  "dir_or_clock c = (case c of Dir d \<Rightarrow> True | Ctl Clock_now \<Rightarrow> True | Ctl (Sleep_ms n) \<Rightarrow> True | _ \<Rightarrow> False)"

lemma signal_call_simps [simp]:
  "signal_call s (Dir d)" "signal_call s (Proc (Pidfd_open p))" "signal_call s (Fd (Close fd))"
  "signal_call s (Proc (Pidfd_send_signal fd s')) \<longleftrightarrow> s' = s"
  "dir_or_clock (Dir d)" "dir_or_clock (Ctl Clock_now)" "dir_or_clock (Ctl (Sleep_ms n))"
  by (simp_all add: signal_call_def dir_or_clock_def)

lemma process_ids_only:
  assumes "process_ids K w = Some (res, w')" "\<And>d. P (Dir d)"
  shows "only_calls P w w'"
  using process_ids_post [OF assms(1)] assms(2)
  by (auto simp: only_calls_def only_dir_calls_def)

lemma process_group_of_only:
  assumes "process_group_of K p w = (res, w')" "\<And>d. P (Dir d)"
  shows "only_calls P w w'"
  using assms by (auto simp: process_group_of_def Let_def split: prod.splits intro: only_calls_invoke)

lemma signal_member_only:
  assumes "signal_member K grp leader signal p ok w = (ok', w')"
  shows "only_calls (signal_call signal) w w'"
proof -
  note step = only_calls_trans [where P = "signal_call signal"]
  obtain g1 w1 where g1: "process_group_of K p w = (g1, w1)" by fastforce
  obtain fd w2 where o2: "open_pidfd K p w1 = (fd, w2)" by fastforce
  obtain g3 w3 where g3: "process_group_of K p w2 = (g3, w3)" by fastforce
  obtain sent w4 where s4: "send_pidfd_signal K fd signal w3 = (sent, w4)" by fastforce
  obtain n5 w5 where c5: "syscall K (Fd (Close fd)) w4 = (n5, w5)" by fastforce
  obtain n6 w6 where c6: "syscall K (Fd (Close fd)) w3 = (n6, w6)" by fastforce
  have 1: "only_calls (signal_call signal) w w1" by (rule process_group_of_only [OF g1]) simp
  have 2: "only_calls (signal_call signal) w1 w2"
    using o2 by (auto simp: open_pidfd_def intro: only_calls_syscall)
  have 3: "only_calls (signal_call signal) w2 w3" by (rule process_group_of_only [OF g3]) simp
  have 4: "only_calls (signal_call signal) w3 w4"
    using s4 by (auto simp: send_pidfd_signal_def Let_def split: prod.splits intro: only_calls_syscall)
  have 5: "only_calls (signal_call signal) w4 w5" by (rule only_calls_syscall [OF c5]) simp
  have 6: "only_calls (signal_call signal) w3 w6" by (rule only_calls_syscall [OF c6]) simp
  have "w' = w \<or> w' = w1 \<or> w' = w2 \<or> w' = w5 \<or> w' = w6"
    using assms g1 o2 g3 s4 c5 c6 by (auto simp: signal_member_def Let_def split: if_splits)
  then show ?thesis
    using 1 step [OF 1 2] step [OF step [OF step [OF step [OF 1 2] 3] 4] 5] step [OF step [OF step [OF 1 2] 3] 6]
    by auto
qed

lemma signal_members_only:
  "signal_members K grp leader signal ps ok w = (ok', w') \<Longrightarrow> only_calls (signal_call signal) w w'"
proof (induction ps arbitrary: ok w)
  case (Cons p ps)
  obtain ok1 w1 where m: "signal_member K grp leader signal p ok w = (ok1, w1)" by fastforce
  with Cons.prems have "signal_members K grp leader signal ps ok1 w1 = (ok', w')" by simp
  from only_calls_trans [OF signal_member_only [OF m] Cons.IH [OF this]] show ?case .
qed simp

lemma signal_process_group_members_only:
  assumes "signal_process_group_members K grp leader fd signal w = Some (res, w')"
  shows "only_calls (signal_call signal) w w'"
proof -
  from assms obtain ps w1 where p: "process_ids K w = Some (ps, w1)"
    by (auto simp: signal_process_group_members_def bind_eq_Some_conv)
  obtain ok w2 where m: "(case ps of None \<Rightarrow> (False, w1)
      | Some ps \<Rightarrow> signal_members K grp leader signal ps True w1) = (ok, w2)" by fastforce
  obtain n w3 where s3: "syscall K (Proc (Pidfd_send_signal fd signal)) w2 = (n, w3)" by fastforce
  have 1: "only_calls (signal_call signal) w w1" by (rule process_ids_only [OF p]) simp
  have 2: "only_calls (signal_call signal) w1 w2" using m by (cases ps) (auto dest: signal_members_only)
  have 3: "only_calls (signal_call signal) w2 w3" by (rule only_calls_syscall [OF s3]) simp
  have "w' = w3" using assms p m s3
    by (auto simp: signal_process_group_members_def send_pidfd_signal_def Let_def)
  with only_calls_trans [OF only_calls_trans [OF 1 2] 3] show ?thesis by simp
qed

lemma find_member_only:
  "find_member K grp leader ps w = (found, w') \<Longrightarrow> only_calls dir_or_clock w w'"
proof (induction ps arbitrary: w)
  case (Cons p ps)
  show ?case
  proof (cases "p = leader")
    case True
    with Cons show ?thesis by simp
  next
    case False
    obtain g w1 where g: "process_group_of K p w = (g, w1)" by fastforce
    have 1: "only_calls dir_or_clock w w1" by (rule process_group_of_only [OF g]) simp
    from Cons.prems False g have "w' = w1 \<or> find_member K grp leader ps w1 = (found, w')"
      by (auto split: if_splits)
    with 1 Cons.IH only_calls_trans [OF 1] show ?thesis by blast
  qed
qed simp

lemma wait_members_loop_only:
  assumes "wait_members_loop K grp leader deadline w = Some y"
  shows "only_calls dir_or_clock w (snd y)"
proof (rule wait_members_loop.raw_induct [where P = "\<lambda>K grp leader deadline w y.
    only_calls dir_or_clock w (snd y)", OF _ assms], goal_cases)
  case (1 f K grp leader deadline w y)
  from 1(2) obtain ps w1 where p: "process_ids K w = Some (ps, w1)" by (auto simp: bind_eq_Some_conv)
  have a: "only_calls dir_or_clock w w1" by (rule process_ids_only [OF p]) simp
  show ?case
  proof (cases ps)
    case None
    with 1(2) p a show ?thesis by auto
  next
    case (Some l)
    obtain found w2 where f: "find_member K grp leader l w1 = (found, w2)" by fastforce
    obtain now w3 where c: "syscall K (Ctl Clock_now) w2 = (now, w3)" by fastforce
    obtain n w4 where sl: "syscall K (Ctl (Sleep_ms 10)) w3 = (n, w4)" by fastforce
    have b: "only_calls dir_or_clock w w2" using only_calls_trans [OF a find_member_only [OF f]] .
    have c': "only_calls dir_or_clock w w3" by (rule only_calls_trans [OF b only_calls_syscall [OF c]]) simp
    have d: "only_calls dir_or_clock w w4" by (rule only_calls_trans [OF c' only_calls_syscall [OF sl]]) simp
    from 1(2) p Some f c sl have "y = (True, w2) \<or> y = (False, w3) \<or> f K grp leader deadline w4 = Some y"
      by (auto simp: Let_def split: if_splits)
    then show ?thesis using b c' only_calls_trans [OF d 1(1)] by (elim disjE) (simp, simp, blast)
  qed
qed

lemma wait_gone_only:
  assumes "wait_process_group_members_gone K grp leader t w = Some (gone, w')"
  shows "only_calls dir_or_clock w w'"
proof -
  obtain now w1 where c: "syscall K (Ctl Clock_now) w = (now, w1)" by fastforce
  have "only_calls dir_or_clock w w1" by (rule only_calls_syscall [OF c]) simp
  with assms c show ?thesis
    by (auto simp: wait_process_group_members_gone_def dest!: wait_members_loop_only intro: only_calls_trans)
qed

lemma signal_groupD:
  assumes "signal_group K ctx signal s w = Some (res, s', w')"
  shows "signal_process_group_members K (child_pid ctx) (child_pid ctx) (pidfd ctx) signal w = Some (res, w')"
    and "s' = (if complete res then s else s\<lparr>cleanup_failed := True\<rparr>)"
  using assms by (auto simp: signal_group_def bind_eq_Some_conv)

lemma signal_group_only:
  assumes "signal_group K ctx signal s w = Some (res, s', w')"
  shows "only_calls (signal_call signal) w w'"
  by (rule signal_process_group_members_only [OF signal_groupD(1) [OF assms]])

text \<open>The call kinds of the blocks that neither signal nor wait.\<close>

definition wait_call :: "syscall \<Rightarrow> bool" where
  "wait_call c = (case c of Proc (Waitid_pid p fl) \<Rightarrow> True | Proc (Waitid_pidfd fd fl) \<Rightarrow> True | _ \<Rightarrow> False)"

definition token_call :: "syscall \<Rightarrow> bool" where
  "token_call c = (case c of Ctl Cancellation_requested \<Rightarrow> True | Fd (Close fd) \<Rightarrow> True | _ \<Rightarrow> False)"

definition gate_call :: "syscall \<Rightarrow> bool" where
  "gate_call c \<longleftrightarrow> token_call c \<or> (\<exists>fd. c = Fd (Write fd [1]))"

definition reap_call :: "syscall \<Rightarrow> bool" where
  "reap_call c = (case c of Proc (Waitpid p) \<Rightarrow> True | Proc (Kill p s) \<Rightarrow> True | Ctl (Sleep_ms n) \<Rightarrow> True | _ \<Rightarrow> False)"

definition pipe_call :: "syscall \<Rightarrow> bool" where
  "pipe_call c = (case c of Fd (Read fd n) \<Rightarrow> True | Fd (Close fd) \<Rightarrow> True | Fd (Poll fds t) \<Rightarrow> True | _ \<Rightarrow> False)"

definition record_call :: "syscall \<Rightarrow> bool" where
  "record_call c = (case c of Fd (Read fd n) \<Rightarrow> n \<le> sizeof_child_error | Fd (Close fd) \<Rightarrow> True | _ \<Rightarrow> False)"

lemma observe_child_exit_only:
  assumes "observe_child_exit K p fd w = Some (e, i, w')"
  shows "only_calls wait_call w w'"
proof -
  from assms obtain r where "retry_eintr K (Proc (if fd \<ge> 0 then Waitid_pidfd fd [WEXITED, WNOHANG, WNOWAIT]
      else Waitid_pid p [WEXITED, WNOHANG, WNOWAIT])) w = Some (r, w')"
    by (auto simp: observe_child_exit_def bind_eq_Some_conv simp del: split_paired_Ex split: if_splits)
  then show ?thesis by (rule retry_eintr_only) (simp add: wait_call_def)
qed

lemma observe_exit_only:
  assumes "observe_exit K ctx s w = Some (s', w')"
  shows "only_calls wait_call w w'"
proof (cases "child_exited s")
  case True
  with assms show ?thesis by (simp add: observe_exit_def)
next
  case False
  with assms obtain e i where "observe_child_exit K (child_pid ctx) (pidfd ctx) w = Some (e, i, w')"
    by (auto simp: observe_exit_def bind_eq_Some_conv)
  then show ?thesis by (rule observe_child_exit_only)
qed

lemma observe_cancellation_only:
  assumes "observe_cancellation K ctx s w = (s', w')"
  shows "only_calls token_call w w'"
proof -
  obtain n w1 where c: "syscall K (Ctl Cancellation_requested) w = (n, w1)" by fastforce
  have 1: "only_calls token_call w w1" by (rule only_calls_syscall [OF c]) (simp add: token_call_def)
  have 2: "only_calls token_call w1 (reset_fd K (start_fd s) w1)"
    by (rule reset_fd_only) (simp add: token_call_def)
  from assms c have "w' = w \<or> w' = w1 \<or> w' = reset_fd K (start_fd s) w1"
    by (auto simp: observe_cancellation_def split: if_splits)
  with 1 only_calls_trans [OF 1 2] show ?thesis by auto
qed

lemma write_start_only:
  assumes "write_start K fd w = Some (ok, w')"
  shows "only_calls gate_call w w'"
proof -
  from assms obtain r w1 where t: "retry_eintr K (Fd (Write fd [1])) w = Some (r, w1)"
    and w': "w' = reset_fd K fd w1" by (auto simp: write_start_def bind_eq_Some_conv)
  have "only_calls gate_call w w1" by (rule retry_eintr_only [OF t]) (simp add: gate_call_def)
  moreover have "only_calls gate_call w1 w'"
    unfolding w' by (rule reset_fd_only) (simp add: gate_call_def token_call_def)
  ultimately show ?thesis by (rule only_calls_trans)
qed

lemma release_start_only:
  assumes "release_start K ctx s w = Some (s', w')"
  shows "only_calls gate_call w w'"
proof -
  obtain s1 w1 where o: "observe_cancellation K ctx s w = (s1, w1)" by fastforce
  have 1: "only_calls gate_call w w1"
    by (rule only_calls_mono [OF observe_cancellation_only [OF o]]) (simp add: gate_call_def)
  from assms o have "w' = w \<or> w' = w1 \<or> (\<exists>ok. write_start K (start_fd s1) w1 = Some (ok, w'))"
    by (auto simp: release_start_def bind_eq_Some_conv split: if_splits)
  then show ?thesis using 1 only_calls_trans [OF 1 write_start_only] by auto
qed

lemma send_cancellation_signal_only:
  assumes "send_cancellation_signal K ctx s w = Some (s', w')"
  shows "only_calls (\<lambda>c. signal_call SIGTERM c \<or> c = Ctl Clock_now) w w'"
proof (cases "w' = w")
  case False
  with assms obtain res s1 w1 where g: "signal_group K ctx SIGTERM s w = Some (res, s1, w1)"
    and "w' = snd (syscall K (Ctl Clock_now) w1)"
    by (auto simp: send_cancellation_signal_def bind_eq_Some_conv case_prod_beta Let_def split: if_splits)
  then have c: "syscall K (Ctl Clock_now) w1 = (fst (syscall K (Ctl Clock_now) w1), w')" by simp
  show ?thesis
    by (rule only_calls_trans [OF only_calls_mono [OF signal_group_only [OF g]] only_calls_syscall [OF c]]) simp_all
qed simp

lemma force_cancellation_only:
  assumes "force_cancellation K ctx now s w = Some (s', w')"
  shows "only_calls (signal_call SIGKILL) w w'"
  using assms signal_group_only
  by (fastforce simp: force_cancellation_def bind_eq_Some_conv split: if_splits)

lemma start_cleanup_only:
  assumes "start_cleanup K ctx now s w = Some (s', w')"
  shows "only_calls (signal_call SIGTERM) w w'"
  using assms signal_group_only
  by (fastforce simp: start_cleanup_def bind_eq_Some_conv Let_def split: if_splits)

lemma continue_cleanup_only:
  assumes "continue_cleanup K ctx now s w = Some (s', w')"
  shows "only_calls (\<lambda>c. signal_call SIGKILL c \<or> dir_or_clock c) w w'"
proof (cases "child_exited s \<and> cancellation ctx \<and> cleanup_started s \<and> \<not> cleanup_complete s")
  case True
  let ?P = "\<lambda>c. signal_call SIGKILL c \<or> dir_or_clock c"
  have sig: "only_calls ?P v v'" if "signal_group K ctx SIGKILL t v = Some (res, t', v')" for t v res t' v'
    by (rule only_calls_mono [OF signal_group_only [OF that]]) simp
  from True assms obtain s1 w1 gone w2 where
    a: "(if forced_signal_sent s then do { (_, s, w) \<leftarrow> signal_group K ctx SIGKILL s w; Some (s, w) }
         else Some (s, w)) = Some (s1, w1)"
    and b: "wait_process_group_members_gone K (child_pid ctx) (child_pid ctx) 0 w1 = Some (gone, w2)"
    and c: "w' = w2 \<or> cleanup_overdue K ctx now s1 w2 = Some (s', w')"
    by (auto simp: continue_cleanup_def bind_eq_Some_conv split: if_splits)
  have 1: "only_calls ?P w w1" using a sig by (auto simp: bind_eq_Some_conv split: if_splits)
  have 2: "only_calls ?P w1 w2" by (rule only_calls_mono [OF wait_gone_only [OF b]]) simp
  have "only_calls ?P w2 w'"
    using c sig by (auto simp: cleanup_overdue_def bind_eq_Some_conv)
  from only_calls_trans [OF only_calls_trans [OF 1 2] this] show ?thesis .
next
  case False
  with assms have "w' = w" by (auto simp: continue_cleanup_def split: if_splits)
  then show ?thesis by simp
qed

lemma group_gone_only:
  "group_gone K grp w = (gone, w') \<Longrightarrow> only_calls reap_call w w'"
  by (auto simp: group_gone_def reap_call_def Let_def split: prod.splits intro!: only_calls_syscall)

lemma await_group_gone_only:
  "await_group_gone K grp n w = (gone, w') \<Longrightarrow> only_calls reap_call w w'"
proof (induction n arbitrary: w)
  case (Suc n)
  obtain g w1 where g: "group_gone K grp w = (g, w1)" by fastforce
  obtain m w2 where sl: "syscall K (Ctl (Sleep_ms 10)) w1 = (m, w2)" by fastforce
  note 1 = group_gone_only [OF g]
  have 2: "only_calls reap_call w w2"
    by (rule only_calls_trans [OF 1 only_calls_syscall [OF sl]]) (simp add: reap_call_def)
  from Suc.prems g sl have "w' = w1 \<or> await_group_gone K grp n w2 = (gone, w')"
    by (auto split: if_splits)
  with 1 Suc.IH only_calls_trans [OF 2] show ?case by blast
qed simp

lemma cleanup_group_only:
  assumes "cleanup_group K grp w = (gone, w')"
  shows "only_calls reap_call w w'"
proof -
  obtain g1 w1 where g1: "group_gone K grp w = (g1, w1)" by fastforce
  obtain n2 w2 where k2: "syscall K (Proc (Kill (- grp) SIGTERM)) w1 = (n2, w2)" by fastforce
  obtain g3 w3 where g3: "await_group_gone K grp 20 w2 = (g3, w3)" by fastforce
  obtain n4 w4 where k4: "syscall K (Proc (Kill (- grp) SIGKILL)) w3 = (n4, w4)" by fastforce
  obtain g5 w5 where g5: "await_group_gone K grp 100 w4 = (g5, w5)" by fastforce
  have r: "reap_call (Proc (Kill p s))" for p s by (simp add: reap_call_def)
  note kill = only_calls_syscall [where P = reap_call, OF _ r]
  note a = group_gone_only [OF g1]
    and b = only_calls_trans [OF kill [OF k2] await_group_gone_only [OF g3]]
    and c = only_calls_trans [OF kill [OF k4] await_group_gone_only [OF g5]]
  from assms g1 k2 g3 k4 g5 have "w' = w1 \<or> w' = w3 \<or> w' = w5"
    by (auto simp: cleanup_group_def split: if_splits)
  then show ?thesis
    using a only_calls_trans [OF a b] only_calls_trans [OF only_calls_trans [OF a b] c] by auto
qed

lemma reap_child_only:
  assumes "reap_child K ctx s w = Some (s', w')"
  shows "only_calls reap_call w w'"
proof -
  have wp: "only_calls reap_call v v'" if "waitpid_retry K p v = Some (n, st, v')" for p v n st v'
    by (rule waitpid_retry_only [OF that]) (simp add: reap_call_def)
  obtain n st w1 where t: "waitpid_retry K (child_pid ctx) w = Some (n, st, w1) \<or> w' = w"
    using assms by (auto simp: reap_child_def bind_eq_Some_conv split: if_splits)
  obtain gone w2 where g: "cleanup_group K (child_pid ctx) w1 = (gone, w2)" by fastforce
  from assms t g have "w' = w \<or> waitpid_retry K (child_pid ctx) w = Some (n, st, w1) \<and> (w' = w1 \<or> w' = w2)"
    by (auto simp: reap_child_def bind_eq_Some_conv split: if_splits)
  then show ?thesis using wp only_calls_trans [OF wp cleanup_group_only [OF g]] by auto
qed

section \<open>What reading the pipes changes\<close>

text \<open>The data the successful reads of one kind delivered, in order.\<close>

definition delivered :: "fd \<Rightarrow> nat \<Rightarrow> (syscall \<times> reply) list \<Rightarrow> byte list" where
  "delivered fd n cs = concat (map (\<lambda>(c, r). if c = Fd (Read fd n) \<and> ret r > 0 then read_data r else []) cs)"

definition end_of_file :: "fd \<Rightarrow> nat \<Rightarrow> (syscall \<times> reply) list \<Rightarrow> bool" where
  "end_of_file fd n cs \<longleftrightarrow> (\<exists>r. (Fd (Read fd n), r) \<in> set cs \<and> ret r = 0)"

lemma delivered_simps [simp]:
  "delivered fd n [] = []"
  "delivered fd n (cs @ ds) = delivered fd n cs @ delivered fd n ds"
  "end_of_file fd n (cs @ ds) \<longleftrightarrow> end_of_file fd n cs \<or> end_of_file fd n ds"
  "\<not> end_of_file fd n []"
  "delivered fd n ((c, r) # cs) = (if c = Fd (Read fd n) \<and> ret r > 0 then read_data r else []) @ delivered fd n cs"
  "end_of_file fd n ((c, r) # cs) \<longleftrightarrow> c = Fd (Read fd n) \<and> ret r = 0 \<or> end_of_file fd n cs"
  by (auto simp: delivered_def end_of_file_def)

lemma delivered_none:
  "(\<And>c r. (c, r) \<in> set cs \<Longrightarrow> c \<noteq> Fd (Read fd n)) \<Longrightarrow> delivered fd n cs = [] \<and> \<not> end_of_file fd n cs"
  by (force simp: delivered_def end_of_file_def)

lemma reset_fd_calls: "delivered f n (calls_between w (reset_fd K fd w)) = []"
  "\<not> end_of_file f n (calls_between w (reset_fd K fd w))"
proof -
  have "only_calls (\<lambda>c. \<exists>fd. c = Fd (Close fd)) w (reset_fd K fd w)" by (rule reset_fd_only) simp
  then have "\<And>c r. (c, r) \<in> set (calls_between w (reset_fd K fd w)) \<Longrightarrow> c \<noteq> Fd (Read f n)"
    by (auto dest: only_calls_member)
  from delivered_none [OF this] show "delivered f n (calls_between w (reset_fd K fd w)) = []"
    "\<not> end_of_file f n (calls_between w (reset_fd K fd w))" by auto
qed

lemma pipe_call_simps [simp]:
  "pipe_call (Fd (Read fd n))" "pipe_call (Fd (Close fd))" "pipe_call (Fd (Poll fds t))"
  "record_call (Fd (Read fd n)) \<longleftrightarrow> n \<le> sizeof_child_error" "record_call (Fd (Close fd))"
  by (simp_all add: pipe_call_def record_call_def)

text \<open>
  \<open>drain_fd\<close> appends exactly what the reads delivered; it ends with the descriptor open, or
  closed after the end of the file, or closed with the failure flag set.
\<close>

definition drained ::
  "fd \<Rightarrow> byte list \<Rightarrow> bool \<Rightarrow> 'k world \<Rightarrow> fd \<times> byte list \<times> bool \<times> 'k world \<Rightarrow> bool" where
  "drained fd output failed w y \<longleftrightarrow>
     (case y of (fd', output', failed', w') \<Rightarrow>
        only_calls (\<lambda>c. c = Fd (Read fd 16384) \<or> c = Fd (Close fd)) w w' \<and>
        output' = output @ delivered fd 16384 (calls_between w w') \<and>
        (failed \<longrightarrow> failed') \<and> (fd' = fd \<or> fd' = -1) \<and>
        (fd < 0 \<longrightarrow> y = (fd, output, failed, w)) \<and>
        (fd' = fd \<or> failed' \<or> end_of_file fd 16384 (calls_between w w')))"

lemma drained_step:
  assumes i: "invoke K (Fd (Read fd 16384)) w = (r, w1)" "fd \<ge> 0"
    and d: "drained fd (if ret r > 0 then output @ read_data r else output) failed w1 y"
  shows "drained fd output failed w y"
proof -
  obtain fd' out' failed' w' where y: "y = (fd', out', failed', w')" by (cases y)
  from d have o: "only_calls (\<lambda>c. c = Fd (Read fd 16384) \<or> c = Fd (Close fd)) w1 w'" by (simp add: drained_def y)
  note e = invoke_extends [OF i(1)] only_calls_extends [OF o]
  have "only_calls (\<lambda>c. c = Fd (Read fd 16384) \<or> c = Fd (Close fd)) w w'"
    by (rule only_calls_trans [OF only_calls_invoke [OF i(1)] o]) simp
  with d i(2) show ?thesis
    unfolding drained_def y prod.case calls_between_trans [OF e] calls_between_invoke [OF i(1)]
    by (auto split: if_splits)
qed

lemma drained_reset:
  assumes i: "invoke K (Fd (Read fd 16384)) w = (r, w1)" "fd \<ge> 0"
    and r: "ret r \<le> 0" "failed' \<or> ret r = 0" "failed \<longrightarrow> failed'"
  shows "drained fd output failed w (-1, output, failed', reset_fd K fd w1)"
proof -
  let ?w = "reset_fd K fd w1"
  have o: "only_calls (\<lambda>c. c = Fd (Read fd 16384) \<or> c = Fd (Close fd)) w1 ?w"
    unfolding reset_fd_def by (auto intro: only_calls_syscall [OF prod.collapse [symmetric]])
  have o': "only_calls (\<lambda>c. c = Fd (Read fd 16384) \<or> c = Fd (Close fd)) w ?w"
    by (rule only_calls_trans [OF only_calls_invoke [OF i(1)] o]) simp
  note e = invoke_extends [OF i(1)] only_calls_extends [OF o]
  show ?thesis
    unfolding drained_def prod.case calls_between_trans [OF e] calls_between_invoke [OF i(1)]
    using r i(2) o' by (auto simp: reset_fd_calls)
qed

lemma drain_fd_post:
  assumes "drain_fd K fd output failed w = Some y"
  shows "drained fd output failed w y"
proof (rule drain_fd.raw_induct [where P = "\<lambda>K. drained", OF _ assms], goal_cases)
  case (1 f K fd acc failed w y)
  obtain r w1 where i: "invoke K (Fd (Read fd 16384)) w = (r, w1)" by fastforce
  have stop: "drained fd acc failed w1 (fd, acc, failed, w1)" by (simp add: drained_def)
  consider "fd < 0" | "fd \<ge> 0" "ret r > 0" | "fd \<ge> 0" "ret r = 0" | "fd \<ge> 0" "ret r < 0" by linarith
  then show ?case
  proof cases
    case 1
    with \<open>_ = Some y\<close> show ?thesis by (auto simp: drained_def)
  next
    case 2
    with 1(2) i have "f K fd (acc @ read_data r) failed w1 = Some y" by simp
    from 1(1) [OF this] 2 show ?thesis by (intro drained_step [OF i]) simp_all
  next
    case 3
    with 1(2) i have "y = (-1, acc, failed, reset_fd K fd w1)" by auto
    with drained_reset [OF i 3(1), of failed failed] 3 show ?thesis by simp
  next
    case 4
    then have "f K fd acc failed w1 = Some y \<or> y = (fd, acc, failed, w1) \<or>
      y = (-1, acc, True, reset_fd K fd w1)"
      using 1(2) i by (cases "errno w1 = EINTR"; cases "errno w1 = EAGAIN") simp_all
    then consider "f K fd acc failed w1 = Some y" | "y = (fd, acc, failed, w1)"
      | "y = (-1, acc, True, reset_fd K fd w1)" by blast
    then show ?thesis
    proof cases
      case 1
      from \<open>\<And>K fd acc failed w y. f K fd acc failed w = Some y \<Longrightarrow> drained fd acc failed w y\<close> [OF this] 4
      show ?thesis by (intro drained_step [OF i]) simp_all
    next
      case 2
      with stop 4 show ?thesis by (intro drained_step [OF i]) simp_all
    next
      case 3
      with drained_reset [OF i 4(1), of True] 4 show ?thesis by simp
    qed
  qed
qed

text \<open>
  \<open>read_control\<close> changes three fields: it appends data, may close the pipe, and confirms the
  execution only at an end of file with nothing read and the gate released.
\<close>

definition control_read :: "supervision \<Rightarrow> 'k world \<Rightarrow> supervision \<times> 'k world \<Rightarrow> bool" where
  "control_read s w y \<longleftrightarrow>
     only_calls record_call w (snd y) \<and>
     (\<exists>c b e. fst y = s\<lparr>control_fd := c, control_bytes := control_bytes s @ b, exec_confirmed := e\<rparr> \<and>
        (c = control_fd s \<or> c = -1) \<and>
        (control_fd s < 0 \<longrightarrow> b = []) \<and>
        (e \<longleftrightarrow> exec_confirmed s \<or> (control_fd s \<ge> 0 \<and> c < 0 \<and> control_bytes s @ b = [] \<and> start_released s \<and> e)))"

lemma control_read_refl: "control_read s w (s, w)"
  unfolding control_read_def
  by (rule conjI, simp, rule exI [of _ "control_fd s"], rule exI [of _ "[]"], rule exI [of _ "exec_confirmed s"]) auto

lemma control_read_invoke:
  assumes "invoke K (Fd (Read fd n)) w = (r, w1)" "n \<le> sizeof_child_error" "control_read s w1 y"
  shows "control_read s w y"
  using assms(2,3) only_calls_trans [OF only_calls_invoke [OF assms(1), of record_call]]
  by (simp add: control_read_def)

lemma control_read_data:
  assumes "control_read (s\<lparr>control_bytes := control_bytes s @ d\<rparr>) w y" "control_fd s \<ge> 0"
  shows "control_read s w y"
proof -
  from assms(1) obtain c b e where *: "fst y = s\<lparr>control_fd := c, control_bytes := control_bytes s @ d @ b,
      exec_confirmed := e\<rparr>" "c = control_fd s \<or> c = -1"
    "e \<longleftrightarrow> exec_confirmed s \<or> (control_fd s \<ge> 0 \<and> c < 0 \<and> control_bytes s @ d @ b = [] \<and> start_released s \<and> e)"
    "only_calls record_call w (snd y)"
    by (auto simp: control_read_def)
  show ?thesis
    unfolding control_read_def
    by (rule conjI [OF *(4)], rule exI [of _ c], rule exI [of _ "d @ b"], rule exI [of _ e]) (use * assms in auto)
qed

lemma control_read_close:
  assumes "control_fd s \<ge> 0" "e \<longleftrightarrow> exec_confirmed s \<or> (control_bytes s = [] \<and> start_released s \<and> e)"
  shows "control_read s w (s\<lparr>control_fd := -1, exec_confirmed := e\<rparr>, reset_fd K (control_fd s) w)"
  unfolding control_read_def
  by (rule conjI, simp add: reset_fd_only, rule exI [of _ "-1"], rule exI [of _ "[]"], rule exI [of _ e])
    (use assms in auto)

lemma control_read_close_unconfirmed:
  assumes "control_fd s \<ge> 0"
  shows "control_read s w (s\<lparr>control_fd := -1\<rparr>, reset_fd K (control_fd s) w)"
proof -
  have "s\<lparr>control_fd := -1, exec_confirmed := exec_confirmed s\<rparr> = s\<lparr>control_fd := -1\<rparr>" by simp
  with control_read_close [OF assms, of "exec_confirmed s" w K] show ?thesis by (metis (full_types))
qed

lemma read_control_post:
  assumes run: "read_control K0 s0 w0 = Some y0"
  shows "control_read s0 w0 y0"
proof (rule read_control.raw_induct [where P = "\<lambda>K. control_read", OF _ run], goal_cases)
  case (1 f K s w y)
  let ?n = "sizeof_child_error - length (control_bytes s)"
  obtain r w1 where i: "invoke K (Fd (Read (control_fd s) ?n)) w = (r, w1)" by fastforce
  let ?s = "s\<lparr>control_bytes := control_bytes s @ read_data r\<rparr>"
  note inv = control_read_invoke [OF i diff_le_self] and IH = 1(1)
  consider "control_fd s < 0" | "control_fd s \<ge> 0" "ret r > 0" | "control_fd s \<ge> 0" "ret r = 0"
    | "control_fd s \<ge> 0" "ret r < 0" by linarith
  then show ?case
  proof cases
    case 1
    with \<open>_ = Some y\<close> show ?thesis by (auto simp: control_read_refl)
  next
    case 2
    with 1(2) i have "y = (?s\<lparr>control_fd := -1\<rparr>, reset_fd K (control_fd s) w1) \<or> f K ?s w1 = Some y"
      by (cases "length (control_bytes ?s) = sizeof_child_error") (simp_all add: Let_def)
    moreover have "control_read ?s w1 (?s\<lparr>control_fd := -1\<rparr>, reset_fd K (control_fd s) w1)"
      using control_read_close_unconfirmed [of ?s w1 K] 2 by simp
    ultimately have "control_read ?s w1 y" using IH [of K ?s w1 y] by auto
    from inv [OF control_read_data [OF this 2(1)]] show ?thesis .
  next
    case 3
    with 1(2) i have "y = (s\<lparr>control_fd := -1,
        exec_confirmed := exec_confirmed s \<or> (control_bytes s = [] \<and> start_released s)\<rparr>, reset_fd K (control_fd s) w1)"
      by auto
    moreover have "control_read s w1 (s\<lparr>control_fd := -1,
        exec_confirmed := exec_confirmed s \<or> (control_bytes s = [] \<and> start_released s)\<rparr>, reset_fd K (control_fd s) w1)"
      by (rule control_read_close [OF 3(1)]) auto
    ultimately show ?thesis using inv by simp
  next
    case 4
    with 1(2) i have "f K s w1 = Some y \<or> y = (s\<lparr>control_fd := -1\<rparr>, reset_fd K (control_fd s) w1) \<or> y = (s, w1)"
      by (cases "errno w1 = EINTR"; cases "errno w1 = EAGAIN") simp_all
    then have "control_read s w1 y"
      using IH [of K s w1 y] control_read_close_unconfirmed [OF 4(1)] control_read_refl by blast
    then show ?thesis by (rule inv)
  qed
qed

text \<open>A read that returns a positive count delivers data.\<close>

definition read_law :: "'k kernel \<Rightarrow> bool" where
  "read_law K \<longleftrightarrow> (\<forall>fd n k. ret (fst (K (Fd (Read fd n)) k)) \<le> int n \<and>
     int (length (reply_bytes (fst (K (Fd (Read fd n)) k)))) = max 0 (ret (fst (K (Fd (Read fd n)) k))))"

lemma read_law_data:
  assumes "read_law K" "invoke K (Fd (Read fd n)) w = (r, w1)" "ret r > 0"
  shows "length (read_data r) = nat (ret r)" "read_data r \<noteq> []" "nat (ret r) \<le> n"
proof -
  have "fst (K (Fd (Read fd n)) (kern w)) = r" using invokeD(1) [OF assms(2)] by simp
  then have "ret r \<le> int n" "int (length (reply_bytes r)) = max 0 (ret r)"
    using assms(1) unfolding read_law_def by metis+
  then show "length (read_data r) = nat (ret r)" "read_data r \<noteq> []" "nat (ret r) \<le> n"
    using assms(3) by (auto simp: read_data_def)
qed

definition ready_read :: "supervision \<Rightarrow> 'k world \<Rightarrow> supervision \<times> 'k world \<Rightarrow> bool" where
  "ready_read s w y \<longleftrightarrow> only_calls record_call w (snd y) \<and>
     (\<exists>c q. fst y = s\<lparr>ready_fd := c, ready_seen := q\<rparr> \<and> (c = ready_fd s \<or> c = -1) \<and> (ready_seen s \<longrightarrow> q))"

lemma ready_readI:
  "only_calls record_call w w' \<Longrightarrow> c = ready_fd s \<or> c = -1 \<Longrightarrow> ready_read s w (s\<lparr>ready_fd := c\<rparr>, w')"
  unfolding ready_read_def by (rule conjI, simp, rule exI [of _ c], rule exI [of _ "ready_seen s"]) simp

lemma read_ready_post:
  assumes "read_ready K s w = Some y"
  shows "ready_read s w y"
proof (rule read_ready.raw_induct [where P = "\<lambda>K. ready_read", OF _ assms], goal_cases)
  case (1 f K s w y)
  obtain r w1 where i: "invoke K (Fd (Read (ready_fd s) 1)) w = (r, w1)" by fastforce
  have o: "only_calls record_call w w1" by (rule only_calls_invoke [OF i]) (simp add: sizeof_child_error_def)
  define t where "t = (if ret r > 0 \<and> read_data r = [1] then s\<lparr>ready_seen := True\<rparr> else s)"
  have t: "t = s \<or> t = s\<lparr>ready_seen := True\<rparr>" by (simp add: t_def)
  have "y = (s, w) \<or> y = (s, w1) \<or> y = (s\<lparr>ready_fd := -1\<rparr>, reset_fd K (ready_fd s) w1) \<or> f K t w1 = Some y"
    using 1(2) i by (cases "ready_fd s < 0"; cases "ret r > 0"; cases "ret r = 0"; cases "errno w1 = EINTR";
        cases "errno w1 = EAGAIN") (simp_all add: t_def)
  moreover have "ready_read s w y" if "f K t w1 = Some y"
  proof -
    from 1(1) [OF that] obtain c q where *: "only_calls record_call w1 (snd y)"
      "fst y = t\<lparr>ready_fd := c, ready_seen := q\<rparr>" "c = ready_fd t \<or> c = -1" "ready_seen t \<longrightarrow> q"
      unfolding ready_read_def by blast
    have "fst y = s\<lparr>ready_fd := c, ready_seen := q\<rparr>" "c = ready_fd s \<or> c = -1" "ready_seen s \<longrightarrow> q"
      using *(2-4) t by auto
    with only_calls_trans [OF o *(1)] show ?thesis unfolding ready_read_def by blast
  qed
  moreover have "ready_read s w (s\<lparr>ready_fd := ready_fd s\<rparr>, v)" if "only_calls record_call w v" for v
    by (rule ready_readI [OF that]) simp
  moreover have "ready_read s w (s\<lparr>ready_fd := -1\<rparr>, reset_fd K (ready_fd s) w1)"
    by (rule ready_readI, rule only_calls_trans [OF o reset_fd_only]) simp_all
  ultimately show ?case using o by auto
qed

lemma drain_streamsE:
  assumes "drain_streams K s w = Some (s', w')"
  obtains a m f1 w1 b n f where
    "drained (output_fd s) (output_material s) (capture_failed s) w (a, m, f1, w1)"
    "drained (error_fd s) (error_material s) f1 w1 (b, n, f, w')"
    "s' = s\<lparr>output_fd := a, output_material := m, capture_failed := f, error_fd := b, error_material := n\<rparr>"
proof -
  from assms obtain a m f1 w1 b n f where
    d: "drain_fd K (output_fd s) (output_material s) (capture_failed s) w = Some (a, m, f1, w1)"
    "drain_fd K (error_fd s) (error_material s) f1 w1 = Some (b, n, f, w')"
    and s': "s' = s\<lparr>output_fd := a, output_material := m, capture_failed := f, error_fd := b, error_material := n\<rparr>"
    by (auto simp: drain_streams_def bind_eq_Some_conv Let_def)
  from that [OF drain_fd_post [OF d(1)] drain_fd_post [OF d(2)] s'] show ?thesis .
qed

lemma drained_only: "drained fd acc failed w (a, m, f, w') \<Longrightarrow> only_calls pipe_call w w'"
  by (auto simp: drained_def elim!: only_calls_mono)

lemma drain_streams_only:
  "drain_streams K s w = Some (s', w') \<Longrightarrow> only_calls pipe_call w w'"
  by (elim drain_streamsE) (blast dest: drained_only intro: only_calls_trans)

lemma poll_pipes_poll: "only_calls (\<lambda>c. \<exists>fds t. c = Fd (Poll fds t)) w (poll_pipes K ctx s w)"
  unfolding poll_pipes_def by (rule only_calls_syscall [OF prod.collapse [symmetric]]) simp

lemma poll_pipes_only: "only_calls pipe_call w (poll_pipes K ctx s w)"
  by (rule only_calls_mono [OF poll_pipes_poll]) auto

section \<open>One iteration, taken apart\<close>

definition clock_read :: "int \<Rightarrow> 'k world \<Rightarrow> bool" where
  "clock_read now w \<longleftrightarrow> (\<exists>r. (Ctl Clock_now, r) \<in> set (history w) \<and> ret r = now)"

lemma clock_read_extends: "clock_read now w \<Longrightarrow> extends w w' \<Longrightarrow> clock_read now w'"
  by (auto simp: clock_read_def extends_def prefix_def)

lemma clock_read_syscall: "syscall K (Ctl Clock_now) w = (now, w') \<Longrightarrow> clock_read now w'"
  by (auto simp: clock_read_def elim!: syscallD)

lemma supervise_stepE:
  assumes "supervise_step K ctx s w = Some (s', w')"
  obtains s1 w1 s2 w2 s3 w3 s4 w4 now w5 s6 w6 s7 w7 s8 w8 s9 w9 s10 w10 s11 w11 where
    "observe_exit K ctx s w = Some (s1, w1)"
    "observe_cancellation K ctx s1 w1 = (s2, w2)"
    "release_start K ctx s2 w2 = Some (s3, w3)"
    "send_cancellation_signal K ctx s3 w3 = Some (s4, w4)"
    "syscall K (Ctl Clock_now) w4 = (now, w5)"
    "force_cancellation K ctx now s4 w5 = Some (s6, w6)"
    "start_cleanup K ctx now s6 w6 = Some (s7, w7)"
    "continue_cleanup K ctx now s7 w7 = Some (s8, w8)"
    "reap_child K ctx s8 w8 = Some (s9, w9)"
    "drain_streams K s9 (poll_pipes K ctx s9 w9) = Some (s10, w10)"
    "read_control K s10 w10 = Some (s11, w11)"
    "read_ready K s11 w11 = Some (s', w')"
proof -
  note eval = supervise_step_def bind_eq_Some_conv Let_def
  from assms obtain s1 w1 where 1: "observe_exit K ctx s w = Some (s1, w1)" by (auto simp: eval)
  obtain s2 w2 where 2: "observe_cancellation K ctx s1 w1 = (s2, w2)" by fastforce
  from assms 1 2 obtain s3 w3 s4 w4 where 3: "release_start K ctx s2 w2 = Some (s3, w3)"
    "send_cancellation_signal K ctx s3 w3 = Some (s4, w4)" by (auto simp: eval)
  obtain now w5 where 4: "syscall K (Ctl Clock_now) w4 = (now, w5)" by fastforce
  from assms 1 2 3 4 that [OF 1 2 3 4] show ?thesis by (auto simp: eval)
qed

text \<open>
  The contract an invariant of the loop has with its blocks. It may speak of the whole
  history of calls. A deadline is compared with a time that has been read from the clock.
\<close>

locale supervision_invariant =
  fixes K :: "'k kernel" and ctx :: supervision_context and I :: "supervision \<Rightarrow> 'k world \<Rightarrow> bool"
  assumes exit: "I s w \<Longrightarrow> observe_exit K ctx s w = Some (s', w') \<Longrightarrow> I s' w'"
    and token: "I s w \<Longrightarrow> observe_cancellation K ctx s w = (s', w') \<Longrightarrow> I s' w'"
    and gate: "I s w \<Longrightarrow> release_start K ctx s w = Some (s', w') \<Longrightarrow> I s' w'"
    and send: "I s w \<Longrightarrow> send_cancellation_signal K ctx s w = Some (s', w') \<Longrightarrow> I s' w'"
    and clock: "I s w \<Longrightarrow> syscall K (Ctl Clock_now) w = (now, w') \<Longrightarrow> I s w'"
    and force: "I s w \<Longrightarrow> clock_read now w \<Longrightarrow> force_cancellation K ctx now s w = Some (s', w') \<Longrightarrow> I s' w'"
    and start: "I s w \<Longrightarrow> clock_read now w \<Longrightarrow> start_cleanup K ctx now s w = Some (s', w') \<Longrightarrow> I s' w'"
    and continue: "I s w \<Longrightarrow> clock_read now w \<Longrightarrow> continue_cleanup K ctx now s w = Some (s', w') \<Longrightarrow> I s' w'"
    and reap: "I s w \<Longrightarrow> reap_child K ctx s w = Some (s', w') \<Longrightarrow> I s' w'"
    and poll: "I s w \<Longrightarrow> I s (poll_pipes K ctx s w)"
    and drain: "I s w \<Longrightarrow> drain_streams K s w = Some (s', w') \<Longrightarrow> I s' w'"
    and control: "I s w \<Longrightarrow> read_control K s w = Some (s', w') \<Longrightarrow> I s' w'"
    and ready: "I s w \<Longrightarrow> read_ready K s w = Some (s', w') \<Longrightarrow> I s' w'"
begin

lemma step:
  assumes "I s w" "supervise_step K ctx s w = Some (s', w')"
  shows "I s' w'"
  using assms(2)
proof (cases rule: supervise_stepE)
  case (1 s1 w1 s2 w2 s3 w3 s4 w4 now w5 s6 w6 s7 w7 s8 w8 s9 w9 s10 w10 s11 w11)
  note c5 = clock_read_syscall [OF 1(5)]
  note c6 = clock_read_extends [OF c5 only_calls_extends [OF force_cancellation_only [OF 1(6)]]]
  note c7 = clock_read_extends [OF c6 only_calls_extends [OF start_cleanup_only [OF 1(7)]]]
  have "I s4 w4" by (rule send [OF gate [OF token [OF exit [OF assms(1) 1(1)] 1(2)] 1(3)] 1(4)])
  then have "I s9 w9"
    by (rule reap [OF continue [OF start [OF force [OF clock [OF _ 1(5)] c5 1(6)] c6 1(7)] c7 1(8)] 1(9)])
  then show ?thesis
    by (rule ready [OF control [OF drain [OF poll 1(10)] 1(11)] 1(12)])
qed

lemma final:
  assumes "I s w" "supervise K ctx s w = Some (s', w')"
  shows "I s' w' \<and> \<not> running s'"
proof -
  have "K = K \<and> ctx = ctx \<longrightarrow> I s w \<longrightarrow> I (fst (s', w')) (snd (s', w')) \<and> \<not> running (fst (s', w'))"
  proof (rule supervise.raw_induct [where P = "\<lambda>K' ctx' s w y. K' = K \<and> ctx' = ctx \<longrightarrow> I s w \<longrightarrow>
      I (fst y) (snd y) \<and> \<not> running (fst y)", OF _ assms(2)], goal_cases)
    case (1 f K' ctx' s w y)
    show ?case
    proof (intro impI)
      assume k: "K' = K \<and> ctx' = ctx" and i: "I s w"
      show "I (fst y) (snd y) \<and> \<not> running (fst y)"
      proof (cases "running s")
        case True
        with 1(2) k obtain s1 w1 where s: "supervise_step K ctx s w = Some (s1, w1)" and f: "f K ctx s1 w1 = Some y"
          by (auto simp: bind_eq_Some_conv)
        from 1(1) [OF f] step [OF i s] show ?thesis by simp
      next
        case False
        with 1(2) i show ?thesis by auto
      qed
    qed
  qed
  with assms(1) show ?thesis by simp
qed

end

section \<open>Invariants of the variables\<close>

definition gate_inv :: "supervision_context \<Rightarrow> supervision \<Rightarrow> bool" where
  "gate_inv ctx s \<longleftrightarrow>
     (start_released s \<longrightarrow> ready_seen s) \<and>
     (exec_confirmed s \<longrightarrow> start_released s \<and> control_bytes s = [] \<and> control_fd s < 0) \<and>
     (cancellation_observed s \<longrightarrow>
        cancellation ctx \<and> (cancellation_before_start s \<longleftrightarrow> \<not> start_released s)) \<and>
     (cancellation_before_start s \<longrightarrow> cancellation_observed s) \<and>
     (cancellation_signal_attempted s \<longrightarrow>
        cancellation_observed s \<and> (start_released s \<longrightarrow> exec_confirmed s)) \<and>
     (cancellation_signal_delivered s \<longrightarrow> cancellation_signal_attempted s) \<and>
     (child_exited s \<longleftrightarrow> si_pid (child_information s) \<noteq> 0)"

definition cleanup_inv :: "supervision_context \<Rightarrow> supervision \<Rightarrow> bool" where
  "cleanup_inv ctx s \<longleftrightarrow>
     (child_reaped s \<longrightarrow> child_exited s \<and> (cancellation ctx \<longrightarrow> cleanup_complete s)) \<and>
     (cleanup_complete s \<and> cancellation ctx \<longrightarrow> cleanup_started s) \<and>
     (cleanup_complete s \<and> \<not> cancellation ctx \<longrightarrow> child_reaped s) \<and>
     (cleanup_started s \<longrightarrow> child_exited s \<and> cancellation ctx) \<and>
     (forced_signal_sent s \<longrightarrow> cancellation_signal_attempted s \<or> cleanup_started s) \<and>
     (cancellation_signal_attempted s \<longrightarrow> cancellation_observed s) \<and>
     (cancellation_observed s \<longrightarrow> cancellation ctx) \<and>
     (\<not> cancellation ctx \<longrightarrow> cleanup_failed s \<longrightarrow> child_reaped s \<and> \<not> cleanup_complete s)"

lemma observe_child_exit_info:
  assumes "observe_child_exit K p fd w = Some (e, i, w')"
  shows "e \<longleftrightarrow> si_pid i \<noteq> 0"
proof -
  let ?c = "Proc (if fd \<ge> 0 then Waitid_pidfd fd [WEXITED, WNOHANG, WNOWAIT]
    else Waitid_pid p [WEXITED, WNOHANG, WNOWAIT])"
  obtain r v where t: "retry_eintr K ?c w = Some (r, v)"
    using assms unfolding observe_child_exit_def by (cases "retry_eintr K ?c w") auto
  from assms show ?thesis
    unfolding observe_child_exit_def t by (cases "ret r = 0") (auto simp: zero_siginfo_def)
qed

lemma observe_exit_state:
  assumes "observe_exit K ctx s w = Some (s', w')"
  shows "s' = s \<and> child_exited s \<or>
    (\<exists>i. s' = s\<lparr>child_exited := si_pid i \<noteq> 0, child_information := i\<rparr> \<and> \<not> child_exited s)"
proof (cases "child_exited s")
  case False
  with assms obtain e i where "observe_child_exit K (child_pid ctx) (pidfd ctx) w = Some (e, i, w')"
    and s': "s' = s\<lparr>child_exited := e, child_information := i\<rparr>"
    by (auto simp: observe_exit_def bind_eq_Some_conv)
  from observe_child_exit_info [OF this(1)] s' False show ?thesis by blast
qed (use assms in \<open>simp add: observe_exit_def\<close>)

lemma observe_cancellation_state:
  assumes "observe_cancellation K ctx s w = (s', w')"
  shows "s' = s \<or> cancellation ctx \<and> \<not> cancellation_observed s \<and> \<not> child_exited s \<and>
    (\<exists>fd. s' = s\<lparr>cancellation_observed := True, cancellation_before_start := \<not> start_released s, start_fd := fd\<rparr>)"
proof -
  from assms have "s' = s \<or> cancellation ctx \<and> \<not> cancellation_observed s \<and> \<not> child_exited s \<and>
      s' = s\<lparr>cancellation_observed := True, cancellation_before_start := \<not> start_released s,
              start_fd := (if start_released s then start_fd s else -1)\<rparr>"
    by (auto simp: observe_cancellation_def Let_def case_prod_beta split: if_splits)
  then show ?thesis by blast
qed

lemma signal_group_state:
  assumes "signal_group K ctx signal s w = Some (res, s', w')"
  shows "\<exists>b. s' = s\<lparr>cleanup_failed := b\<rparr> \<and> (cleanup_failed s \<longrightarrow> b) \<and> (\<not> complete res \<longrightarrow> b)"
proof (cases "complete res")
  case True
  with signal_groupD(2) [OF assms] have "s' = s\<lparr>cleanup_failed := cleanup_failed s\<rparr>" by simp
  with True show ?thesis by blast
next
  case False
  with signal_groupD(2) [OF assms] show ?thesis by auto
qed

text \<open>The states the blocks can end in.\<close>

lemma release_start_state:
  assumes "release_start K ctx s w = Some (s', w')"
  shows "s' = s \<or> ready_seen s \<and> \<not> start_released s \<and> \<not> cancellation_observed s \<and>
    (\<not> child_exited s \<and> cancellation ctx \<and>
       (\<exists>fd. s' = s\<lparr>cancellation_observed := True, cancellation_before_start := True, start_fd := fd\<rparr>) \<or>
     (\<exists>b. s' = s\<lparr>start_fd := -1, start_released := b\<rparr>))"
proof (cases "ready_seen s \<and> \<not> start_released s \<and> \<not> cancellation_observed s")
  case True
  obtain s1 w1 where o: "observe_cancellation K ctx s w = (s1, w1)" by fastforce
  from True assms o consider "cancellation_observed s1" "s' = s1"
    | b where "\<not> cancellation_observed s1" "s' = s1\<lparr>start_fd := -1, start_released := b\<rparr>"
    by (auto simp: release_start_def bind_eq_Some_conv split: if_splits)
  then show ?thesis using observe_cancellation_state [OF o] True by cases auto
qed (use assms in \<open>auto simp: release_start_def\<close>)

lemma send_cancellation_signal_state:
  assumes "send_cancellation_signal K ctx s w = Some (s', w')"
  shows "s' = s \<or> cancellation_observed s \<and> \<not> cancellation_signal_attempted s \<and>
    (start_released s \<longrightarrow> exec_confirmed s) \<and>
    (\<exists>b d t. s' = s\<lparr>cleanup_failed := b, cancellation_signal_attempted := True,
       cancellation_signal_delivered := d, cancellation_deadline := t\<rparr> \<and> (cleanup_failed s \<longrightarrow> b))"
proof (cases "\<not> cancellation_observed s \<or> cancellation_signal_attempted s \<or> (start_released s \<and> \<not> exec_confirmed s)")
  case True
  with assms show ?thesis by (simp add: send_cancellation_signal_def)
next
  case False
  with assms obtain res s1 w1 d t where g: "signal_group K ctx SIGTERM s w = Some (res, s1, w1)"
    and s': "s' = s1\<lparr>cancellation_signal_attempted := True, cancellation_signal_delivered := d,
      cancellation_deadline := t\<rparr>"
    by (auto simp: send_cancellation_signal_def bind_eq_Some_conv case_prod_beta Let_def)
  from signal_group_state [OF g] s' False show ?thesis by blast
qed

lemma force_cancellation_state:
  assumes "force_cancellation K ctx now s w = Some (s', w')"
  shows "s' = s \<or> cancellation_signal_attempted s \<and>
    (\<exists>b t. s' = s\<lparr>cleanup_failed := b, forced_signal_sent := True, cleanup_deadline := t\<rparr> \<and> (cleanup_failed s \<longrightarrow> b))"
proof (cases "cancellation_signal_attempted s \<and> \<not> forced_signal_sent s \<and> now \<ge> cancellation_deadline s \<and> \<not> cleanup_complete s")
  case True
  with assms obtain res s1 where g: "signal_group K ctx SIGKILL s w = Some (res, s1, w')"
    and s': "s' = s1\<lparr>forced_signal_sent := True, cleanup_deadline := now + milliseconds 1000\<rparr>"
    by (auto simp: force_cancellation_def bind_eq_Some_conv)
  from signal_group_state [OF g] s' True show ?thesis by blast
qed (use assms in \<open>auto simp: force_cancellation_def\<close>)

lemma start_cleanup_state:
  assumes "start_cleanup K ctx now s w = Some (s', w')"
  shows "s' = s \<or> child_exited s \<and> cancellation ctx \<and>
    (\<exists>b t. s' = s\<lparr>cleanup_started := True, cleanup_failed := b, cleanup_deadline := t\<rparr> \<and> (cleanup_failed s \<longrightarrow> b))"
proof (cases "child_exited s \<and> cancellation ctx \<and> \<not> cleanup_started s")
  case True
  let ?s = "s\<lparr>cleanup_started := True\<rparr>"
  show ?thesis
  proof (cases "cancellation_signal_attempted s")
    case False
    with True assms obtain res s1 where g: "signal_group K ctx SIGTERM ?s w = Some (res, s1, w')"
      and s': "s' = s1\<lparr>cleanup_deadline := now + milliseconds 200\<rparr>"
      by (auto simp: start_cleanup_def bind_eq_Some_conv)
    from signal_group_state [OF g] s' True show ?thesis by auto
  next
    case attempted: True
    with True assms have "s' = ?s\<lparr>cleanup_failed := cleanup_failed s,
        cleanup_deadline := (if forced_signal_sent s then cleanup_deadline s else cancellation_deadline s)\<rparr>"
      by (auto simp: start_cleanup_def split: if_splits)
    with True show ?thesis by blast
  qed
qed (use assms in \<open>auto simp: start_cleanup_def\<close>)

lemma cleanup_overdue_state:
  assumes "cleanup_overdue K ctx now s w = Some (s', w')"
  shows "\<exists>b. (cleanup_failed s \<longrightarrow> b) \<and> (if forced_signal_sent s then s' = s\<lparr>cleanup_failed := True, cleanup_complete := True\<rparr>
    else s' = s\<lparr>cleanup_failed := b, forced_signal_sent := True, cleanup_deadline := now + milliseconds 1000\<rparr>)"
proof -
  from assms obtain res s1 where g: "signal_group K ctx SIGKILL s w = Some (res, s1, w')"
    and s': "s' = (if \<not> forced_signal_sent s
      then s1\<lparr>forced_signal_sent := True, cleanup_deadline := now + milliseconds 1000\<rparr>
      else s1\<lparr>cleanup_failed := True, cleanup_complete := True\<rparr>)"
    by (auto simp: cleanup_overdue_def bind_eq_Some_conv)
  from signal_group_state [OF g] obtain b where b: "s1 = s\<lparr>cleanup_failed := b\<rparr>" "cleanup_failed s \<longrightarrow> b" by blast
  show ?thesis using s' b by (cases "forced_signal_sent s"; intro exI [of _ b]) simp_all
qed

lemma continue_cleanup_state:
  assumes "continue_cleanup K ctx now s w = Some (s', w')"
  shows "s' = s \<or> child_exited s \<and> cancellation ctx \<and> cleanup_started s \<and> \<not> cleanup_complete s \<and>
    (\<exists>b c f t. s' = s\<lparr>cleanup_failed := b, cleanup_complete := c, forced_signal_sent := f, cleanup_deadline := t\<rparr> \<and>
       (forced_signal_sent s \<longrightarrow> f) \<and> (cleanup_failed s \<longrightarrow> b))"
proof (cases "child_exited s \<and> cancellation ctx \<and> cleanup_started s \<and> \<not> cleanup_complete s")
  case True
  with assms obtain s1 w1 gone w2 where
    a: "(if forced_signal_sent s then do { (_, s, w) \<leftarrow> signal_group K ctx SIGKILL s w; Some (s, w) }
         else Some (s, w)) = Some (s1, w1)"
    and c: "s' = s1\<lparr>cleanup_complete := True\<rparr> \<or> cleanup_overdue K ctx now s1 w2 = Some (s', w') \<or> s' = s1"
    by (auto simp: continue_cleanup_def bind_eq_Some_conv split: if_splits)
  have s1: "\<exists>b. s1 = s\<lparr>cleanup_failed := b\<rparr> \<and> (cleanup_failed s \<longrightarrow> b)"
  proof (cases "forced_signal_sent s")
    case True
    with a obtain res where g: "signal_group K ctx SIGKILL s w = Some (res, s1, w1)"
      by (auto simp: bind_eq_Some_conv)
    from signal_group_state [OF g] show ?thesis by blast
  next
    case False
    with a have "s1 = s\<lparr>cleanup_failed := cleanup_failed s\<rparr>" by simp
    then show ?thesis by blast
  qed
  then obtain b where b: "s1 = s\<lparr>cleanup_failed := b\<rparr>" "cleanup_failed s \<longrightarrow> b" by blast
  let ?upd = "\<lambda>b c f t. s\<lparr>cleanup_failed := b, cleanup_complete := c, forced_signal_sent := f, cleanup_deadline := t\<rparr>"
  from c consider "s' = s1\<lparr>cleanup_complete := True\<rparr>" | "cleanup_overdue K ctx now s1 w2 = Some (s', w')" | "s' = s1"
    by blast
  then have "\<exists>b c f t. s' = ?upd b c f t \<and> (forced_signal_sent s \<longrightarrow> f) \<and> (cleanup_failed s \<longrightarrow> b)"
  proof cases
    case 1
    with b(1) have "s' = ?upd b True (forced_signal_sent s) (cleanup_deadline s)" by simp
    then show ?thesis using b(2) by blast
  next
    case 2
    show ?thesis
    proof (cases "forced_signal_sent s")
      case True
      with cleanup_overdue_state [OF 2] b have "s' = ?upd True True (forced_signal_sent s) (cleanup_deadline s)" by simp
      then show ?thesis by blast
    next
      case False
      with cleanup_overdue_state [OF 2] b obtain b' where
        "s' = ?upd b' (cleanup_complete s) True (now + milliseconds 1000)" "cleanup_failed s \<longrightarrow> b'" by auto
      then show ?thesis by blast
    qed
  next
    case 3
    with b(1) have "s' = ?upd b (cleanup_complete s) (forced_signal_sent s) (cleanup_deadline s)" by simp
    then show ?thesis using b(2) by blast
  qed
  with True show ?thesis by blast
qed (use assms in \<open>auto simp: continue_cleanup_def\<close>)

lemma reap_child_state:
  assumes "reap_child K ctx s w = Some (s', w')"
  shows "s' = s \<or> child_exited s \<and> cancellation ctx \<and> cleanup_complete s \<and> s' = s\<lparr>child_reaped := True\<rparr> \<or>
    child_exited s \<and> \<not> cancellation ctx \<and>
      (\<exists>g. s' = s\<lparr>child_reaped := True, cleanup_complete := g, cleanup_failed := \<not> g\<rparr>)"
  using assms by (auto simp: reap_child_def bind_eq_Some_conv case_prod_beta Let_def split: if_splits)

lemma read_control_state:
  assumes "read_control K s w = Some (s', w')"
  shows "\<exists>c b e. s' = s\<lparr>control_fd := c, control_bytes := control_bytes s @ b, exec_confirmed := e\<rparr> \<and>
    (c = control_fd s \<or> c = -1) \<and> (control_fd s < 0 \<longrightarrow> b = []) \<and> (exec_confirmed s \<longrightarrow> e) \<and>
    (e \<longrightarrow> exec_confirmed s \<or> (c < 0 \<and> control_bytes s @ b = [] \<and> start_released s))"
proof -
  from read_control_post [OF assms] obtain c b e where
    "s' = s\<lparr>control_fd := c, control_bytes := control_bytes s @ b, exec_confirmed := e\<rparr>"
    "c = control_fd s \<or> c = -1" "control_fd s < 0 \<longrightarrow> b = []"
    "e \<longleftrightarrow> exec_confirmed s \<or> (control_fd s \<ge> 0 \<and> c < 0 \<and> control_bytes s @ b = [] \<and> start_released s \<and> e)"
    unfolding control_read_def by auto
  then show ?thesis by blast
qed

text \<open>
  The loop as a transition system on its variables: what an iteration may do to them,
  whatever the kernel replies.
\<close>

inductive transition :: "supervision_context \<Rightarrow> supervision \<Rightarrow> supervision \<Rightarrow> bool" for ctx where
  idle: "transition ctx s s"
| exit_observed: "\<not> child_exited s \<Longrightarrow>
    transition ctx s (s\<lparr>child_exited := si_pid i \<noteq> 0, child_information := i\<rparr>)"
| cancellation_seen: "cancellation ctx \<Longrightarrow> \<not> cancellation_observed s \<Longrightarrow> \<not> child_exited s \<Longrightarrow>
    transition ctx s (s\<lparr>cancellation_observed := True, cancellation_before_start := \<not> start_released s,
      start_fd := fd\<rparr>)"
| gate_written: "ready_seen s \<Longrightarrow> \<not> start_released s \<Longrightarrow> \<not> cancellation_observed s \<Longrightarrow>
    transition ctx s (s\<lparr>start_fd := -1, start_released := b\<rparr>)"
| cancellation_signalled: "cancellation_observed s \<Longrightarrow> \<not> cancellation_signal_attempted s \<Longrightarrow>
    (start_released s \<longrightarrow> exec_confirmed s) \<Longrightarrow>
    transition ctx s (s\<lparr>cleanup_failed := b, cancellation_signal_attempted := True,
      cancellation_signal_delivered := d, cancellation_deadline := t\<rparr>)"
| cancellation_forced: "cancellation_signal_attempted s \<Longrightarrow>
    transition ctx s (s\<lparr>cleanup_failed := b, forced_signal_sent := True, cleanup_deadline := t\<rparr>)"
| cleanup_begun: "child_exited s \<Longrightarrow> cancellation ctx \<Longrightarrow>
    transition ctx s (s\<lparr>cleanup_started := True, cleanup_failed := b, cleanup_deadline := t\<rparr>)"
| cleanup_continued: "child_exited s \<Longrightarrow> cancellation ctx \<Longrightarrow> cleanup_started s \<Longrightarrow> \<not> cleanup_complete s \<Longrightarrow>
    (forced_signal_sent s \<longrightarrow> f) \<Longrightarrow>
    transition ctx s (s\<lparr>cleanup_failed := b, cleanup_complete := c, forced_signal_sent := f, cleanup_deadline := t\<rparr>)"
| reaped_controlled: "child_exited s \<Longrightarrow> cancellation ctx \<Longrightarrow> cleanup_complete s \<Longrightarrow>
    transition ctx s (s\<lparr>child_reaped := True\<rparr>)"
| reaped_ordinary: "child_exited s \<Longrightarrow> \<not> cancellation ctx \<Longrightarrow>
    transition ctx s (s\<lparr>child_reaped := True, cleanup_complete := g, cleanup_failed := \<not> g\<rparr>)"
| streams_drained: "transition ctx s (s\<lparr>output_fd := a, output_material := m, capture_failed := f,
      error_fd := b, error_material := n\<rparr>)"
| control_drained: "(c = control_fd s \<or> c = -1) \<Longrightarrow> (control_fd s < 0 \<longrightarrow> b = []) \<Longrightarrow> (exec_confirmed s \<longrightarrow> e) \<Longrightarrow>
    (e \<longrightarrow> exec_confirmed s \<or> (c < 0 \<and> control_bytes s @ b = [] \<and> start_released s)) \<Longrightarrow>
    transition ctx s (s\<lparr>control_fd := c, control_bytes := control_bytes s @ b, exec_confirmed := e\<rparr>)"
| ready_drained: "(ready_seen s \<longrightarrow> q) \<Longrightarrow> transition ctx s (s\<lparr>ready_fd := c, ready_seen := q\<rparr>)"

text \<open>Every block is a transition.\<close>

lemma observe_exit_transition:
  "observe_exit K ctx s w = Some (s', w') \<Longrightarrow> transition ctx s s'"
  using observe_exit_state by (metis idle exit_observed)

lemma observe_cancellation_transition:
  "observe_cancellation K ctx s w = (s', w') \<Longrightarrow> transition ctx s s'"
  using observe_cancellation_state by (metis idle cancellation_seen)

lemma release_start_transition:
  assumes "release_start K ctx s w = Some (s', w')"
  shows "transition ctx s s'"
proof -
  have "transition ctx s (s\<lparr>cancellation_observed := True, cancellation_before_start := True, start_fd := fd\<rparr>)"
    if "\<not> start_released s" "\<not> cancellation_observed s" "\<not> child_exited s" "cancellation ctx" for fd
    using cancellation_seen [of ctx s fd] that by simp
  then show ?thesis using release_start_state [OF assms] idle gate_written by metis
qed

lemma send_cancellation_signal_transition:
  "send_cancellation_signal K ctx s w = Some (s', w') \<Longrightarrow> transition ctx s s'"
  using send_cancellation_signal_state by (metis idle cancellation_signalled)

lemma force_cancellation_transition:
  "force_cancellation K ctx now s w = Some (s', w') \<Longrightarrow> transition ctx s s'"
  using force_cancellation_state by (metis idle cancellation_forced)

lemma start_cleanup_transition:
  "start_cleanup K ctx now s w = Some (s', w') \<Longrightarrow> transition ctx s s'"
  using start_cleanup_state by (metis idle cleanup_begun)

lemma continue_cleanup_transition:
  "continue_cleanup K ctx now s w = Some (s', w') \<Longrightarrow> transition ctx s s'"
  using continue_cleanup_state by (metis idle cleanup_continued)

lemma reap_child_transition:
  "reap_child K ctx s w = Some (s', w') \<Longrightarrow> transition ctx s s'"
  using reap_child_state by (metis idle reaped_controlled reaped_ordinary)

lemma drain_streams_transition:
  "drain_streams K s w = Some (s', w') \<Longrightarrow> transition ctx s s'"
  by (elim drain_streamsE) (simp add: streams_drained)

lemma read_control_transition:
  "read_control K s w = Some (s', w') \<Longrightarrow> transition ctx s s'"
  using read_control_state by (metis control_drained)

lemma read_ready_transition:
  assumes "read_ready K s w = Some (s', w')"
  shows "transition ctx s s'"
  using read_ready_post [OF assms] unfolding ready_read_def by (auto intro: ready_drained)

text \<open>An invariant of the variables alone has to be kept by the transitions.\<close>

locale state_invariant =
  fixes ctx :: supervision_context and J :: "supervision \<Rightarrow> bool"
  assumes transition: "J s \<Longrightarrow> transition ctx s s' \<Longrightarrow> J s'"

sublocale state_invariant \<subseteq> supervision_invariant K ctx "\<lambda>s w. J s" for K :: "'k kernel"
  by unfold_locales
    (blast intro: transition observe_exit_transition observe_cancellation_transition release_start_transition
      send_cancellation_signal_transition force_cancellation_transition start_cleanup_transition
      continue_cleanup_transition reap_child_transition drain_streams_transition read_control_transition
      read_ready_transition)+


lemma gate_inv_transition: "transition ctx s s' \<Longrightarrow> gate_inv ctx s \<Longrightarrow> gate_inv ctx s'"
  by (induction rule: transition.induct) (auto simp: gate_inv_def)

lemma cleanup_inv_transition: "transition ctx s s' \<Longrightarrow> cleanup_inv ctx s \<Longrightarrow> cleanup_inv ctx s'"
  by (induction rule: transition.induct; simp (no_asm) add: cleanup_inv_def; unfold cleanup_inv_def; blast)

interpretation gate: state_invariant ctx "gate_inv ctx" for ctx
  by unfold_locales (rule gate_inv_transition)

interpretation cleanup: state_invariant ctx "cleanup_inv ctx" for ctx
  by unfold_locales (rule cleanup_inv_transition)

end
