(* ===== verification/Supervisor_History.thy ===== *)
theory Supervisor_History
  imports Supervisor
begin

text \<open>
  What the history of calls of a whole supervision shows: the start gate, the escalation to
  \<open>SIGKILL\<close>, the captured streams, the cleanup of the process group, and the failure record
  of the child. Each is an invariant of the loop of \<open>execute_backend\<close>, an interpretation of the
  contract that \<open>supervision_invariant\<close> states.
\<close>

section \<open>The start gate in the history of calls\<close>

lemma retry_eintr_replies:
  assumes "retry_eintr K c w = Some y"
  shows "\<forall>(c', r) \<in> set (calls_between w (snd y)). c' = c \<and> (r = fst y \<or> ret r < 0)"
  using retry_eintr_calls [OF assms] by auto

text \<open>A start byte was accepted by the kernel, on whatever descriptor.\<close>

definition gate_opened :: "(syscall \<times> reply) list \<Rightarrow> bool" where
  "gate_opened cs \<longleftrightarrow> (\<exists>fd r. (Fd (Write fd [1]), r) \<in> set cs \<and> ret r = 1)"

lemma gate_opened_append [simp]: "gate_opened (cs @ ds) \<longleftrightarrow> gate_opened cs \<or> gate_opened ds"
  by (auto simp: gate_opened_def)

lemma gate_not_opened:
  assumes "only_calls P w w'" "\<And>fd. \<not> P (Fd (Write fd [1]))"
  shows "\<not> gate_opened (calls_between w w')"
  using assms by (auto simp: gate_opened_def dest: only_calls_member)

definition gate_history :: "'k world \<Rightarrow> supervision \<Rightarrow> 'k world \<Rightarrow> bool" where
  "gate_history w0 s w \<longleftrightarrow> extends w0 w \<and> (start_released s \<longleftrightarrow> gate_opened (calls_between w0 w))"

lemma gate_history_quiet:
  assumes "gate_history w0 s w" "start_released s' = start_released s"
    and "only_calls P w w'" "\<And>fd. \<not> P (Fd (Write fd [1]))"
  shows "gate_history w0 s' w'"
proof -
  from assms(1) have e: "extends w0 w" by (simp add: gate_history_def)
  note e' = only_calls_extends [OF assms(3)]
  show ?thesis
    using assms extends_trans [OF e e'] gate_not_opened [OF assms(3,4)]
    unfolding gate_history_def calls_between_trans [OF e e'] by auto
qed

lemma gate_history_release:
  assumes h: "gate_history w0 s w" and r: "release_start K ctx s w = Some (s', w')"
  shows "gate_history w0 s' w'"
proof (cases "ready_seen s \<and> \<not> start_released s \<and> \<not> cancellation_observed s")
  case True
  obtain s1 w1 where o: "observe_cancellation K ctx s w = (s1, w1)" by fastforce
  have ns: "start_released s1 = start_released s" using observe_cancellation_state [OF o] by auto
  have h1: "gate_history w0 s1 w1"
    by (rule gate_history_quiet [OF h ns observe_cancellation_only [OF o]]) (simp add: token_call_def)
  show ?thesis
  proof (cases "cancellation_observed s1")
    case c: True
    with True r o h1 show ?thesis by (auto simp: release_start_def)
  next
    case False
    let ?c = "Fd (Write (start_fd s1) [1])"
    from False True r o obtain q v where t: "retry_eintr K ?c w1 = Some (q, v)"
      and s': "s' = s1\<lparr>start_fd := -1, start_released := ret q = 1\<rparr>" and w': "w' = reset_fd K (start_fd s1) v"
      by (auto simp: release_start_def write_start_def bind_eq_Some_conv)
    have o2: "only_calls (\<lambda>c. \<exists>f. c = Fd (Close f)) v w'" unfolding w' by (rule reset_fd_only) simp
    have "\<not> gate_opened (calls_between v w')" by (rule gate_not_opened [OF o2]) simp
    moreover have "gate_opened (calls_between w1 v) \<longleftrightarrow> ret q = 1"
    proof
      assume "ret q = 1"
      moreover have "(?c, q) \<in> set (calls_between w1 v)" using retry_eintr_last [OF t] by simp
      ultimately show "gate_opened (calls_between w1 v)" unfolding gate_opened_def by blast
    next
      assume "gate_opened (calls_between w1 v)"
      then obtain fd p where p: "(Fd (Write fd [1]), p) \<in> set (calls_between w1 v)" "ret p = 1"
        unfolding gate_opened_def by blast
      from retry_eintr_replies [OF t] p(1) have "p = q \<or> ret p < 0" by auto
      with p(2) show "ret q = 1" by auto
    qed
    moreover have e1: "extends w1 v" using retry_eintr_last [OF t] by simp
    moreover note e2 = only_calls_extends [OF o2]
    moreover have e0: "extends w0 w1" and "\<not> gate_opened (calls_between w0 w1)"
      using h1 ns True by (simp_all add: gate_history_def)
    moreover have "calls_between w0 w' = calls_between w0 w1 @ calls_between w1 v @ calls_between v w'"
      unfolding calls_between_trans [OF e0 extends_trans [OF e1 e2]] calls_between_trans [OF e1 e2] by simp
    ultimately show ?thesis
      using extends_trans [OF e0 extends_trans [OF e1 e2]] by (simp add: gate_history_def s')
  qed
qed (use assms in \<open>auto simp: release_start_def\<close>)

lemma quiet_released:
  "observe_exit K ctx s w = Some (s', w') \<Longrightarrow> start_released s' = start_released s"
  "observe_cancellation K ctx s w = (s', w') \<Longrightarrow> start_released s' = start_released s"
  "send_cancellation_signal K ctx s w = Some (s', w') \<Longrightarrow> start_released s' = start_released s"
  "force_cancellation K ctx now s w = Some (s', w') \<Longrightarrow> start_released s' = start_released s"
  "start_cleanup K ctx now s w = Some (s', w') \<Longrightarrow> start_released s' = start_released s"
  "continue_cleanup K ctx now s w = Some (s', w') \<Longrightarrow> start_released s' = start_released s"
  "reap_child K ctx s w = Some (s', w') \<Longrightarrow> start_released s' = start_released s"
  "drain_streams K s w = Some (s', w') \<Longrightarrow> start_released s' = start_released s"
  "read_control K s w = Some (s', w') \<Longrightarrow> start_released s' = start_released s"
  "read_ready K s w = Some (s', w') \<Longrightarrow> start_released s' = start_released s"
  subgoal by (drule observe_exit_state) auto
  subgoal by (drule observe_cancellation_state) auto
  subgoal by (drule send_cancellation_signal_state) auto
  subgoal by (drule force_cancellation_state) auto
  subgoal by (drule start_cleanup_state) auto
  subgoal by (drule continue_cleanup_state) auto
  subgoal by (drule reap_child_state) auto
  subgoal by (auto elim: drain_streamsE)
  subgoal by (drule read_control_state) auto
  subgoal by (drule read_ready_post) (auto simp: ready_read_def)
  done

lemma read_control_only: "read_control K s w = Some (s', w') \<Longrightarrow> only_calls record_call w w'"
  using read_control_post [of K s w "(s', w')"] by (auto simp: control_read_def)

lemma read_ready_only: "read_ready K s w = Some (s', w') \<Longrightarrow> only_calls record_call w w'"
  using read_ready_post [of K s w "(s', w')"] by (auto simp: ready_read_def)

lemma gate_history_clock:
  assumes "gate_history w0 s w" "syscall K (Ctl Clock_now) w = (now, w')"
  shows "gate_history w0 s w'"
  by (rule gate_history_quiet [OF assms(1) refl only_calls_syscall [OF assms(2), of "\<lambda>c. c = Ctl Clock_now"]]) simp_all

interpretation gate_calls: supervision_invariant K ctx "gate_history w0" for K :: "'k kernel" and ctx w0
proof unfold_locales
  fix s s' now and w w' :: "'k world"
  assume h: "gate_history w0 s w"
  note q = gate_history_quiet [OF h]
  show "gate_history w0 s' w'" if "observe_exit K ctx s w = Some (s', w')"
    by (rule q [OF quiet_released(1) [OF that] observe_exit_only [OF that]]) (simp add: wait_call_def)
  show "gate_history w0 s' w'" if "observe_cancellation K ctx s w = (s', w')"
    by (rule q [OF quiet_released(2) [OF that] observe_cancellation_only [OF that]]) (simp add: token_call_def)
  show "gate_history w0 s' w'" if "release_start K ctx s w = Some (s', w')"
    by (rule gate_history_release [OF h that])
  show "gate_history w0 s' w'" if "send_cancellation_signal K ctx s w = Some (s', w')"
    by (rule q [OF quiet_released(3) [OF that] send_cancellation_signal_only [OF that]]) (simp add: signal_call_def)
  show "gate_history w0 s w'" if "syscall K (Ctl Clock_now) w = (now, w')"
    by (rule gate_history_clock [OF h that])
  show "gate_history w0 s' w'" if "force_cancellation K ctx now s w = Some (s', w')"
    by (rule q [OF quiet_released(4) [OF that] force_cancellation_only [OF that]]) (simp add: signal_call_def)
  show "gate_history w0 s' w'" if "start_cleanup K ctx now s w = Some (s', w')"
    by (rule q [OF quiet_released(5) [OF that] start_cleanup_only [OF that]]) (simp add: signal_call_def)
  show "gate_history w0 s' w'" if "continue_cleanup K ctx now s w = Some (s', w')"
    by (rule q [OF quiet_released(6) [OF that] continue_cleanup_only [OF that]])
      (simp add: signal_call_def dir_or_clock_def)
  show "gate_history w0 s' w'" if "reap_child K ctx s w = Some (s', w')"
    by (rule q [OF quiet_released(7) [OF that] reap_child_only [OF that]]) (simp add: reap_call_def)
  show "gate_history w0 s (poll_pipes K ctx s w)"
    by (rule q [OF refl poll_pipes_only]) (simp add: pipe_call_def)
  show "gate_history w0 s' w'" if "drain_streams K s w = Some (s', w')"
    by (rule q [OF quiet_released(8) [OF that] drain_streams_only [OF that]]) (simp add: pipe_call_def)
  show "gate_history w0 s' w'" if "read_control K s w = Some (s', w')"
    by (rule q [OF quiet_released(9) [OF that] read_control_only [OF that]]) (simp add: record_call_def)
  show "gate_history w0 s' w'" if "read_ready K s w = Some (s', w')"
    by (rule q [OF quiet_released(10) [OF that] read_ready_only [OF that]]) (simp add: record_call_def)
qed

section \<open>When a process group is killed\<close>

definition clock_in :: "int \<Rightarrow> (syscall \<times> reply) list \<Rightarrow> bool" where
  "clock_in t cs \<longleftrightarrow> (\<exists>r. (Ctl Clock_now, r) \<in> set cs \<and> ret r = t)"

definition exit_in :: "(syscall \<times> reply) list \<Rightarrow> bool" where
  "exit_in cs \<longleftrightarrow> (\<exists>c r. (Proc c, r) \<in> set cs \<and> ret r = 0 \<and> si_pid (reply_siginfo r) \<noteq> 0)"

text \<open>
  A forced signal is due: the grace period has elapsed since a time the clock reported, or
  the leader has exited and 200 milliseconds have elapsed.
\<close>

definition kill_due :: "u64 \<Rightarrow> (syscall \<times> reply) list \<Rightarrow> bool" where
  "kill_due grace cs \<longleftrightarrow> (\<exists>t0 t1. clock_in t0 cs \<and> clock_in t1 cs \<and>
     (add_milliseconds t0 grace \<le> t1 \<or> exit_in cs \<and> t0 + milliseconds 200 \<le> t1))"

definition kill_guard :: "u64 \<Rightarrow> call_guard_pred" where
  "kill_guard grace pre x \<longleftrightarrow>
     (\<forall>fd. fst x = Proc (Pidfd_send_signal fd SIGKILL) \<longrightarrow> kill_due grace pre)"

lemma due_append [simp]:
  "clock_in t cs \<Longrightarrow> clock_in t (cs @ ds)" "clock_in t ds \<Longrightarrow> clock_in t (cs @ ds)"
  "exit_in cs \<Longrightarrow> exit_in (cs @ ds)" "exit_in ds \<Longrightarrow> exit_in (cs @ ds)"
  by (auto simp: clock_in_def exit_in_def)

lemma kill_due_mono:
  assumes "kill_due grace cs" "set cs \<subseteq> set ds"
  shows "kill_due grace ds"
proof -
  from assms(1) obtain t0 t1 where "clock_in t0 cs" "clock_in t1 cs"
    "add_milliseconds t0 grace \<le> t1 \<or> exit_in cs \<and> t0 + milliseconds 200 \<le> t1"
    unfolding kill_due_def by blast
  moreover from this assms(2) have "clock_in t0 ds" "clock_in t1 ds" "exit_in cs \<Longrightarrow> exit_in ds"
    by (auto simp: clock_in_def exit_in_def)
  ultimately show ?thesis unfolding kill_due_def by blast
qed

lemma kill_due_append: "kill_due grace cs \<Longrightarrow> kill_due grace (cs @ ds)" "kill_due grace ds \<Longrightarrow> kill_due grace (cs @ ds)"
  by (auto elim: kill_due_mono)

interpretation kills: call_guard "kill_guard grace" for grace
  by unfold_locales (auto simp: kill_guard_def kill_due_append)

definition kill_history :: "supervision_context \<Rightarrow> supervision \<Rightarrow> 'k world \<Rightarrow> bool" where
  "kill_history ctx s w \<longleftrightarrow>
     guarded (kill_guard (grace_period_milliseconds ctx)) (history w) \<and>
     (child_exited s \<longrightarrow> exit_in (history w)) \<and>
     (cancellation_signal_attempted s \<longrightarrow>
        (\<exists>t0. clock_in t0 (history w) \<and> cancellation_deadline s = add_milliseconds t0 (grace_period_milliseconds ctx))) \<and>
     (forced_signal_sent s \<longrightarrow> kill_due (grace_period_milliseconds ctx) (history w)) \<and>
     (cleanup_started s \<and> \<not> forced_signal_sent s \<longrightarrow>
        (\<exists>t0. clock_in t0 (history w) \<and> (cleanup_deadline s = add_milliseconds t0 (grace_period_milliseconds ctx) \<or>
           exit_in (history w) \<and> cleanup_deadline s = t0 + milliseconds 200)))"

text \<open>More calls of a harmless kind, or of any kind when a forced signal is due, change nothing.\<close>

lemma kill_history_extend:
  assumes "kill_history ctx s w" "only_calls P w w'"
    and "(\<forall>fd. \<not> P (Proc (Pidfd_send_signal fd SIGKILL))) \<or> kill_due (grace_period_milliseconds ctx) (history w)"
  shows "kill_history ctx s w'"
proof -
  have h: "history w' = history w @ calls_between w w'"
    using only_calls_extends [OF assms(2)] by (simp add: extends_history)
  have "guarded (kill_guard (grace_period_milliseconds ctx)) (history w')"
    unfolding h
  proof (rule guarded_extend)
    show "guarded (kill_guard (grace_period_milliseconds ctx)) (history w)"
      using assms(1) by (simp add: kill_history_def)
    fix us x assume "x \<in> set (calls_between w w')"
    then show "kill_guard (grace_period_milliseconds ctx) (history w @ us) x"
      using assms(3) only_calls_member [OF assms(2), of "fst x" "snd x"] kill_due_append(1)
      by (auto simp: kill_guard_def)
  qed
  then show ?thesis
    using assms(1) kill_due_append(1) unfolding kill_history_def h by (meson due_append)
qed

lemma kill_history_clock:
  "kill_history ctx s w \<Longrightarrow> syscall K (Ctl Clock_now) w = (now, w') \<Longrightarrow> kill_history ctx s w'"
  by (erule kill_history_extend [OF _ only_calls_syscall [where P = "\<lambda>c. c = Ctl Clock_now"]]) simp_all

lemma clock_read_history: "clock_read now w \<longleftrightarrow> clock_in now (history w)"
  by (simp add: clock_read_def clock_in_def)

lemma kill_history_signal:
  assumes "kill_history ctx s w" "signal_group K ctx signal s w = Some (res, s', w')"
    and "signal \<noteq> SIGKILL \<or> kill_due (grace_period_milliseconds ctx) (history w)"
  shows "kill_history ctx s' w'"
proof -
  have "kill_history ctx s w'"
    by (rule kill_history_extend [OF assms(1) signal_group_only [OF assms(2)]])
      (use assms(3) in \<open>auto simp: signal_call_def\<close>)
  with signal_groupD(2) [OF assms(2)] show ?thesis by (auto simp: kill_history_def)
qed

lemma observe_child_exit_evidence:
  assumes "observe_child_exit K p fd w = Some (e, i, w')" "e"
  shows "exit_in (history w')"
proof -
  let ?c = "if fd \<ge> 0 then Waitid_pidfd fd [WEXITED, WNOHANG, WNOWAIT] else Waitid_pid p [WEXITED, WNOHANG, WNOWAIT]"
  obtain r v where t: "retry_eintr K (Proc ?c) w = Some (r, v)"
    using assms(1) unfolding observe_child_exit_def by (cases "retry_eintr K (Proc ?c) w") auto
  have r: "ret r = 0" "si_pid (reply_siginfo r) \<noteq> 0" "v = w'"
    using assms unfolding observe_child_exit_def t by (cases "ret r = 0"; auto)+
  have "(Proc ?c, r) \<in> set (history v)"
    using retry_eintr_last [OF t] by (simp add: extends_history)
  with r show ?thesis unfolding exit_in_def by blast
qed

lemma kill_history_exit:
  assumes h: "kill_history ctx s w" and run: "observe_exit K ctx s w = Some (s', w')"
  shows "kill_history ctx s' w'"
proof (cases "child_exited s")
  case True
  with run h show ?thesis by (simp add: observe_exit_def)
next
  case False
  with run obtain e i where o: "observe_child_exit K (child_pid ctx) (pidfd ctx) w = Some (e, i, w')"
    and s': "s' = s\<lparr>child_exited := e, child_information := i\<rparr>"
    by (auto simp: observe_exit_def bind_eq_Some_conv)
  have "kill_history ctx s w'"
    by (rule kill_history_extend [OF h observe_exit_only [OF run]]) (simp add: wait_call_def)
  with observe_child_exit_evidence [OF o] show ?thesis unfolding s' by (simp add: kill_history_def)
qed

lemma SIGTERM_not_SIGKILL [simp]: "SIGTERM \<noteq> SIGKILL" "SIGKILL \<noteq> SIGTERM"
  by (simp_all add: SIGTERM_def SIGKILL_def)

lemma kill_history_send:
  assumes h: "kill_history ctx s w" and run: "send_cancellation_signal K ctx s w = Some (s', w')"
  shows "kill_history ctx s' w'"
proof (cases "\<not> cancellation_observed s \<or> cancellation_signal_attempted s \<or> (start_released s \<and> \<not> exec_confirmed s)")
  case True
  with h run show ?thesis by (simp add: send_cancellation_signal_def)
next
  case False
  with run obtain res s1 w1 where g: "signal_group K ctx SIGTERM s w = Some (res, s1, w1)"
    and c: "syscall K (Ctl Clock_now) w1 = (fst (syscall K (Ctl Clock_now) w1), w')"
    and s': "s' = s1\<lparr>cancellation_signal_attempted := True, cancellation_signal_delivered := leader_signaled res,
      cancellation_deadline := add_milliseconds (fst (syscall K (Ctl Clock_now) w1)) (grace_period_milliseconds ctx)\<rparr>"
    by (auto simp: send_cancellation_signal_def bind_eq_Some_conv case_prod_beta Let_def)
  have "kill_history ctx s1 w1" by (rule kill_history_signal [OF h g]) simp
  from kill_history_clock [OF this c] clock_read_syscall [OF c] show ?thesis
    unfolding s' clock_read_history by (auto simp: kill_history_def)
qed

lemma kill_history_force:
  assumes h: "kill_history ctx s w" and t: "clock_read now w"
    and run: "force_cancellation K ctx now s w = Some (s', w')"
  shows "kill_history ctx s' w'"
proof (cases "cancellation_signal_attempted s \<and> \<not> forced_signal_sent s \<and> now \<ge> cancellation_deadline s \<and> \<not> cleanup_complete s")
  case True
  with run obtain res s1 where g: "signal_group K ctx SIGKILL s w = Some (res, s1, w')"
    and s': "s' = s1\<lparr>forced_signal_sent := True, cleanup_deadline := now + milliseconds 1000\<rparr>"
    by (auto simp: force_cancellation_def bind_eq_Some_conv)
  from True h t have due: "kill_due (grace_period_milliseconds ctx) (history w)"
    unfolding kill_history_def kill_due_def clock_read_history by metis
  have k: "kill_history ctx s1 w'" by (rule kill_history_signal [OF h g]) (simp add: due)
  have "kill_due (grace_period_milliseconds ctx) (history w')"
    using due kill_due_append(1) only_calls_extends [OF signal_group_only [OF g]] by (metis extends_history)
  with k show ?thesis unfolding s' by (simp add: kill_history_def)
qed (use assms in \<open>auto simp: force_cancellation_def\<close>)

lemma kill_history_start:
  assumes h: "kill_history ctx s w" and t: "clock_read now w"
    and run: "start_cleanup K ctx now s w = Some (s', w')"
  shows "kill_history ctx s' w'"
proof (cases "child_exited s \<and> cancellation ctx \<and> \<not> cleanup_started s")
  case True
  let ?s = "s\<lparr>cleanup_started := True\<rparr>"
  show ?thesis
  proof (cases "cancellation_signal_attempted s")
    case False
    with True run obtain res s1 where g: "signal_group K ctx SIGTERM ?s w = Some (res, s1, w')"
      and s': "s' = s1\<lparr>cleanup_deadline := now + milliseconds 200\<rparr>"
      by (auto simp: start_cleanup_def bind_eq_Some_conv)
    let ?t = "s\<lparr>cleanup_started := True, cleanup_deadline := now + milliseconds 200\<rparr>"
    have "kill_history ctx ?t w" using h t True unfolding kill_history_def clock_read_history by auto
    then have "kill_history ctx ?t w'"
      by (rule kill_history_extend [OF _ signal_group_only [OF g]]) (simp add: signal_call_def)
    moreover have "s' = ?t \<or> s' = ?t\<lparr>cleanup_failed := True\<rparr>"
      using signal_groupD(2) [OF g] s' by simp
    ultimately show ?thesis by (auto simp: kill_history_def)
  next
    case att: True
    with True run have w': "w' = w" and s': "s' = ?s\<lparr>cleanup_deadline :=
        (if forced_signal_sent s then cleanup_deadline s else cancellation_deadline s)\<rparr>"
      by (auto simp: start_cleanup_def Let_def split: if_splits)
    show ?thesis using h att unfolding s' w' kill_history_def by auto
  qed
qed (use assms in \<open>auto simp: start_cleanup_def\<close>)

lemma kill_history_overdue:
  assumes h: "kill_history ctx s w" and t: "clock_in now (history w)" and st: "cleanup_started s"
    and late: "cleanup_deadline s \<le> now" and run: "cleanup_overdue K ctx now s w = Some (s', w')"
  shows "kill_history ctx s' w'"
proof -
  from run obtain res s1 where g: "signal_group K ctx SIGKILL s w = Some (res, s1, w')"
    and s': "s' = (if \<not> forced_signal_sent s
      then s1\<lparr>forced_signal_sent := True, cleanup_deadline := now + milliseconds 1000\<rparr>
      else s1\<lparr>cleanup_failed := True, cleanup_complete := True\<rparr>)"
    by (auto simp: cleanup_overdue_def bind_eq_Some_conv)
  have due: "kill_due (grace_period_milliseconds ctx) (history w)"
  proof (cases "forced_signal_sent s")
    case False
    with h st obtain t0 where "clock_in t0 (history w)"
      "cleanup_deadline s = add_milliseconds t0 (grace_period_milliseconds ctx) \<or>
       exit_in (history w) \<and> cleanup_deadline s = t0 + milliseconds 200" unfolding kill_history_def by blast
    with t late show ?thesis unfolding kill_due_def by metis
  qed (use h in \<open>simp add: kill_history_def\<close>)
  have k: "kill_history ctx s1 w'" by (rule kill_history_signal [OF h g]) (simp add: due)
  have "kill_due (grace_period_milliseconds ctx) (history w')"
    using due kill_due_append(1) only_calls_extends [OF signal_group_only [OF g]] by (metis extends_history)
  with k show ?thesis unfolding s' by (cases "forced_signal_sent s") (simp_all add: kill_history_def)
qed

lemma kill_history_continue:
  assumes h: "kill_history ctx s w" and t: "clock_read now w"
    and run: "continue_cleanup K ctx now s w = Some (s', w')"
  shows "kill_history ctx s' w'"
proof (cases "child_exited s \<and> cancellation ctx \<and> cleanup_started s \<and> \<not> cleanup_complete s")
  case True
  with run obtain s1 w1 gone w2 where
    a: "(if forced_signal_sent s then do { (_, s, w) \<leftarrow> signal_group K ctx SIGKILL s w; Some (s, w) }
         else Some (s, w)) = Some (s1, w1)"
    and b: "wait_process_group_members_gone K (child_pid ctx) (child_pid ctx) 0 w1 = Some (gone, w2)"
    and c: "s' = s1\<lparr>cleanup_complete := True\<rparr> \<and> w' = w2 \<or>
      cleanup_deadline s1 \<le> now \<and> cleanup_overdue K ctx now s1 w2 = Some (s', w') \<or> s' = s1 \<and> w' = w2"
    by (auto simp: continue_cleanup_def bind_eq_Some_conv split: if_splits)
  have k1: "kill_history ctx s1 w1 \<and> extends w w1 \<and> cleanup_started s1"
  proof (cases "forced_signal_sent s")
    case f: True
    with a obtain res where g: "signal_group K ctx SIGKILL s w = Some (res, s1, w1)"
      by (auto simp: bind_eq_Some_conv)
    have "kill_history ctx s1 w1" by (rule kill_history_signal [OF h g]) (use f h in \<open>simp add: kill_history_def\<close>)
    with signal_group_state [OF g] only_calls_extends [OF signal_group_only [OF g]] True show ?thesis by auto
  next
    case False
    with a h True show ?thesis by simp
  qed
  have k2: "kill_history ctx s1 w2"
    by (rule kill_history_extend [OF _ wait_gone_only [OF b]]) (use k1 in \<open>simp_all add: dir_or_clock_def\<close>)
  have "clock_read now w2"
    using clock_read_extends [OF t] k1 extends_trans only_calls_extends [OF wait_gone_only [OF b]] by blast
  then have n: "clock_in now (history w2)" by (simp add: clock_read_history)
  from c show ?thesis
  proof (elim disjE conjE)
    assume "s' = s1\<lparr>cleanup_complete := True\<rparr>" "w' = w2"
    with k2 show ?thesis by (simp add: kill_history_def)
  next
    assume "cleanup_deadline s1 \<le> now" "cleanup_overdue K ctx now s1 w2 = Some (s', w')"
    with kill_history_overdue [OF k2 n] k1 show ?thesis by blast
  next
    assume "s' = s1" "w' = w2"
    with k2 show ?thesis by simp
  qed
qed (use assms in \<open>auto simp: continue_cleanup_def\<close>)


text \<open>The blocks that neither signal nor touch the variables of the guard.\<close>

definition kill_view :: "supervision \<Rightarrow> bool \<times> bool \<times> bool \<times> bool \<times> int \<times> int" where
  "kill_view s = (child_exited s, cancellation_signal_attempted s, forced_signal_sent s, cleanup_started s,
     cancellation_deadline s, cleanup_deadline s)"

lemma kill_history_view: "kill_view s' = kill_view s \<Longrightarrow> kill_history ctx s w \<Longrightarrow> kill_history ctx s' w"
  by (simp add: kill_history_def kill_view_def)

lemma kill_view_kept:
  "observe_cancellation K ctx s w = (s', w') \<Longrightarrow> kill_view s' = kill_view s"
  "release_start K ctx s w = Some (s', w') \<Longrightarrow> kill_view s' = kill_view s"
  "reap_child K ctx s w = Some (s', w') \<Longrightarrow> kill_view s' = kill_view s"
  "drain_streams K s w = Some (s', w') \<Longrightarrow> kill_view s' = kill_view s"
  "read_control K s w = Some (s', w') \<Longrightarrow> kill_view s' = kill_view s"
  "read_ready K s w = Some (s', w') \<Longrightarrow> kill_view s' = kill_view s"
  subgoal by (drule observe_cancellation_state) (auto simp: kill_view_def)
  subgoal by (drule release_start_state) (auto simp: kill_view_def)
  subgoal by (drule reap_child_state) (auto simp: kill_view_def)
  subgoal by (auto simp: kill_view_def elim: drain_streamsE)
  subgoal by (drule read_control_state) (auto simp: kill_view_def)
  subgoal by (drule read_ready_post) (auto simp: kill_view_def ready_read_def)
  done

interpretation kill_calls: supervision_invariant K ctx "kill_history ctx" for K :: "'k kernel" and ctx
proof unfold_locales
  fix s s' now and w w' :: "'k world"
  assume h: "kill_history ctx s w"
  have q: "kill_history ctx s' w'" if "only_calls P w w'" "\<And>fd. \<not> P (Proc (Pidfd_send_signal fd SIGKILL))"
    "kill_view s' = kill_view s" for P s' w'
    by (rule kill_history_view [OF that(3) kill_history_extend [OF h that(1)]]) (simp add: that(2))
  show "kill_history ctx s' w'" if "observe_exit K ctx s w = Some (s', w')"
    by (rule kill_history_exit [OF h that])
  show "kill_history ctx s' w'" if "observe_cancellation K ctx s w = (s', w')"
    by (rule q [OF observe_cancellation_only [OF that] _ kill_view_kept(1) [OF that]]) (simp add: token_call_def)
  show "kill_history ctx s' w'" if "release_start K ctx s w = Some (s', w')"
    by (rule q [OF release_start_only [OF that] _ kill_view_kept(2) [OF that]]) (simp add: gate_call_def token_call_def)
  show "kill_history ctx s' w'" if "send_cancellation_signal K ctx s w = Some (s', w')"
    by (rule kill_history_send [OF h that])
  show "kill_history ctx s w'" if "syscall K (Ctl Clock_now) w = (now, w')"
    by (rule kill_history_clock [OF h that])
  show "kill_history ctx s' w'" if "clock_read now w" "force_cancellation K ctx now s w = Some (s', w')"
    by (rule kill_history_force [OF h that])
  show "kill_history ctx s' w'" if "clock_read now w" "start_cleanup K ctx now s w = Some (s', w')"
    by (rule kill_history_start [OF h that])
  show "kill_history ctx s' w'" if "clock_read now w" "continue_cleanup K ctx now s w = Some (s', w')"
    by (rule kill_history_continue [OF h that])
  show "kill_history ctx s' w'" if "reap_child K ctx s w = Some (s', w')"
    by (rule q [OF reap_child_only [OF that] _ kill_view_kept(3) [OF that]]) (simp add: reap_call_def)
  show "kill_history ctx s (poll_pipes K ctx s w)"
    by (rule q [OF poll_pipes_only]) (simp_all add: pipe_call_def)
  show "kill_history ctx s' w'" if "drain_streams K s w = Some (s', w')"
    by (rule q [OF drain_streams_only [OF that] _ kill_view_kept(4) [OF that]]) (simp add: pipe_call_def)
  show "kill_history ctx s' w'" if "read_control K s w = Some (s', w')"
    by (rule q [OF read_control_only [OF that] _ kill_view_kept(5) [OF that]]) (simp add: record_call_def)
  show "kill_history ctx s' w'" if "read_ready K s w = Some (s', w')"
    by (rule q [OF read_ready_only [OF that] _ kill_view_kept(6) [OF that]]) (simp add: record_call_def)
qed

section \<open>Captured streams\<close>

text \<open>
  One captured stream, read from descriptor \<open>fd\<close>: everything the reads delivered so far, in
  order, and the descriptor is closed only after a failure or at the end of the file.
\<close>

definition stream_exact ::
  "'k world \<Rightarrow> fd \<Rightarrow> fd \<Rightarrow> byte list \<Rightarrow> bool \<Rightarrow> 'k world \<Rightarrow> bool" where
  "stream_exact w0 fd cur material failed w \<longleftrightarrow>
     material = delivered fd 16384 (calls_between w0 w) \<and>
     (cur = fd \<or> cur = -1 \<and> (failed \<or> end_of_file fd 16384 (calls_between w0 w)))"

definition capture_history :: "'k world \<Rightarrow> fd \<Rightarrow> fd \<Rightarrow> supervision \<Rightarrow> 'k world \<Rightarrow> bool" where
  "capture_history w0 ofd efd s w \<longleftrightarrow> extends w0 w \<and>
     stream_exact w0 ofd (output_fd s) (output_material s) (capture_failed s) w \<and>
     stream_exact w0 efd (error_fd s) (error_material s) (capture_failed s) w"

lemma quiet_delivered:
  assumes "only_calls P w w'" "\<not> P (Fd (Read fd n))"
  shows "delivered fd n (calls_between w w') = []" "\<not> end_of_file fd n (calls_between w w')"
  using delivered_none [of "calls_between w w'" fd n] assms by (auto dest: only_calls_member)

lemma stream_exact_quiet:
  assumes "stream_exact w0 fd cur m f w" "extends w0 w" "only_calls P w w'" "\<not> P (Fd (Read fd 16384))" "f \<longrightarrow> f'"
  shows "stream_exact w0 fd cur m f' w'"
  using assms(1,5) quiet_delivered [OF assms(3,4)]
  unfolding stream_exact_def calls_between_trans [OF assms(2) only_calls_extends [OF assms(3)]] by auto

lemma stream_exact_drain:
  assumes st: "stream_exact w0 fd cur m f w" and e: "extends w0 w" and fd: "fd \<ge> 0"
    and d: "drained cur m f w (cur', m', f', w')"
  shows "stream_exact w0 fd cur' m' f' w'"
proof (cases "cur = fd")
  case True
  from d have o: "extends w w'" and m': "m' = m @ delivered cur 16384 (calls_between w w')"
    and c: "cur' = cur \<or> cur' = -1" "cur' = cur \<or> f' \<or> end_of_file cur 16384 (calls_between w w')"
    by (auto simp: drained_def only_calls_extends)
  show ?thesis
    using st m' c True unfolding stream_exact_def calls_between_trans [OF e o] by auto
next
  case False
  with st have "cur = -1" by (simp add: stream_exact_def)
  with d have "cur' = -1" "m' = m" "f' = f" "w' = w" by (auto simp: drained_def)
  with st \<open>cur = -1\<close> show ?thesis by simp
qed

lemma capture_history_drain:
  assumes h: "capture_history w0 ofd efd s w" and ne: "ofd \<noteq> efd" "ofd \<ge> 0" "efd \<ge> 0"
    and run: "drain_streams K s w = Some (s', w')"
  shows "capture_history w0 ofd efd s' w'"
  using run
proof (cases rule: drain_streamsE)
  case (1 a m f1 w1 b n f)
  have eq: "capture_history w0 ofd efd s' w' \<longleftrightarrow> extends w0 w' \<and>
      stream_exact w0 ofd a m f w' \<and> stream_exact w0 efd b n f w'"
    unfolding 1(3) capture_history_def by simp
  from h have e: "extends w0 w" and so: "stream_exact w0 ofd (output_fd s) (output_material s) (capture_failed s) w"
    and se: "stream_exact w0 efd (error_fd s) (error_material s) (capture_failed s) w"
    by (simp_all add: capture_history_def)
  let ?P = "\<lambda>fd c. c = Fd (Read fd 16384) \<or> c = Fd (Close fd)"
  from 1(1) have o1: "only_calls (?P (output_fd s)) w w1" and f1: "capture_failed s \<longrightarrow> f1" by (auto simp: drained_def)
  from 1(2) have o2: "only_calls (?P (error_fd s)) w1 w'" and f2: "f1 \<longrightarrow> f" by (auto simp: drained_def)
  note e1 = extends_trans [OF e only_calls_extends [OF o1]]
  have ofd: "output_fd s \<noteq> efd" "error_fd s \<noteq> ofd" using so se ne by (auto simp: stream_exact_def)
  have "stream_exact w0 ofd a m f1 w1" by (rule stream_exact_drain [OF so e ne(2) 1(1)])
  then have 1: "stream_exact w0 ofd a m f w'"
    by (rule stream_exact_quiet [OF _ e1 o2]) (use ofd f2 in auto)
  have "stream_exact w0 efd (error_fd s) (error_material s) f1 w1"
    by (rule stream_exact_quiet [OF se e o1]) (use ofd f1 in auto)
  then have "stream_exact w0 efd b n f w'" by (rule stream_exact_drain [OF _ e1 ne(3) \<open>drained (error_fd s) _ _ _ _\<close>])
  with 1 eq extends_trans [OF e1 only_calls_extends [OF o2]] show ?thesis by simp
qed

definition capture_view :: "supervision \<Rightarrow> fd \<times> byte list \<times> fd \<times> byte list \<times> bool" where
  "capture_view s = (output_fd s, output_material s, error_fd s, error_material s, capture_failed s)"

lemma capture_history_quiet:
  assumes h: "capture_history w0 ofd efd s w" and o: "only_calls P w w'" "\<And>fd. \<not> P (Fd (Read fd 16384))"
    and v: "capture_view s' = capture_view s"
  shows "capture_history w0 ofd efd s' w'"
proof -
  from h have e: "extends w0 w" by (simp add: capture_history_def)
  have "capture_history w0 ofd efd s w'"
    using h stream_exact_quiet [OF _ e o] extends_trans [OF e only_calls_extends [OF o(1)]]
    unfolding capture_history_def by blast
  with v show ?thesis by (simp add: capture_history_def capture_view_def)
qed

lemma capture_view_kept:
  "observe_exit K ctx s w = Some (s', w') \<Longrightarrow> capture_view s' = capture_view s"
  "observe_cancellation K ctx s w = (s', w') \<Longrightarrow> capture_view s' = capture_view s"
  "release_start K ctx s w = Some (s', w') \<Longrightarrow> capture_view s' = capture_view s"
  "send_cancellation_signal K ctx s w = Some (s', w') \<Longrightarrow> capture_view s' = capture_view s"
  "force_cancellation K ctx now s w = Some (s', w') \<Longrightarrow> capture_view s' = capture_view s"
  "start_cleanup K ctx now s w = Some (s', w') \<Longrightarrow> capture_view s' = capture_view s"
  "continue_cleanup K ctx now s w = Some (s', w') \<Longrightarrow> capture_view s' = capture_view s"
  "reap_child K ctx s w = Some (s', w') \<Longrightarrow> capture_view s' = capture_view s"
  "read_control K s w = Some (s', w') \<Longrightarrow> capture_view s' = capture_view s"
  "read_ready K s w = Some (s', w') \<Longrightarrow> capture_view s' = capture_view s"
  subgoal by (drule observe_exit_state) (auto simp: capture_view_def)
  subgoal by (drule observe_cancellation_state) (auto simp: capture_view_def)
  subgoal by (drule release_start_state) (auto simp: capture_view_def)
  subgoal by (drule send_cancellation_signal_state) (auto simp: capture_view_def)
  subgoal by (drule force_cancellation_state) (auto simp: capture_view_def)
  subgoal by (drule start_cleanup_state) (auto simp: capture_view_def)
  subgoal by (drule continue_cleanup_state) (auto simp: capture_view_def)
  subgoal by (drule reap_child_state) (auto simp: capture_view_def)
  subgoal by (drule read_control_state) (auto simp: capture_view_def)
  subgoal by (drule read_ready_post) (auto simp: capture_view_def ready_read_def)
  done

definition capturing :: "'k world \<Rightarrow> fd \<Rightarrow> fd \<Rightarrow> supervision \<Rightarrow> 'k world \<Rightarrow> bool" where
  "capturing w0 ofd efd s w \<longleftrightarrow> (ofd \<noteq> efd \<and> ofd \<ge> 0 \<and> efd \<ge> 0 \<longrightarrow> capture_history w0 ofd efd s w)"

interpretation capture_calls: supervision_invariant K ctx "capturing w0 ofd efd"
  for K :: "'k kernel" and ctx w0 ofd efd
proof unfold_locales
  fix s s' now and w w' :: "'k world"
  assume h: "capturing w0 ofd efd s w"
  have q: "capturing w0 ofd efd s' w'" if "only_calls P w w'" "\<And>fd. \<not> P (Fd (Read fd 16384))"
    "capture_view s' = capture_view s" for P s' w'
    using capture_history_quiet [OF _ that] h by (simp add: capturing_def)
  show "capturing w0 ofd efd s' w'" if "observe_exit K ctx s w = Some (s', w')"
    by (rule q [OF observe_exit_only [OF that] _ capture_view_kept(1) [OF that]]) (simp add: wait_call_def)
  show "capturing w0 ofd efd s' w'" if "observe_cancellation K ctx s w = (s', w')"
    by (rule q [OF observe_cancellation_only [OF that] _ capture_view_kept(2) [OF that]]) (simp add: token_call_def)
  show "capturing w0 ofd efd s' w'" if "release_start K ctx s w = Some (s', w')"
    by (rule q [OF release_start_only [OF that] _ capture_view_kept(3) [OF that]]) (simp add: gate_call_def token_call_def)
  show "capturing w0 ofd efd s' w'" if "send_cancellation_signal K ctx s w = Some (s', w')"
    by (rule q [OF send_cancellation_signal_only [OF that] _ capture_view_kept(4) [OF that]]) (simp add: signal_call_def)
  show "capturing w0 ofd efd s w'" if "syscall K (Ctl Clock_now) w = (now, w')"
    by (rule q [OF only_calls_syscall [OF that, of "\<lambda>c. c = Ctl Clock_now"] _ refl]) simp_all
  show "capturing w0 ofd efd s' w'" if "force_cancellation K ctx now s w = Some (s', w')"
    by (rule q [OF force_cancellation_only [OF that] _ capture_view_kept(5) [OF that]]) (simp add: signal_call_def)
  show "capturing w0 ofd efd s' w'" if "start_cleanup K ctx now s w = Some (s', w')"
    by (rule q [OF start_cleanup_only [OF that] _ capture_view_kept(6) [OF that]]) (simp add: signal_call_def)
  show "capturing w0 ofd efd s' w'" if "continue_cleanup K ctx now s w = Some (s', w')"
    by (rule q [OF continue_cleanup_only [OF that] _ capture_view_kept(7) [OF that]])
      (simp add: signal_call_def dir_or_clock_def)
  show "capturing w0 ofd efd s' w'" if "reap_child K ctx s w = Some (s', w')"
    by (rule q [OF reap_child_only [OF that] _ capture_view_kept(8) [OF that]]) (simp add: reap_call_def)
  show "capturing w0 ofd efd s (poll_pipes K ctx s w)"
    by (rule q [OF poll_pipes_poll]) simp_all
  show "capturing w0 ofd efd s' w'" if "drain_streams K s w = Some (s', w')"
    using capture_history_drain [OF _ _ _ _ that] h by (simp add: capturing_def)
  show "capturing w0 ofd efd s' w'" if "read_control K s w = Some (s', w')"
    by (rule q [OF read_control_only [OF that] _ capture_view_kept(9) [OF that]]) (simp add: record_call_def sizeof_child_error_def)
  show "capturing w0 ofd efd s' w'" if "read_ready K s w = Some (s', w')"
    by (rule q [OF read_ready_only [OF that] _ capture_view_kept(10) [OF that]]) (simp add: record_call_def sizeof_child_error_def)
qed

section \<open>Verified cleanup\<close>

text \<open>
  A complete scan of \<open>/proc\<close> between two worlds saw no member of the group but the leader:
  every other process it listed was read and reported another group, or none.
\<close>

definition scan_clear :: "'k kernel \<Rightarrow> pid \<Rightarrow> pid \<Rightarrow> 'k world \<Rightarrow> 'k world \<Rightarrow> bool" where
  "scan_clear K grp leader wa wc \<longleftrightarrow>
     (\<exists>ps wb. process_ids K wa = Some (Some ps, wb) \<and> extends wb wc \<and>
        (\<forall>p \<in> set ps. p \<noteq> leader \<longrightarrow>
           (\<exists>r. (Dir (Read_line (stat_path p)), r) \<in> set (calls_between wb wc) \<and> stat_reply_group r \<noteq> Some grp)))"

lemma find_member_False:
  "find_member K grp leader ps w = (False, w') \<Longrightarrow> extends w w' \<and> (\<forall>p \<in> set ps. p \<noteq> leader \<longrightarrow>
     (\<exists>r. (Dir (Read_line (stat_path p)), r) \<in> set (calls_between w w') \<and> stat_reply_group r \<noteq> Some grp))"
proof (induction ps arbitrary: w)
  case (Cons p ps)
  show ?case
  proof (cases "p = leader")
    case True
    with Cons show ?thesis by simp
  next
    case False
    obtain r w1 where i: "invoke K (Dir (Read_line (stat_path p))) w = (r, w1)" by fastforce
    then have g: "process_group_of K p w = (stat_reply_group r, w1)" by (simp add: process_group_of_def)
    with Cons.prems False have ne: "stat_reply_group r \<noteq> Some grp" and f: "find_member K grp leader ps w1 = (False, w')"
      by (auto split: if_splits)
    from Cons.IH [OF f] have e: "extends w1 w'" and rest: "\<And>q. q \<in> set ps \<Longrightarrow> q \<noteq> leader \<Longrightarrow>
      \<exists>r. (Dir (Read_line (stat_path q)), r) \<in> set (calls_between w1 w') \<and> stat_reply_group r \<noteq> Some grp" by auto
    have c: "calls_between w w' = (Dir (Read_line (stat_path p)), r) # calls_between w1 w'"
      using calls_between_trans [OF invoke_extends [OF i] e] calls_between_invoke [OF i] by simp
    show ?thesis
      using extends_trans [OF invoke_extends [OF i] e] ne rest unfolding c by auto
  qed
qed simp

lemma wait_members_loop_True:
  assumes "wait_members_loop K grp leader deadline w = Some y" "fst y"
  shows "\<exists>wa. extends w wa \<and> scan_clear K grp leader wa (snd y)"
proof -
  have "fst y \<longrightarrow> (\<exists>wa. extends w wa \<and> scan_clear K grp leader wa (snd y))"
  proof (rule wait_members_loop.raw_induct [where P = "\<lambda>K grp leader deadline w y.
      fst y \<longrightarrow> (\<exists>wa. extends w wa \<and> scan_clear K grp leader wa (snd y))", OF _ assms(1)], goal_cases)
    case (1 f K grp leader deadline w y)
    from 1(2) obtain ps w1 where p: "process_ids K w = Some (ps, w1)" by (auto simp: bind_eq_Some_conv)
    show ?case
    proof (cases ps)
      case None
      with 1(2) p show ?thesis by auto
    next
      case (Some l)
      obtain found w2 where f: "find_member K grp leader l w1 = (found, w2)" by fastforce
      obtain now w3 where c: "syscall K (Ctl Clock_now) w2 = (now, w3)" by fastforce
      obtain n w4 where sl: "syscall K (Ctl (Sleep_ms 10)) w3 = (n, w4)" by fastforce
      from 1(2) p Some f c sl have "y = (True, w2) \<and> \<not> found \<or> y = (False, w3) \<or> f K grp leader deadline w4 = Some y"
        by (auto simp: Let_def split: if_splits)
      moreover have "scan_clear K grp leader w w2" if "\<not> found"
      proof -
        from that f have "find_member K grp leader l w1 = (False, w2)" by simp
        from find_member_False [OF this] p Some show ?thesis unfolding scan_clear_def by blast
      qed
      moreover have "extends w w4"
        using process_ids_post [OF p] only_calls_extends [OF find_member_only [OF f]]
          syscall_extends [OF c] syscall_extends [OF sl] extends_trans by blast
      ultimately show ?thesis using 1(1) [of K grp leader deadline w4 y] extends_trans extends_refl by auto
    qed
  qed
  with assms(2) show ?thesis by simp
qed

lemma wait_gone_True:
  assumes "wait_process_group_members_gone K grp leader t w = Some (True, w')"
  shows "\<exists>wa. extends w wa \<and> scan_clear K grp leader wa w'"
proof -
  obtain now w1 where c: "syscall K (Ctl Clock_now) w = (now, w1)" by fastforce
  with assms obtain d where "wait_members_loop K grp leader d w1 = Some (True, w')"
    by (auto simp: wait_process_group_members_gone_def)
  from wait_members_loop_True [OF this] extends_trans [OF syscall_extends [OF c]] show ?thesis by auto
qed

text \<open>The evidence behind \<open>cleanup_complete && !cleanup_failed\<close>.\<close>

definition group_verified :: "'k kernel \<Rightarrow> supervision_context \<Rightarrow> 'k world \<Rightarrow> 'k world \<Rightarrow> bool" where
  "group_verified K ctx w0 w \<longleftrightarrow>
     (if cancellation ctx
      then \<exists>wa wc. extends w0 wa \<and> scan_clear K (child_pid ctx) (child_pid ctx) wa wc \<and> extends wc w
      else \<exists>wa wc. extends w0 wa \<and> group_gone K (child_pid ctx) wa = (True, wc) \<and> extends wc w)"

lemma group_verified_extends: "group_verified K ctx w0 w \<Longrightarrow> extends w w' \<Longrightarrow> group_verified K ctx w0 w'"
  unfolding group_verified_def by (meson extends_trans)

lemma await_group_gone_True:
  "await_group_gone K grp n w = (True, w') \<Longrightarrow> \<exists>wa. extends w wa \<and> group_gone K grp wa = (True, w')"
proof (induction n arbitrary: w)
  case (Suc n)
  obtain g w1 where g: "group_gone K grp w = (g, w1)" by fastforce
  obtain m w2 where sl: "syscall K (Ctl (Sleep_ms 10)) w1 = (m, w2)" by fastforce
  show ?case
  proof (cases g)
    case True
    with Suc.prems g show ?thesis by auto
  next
    case False
    with Suc.prems g sl have "await_group_gone K grp n w2 = (True, w')" by simp
    from Suc.IH [OF this] show ?thesis
      using extends_trans [OF only_calls_extends [OF group_gone_only [OF g]] syscall_extends [OF sl]] extends_trans by blast
  qed
qed simp

lemma cleanup_group_True:
  assumes "cleanup_group K grp w = (True, w')"
  shows "\<exists>wa. extends w wa \<and> group_gone K grp wa = (True, w')"
proof -
  obtain g1 w1 where g1: "group_gone K grp w = (g1, w1)" by fastforce
  obtain n2 w2 where k2: "syscall K (Proc (Kill (- grp) SIGTERM)) w1 = (n2, w2)" by fastforce
  obtain g3 w3 where g3: "await_group_gone K grp 20 w2 = (g3, w3)" by fastforce
  obtain n4 w4 where k4: "syscall K (Proc (Kill (- grp) SIGKILL)) w3 = (n4, w4)" by fastforce
  note e2 = extends_trans [OF only_calls_extends [OF group_gone_only [OF g1]] syscall_extends [OF k2]]
  note e4 = extends_trans [OF extends_trans [OF e2 only_calls_extends [OF await_group_gone_only [OF g3]]] syscall_extends [OF k4]]
  have "g1 \<and> w' = w1 \<or> g3 \<and> w' = w3 \<or> await_group_gone K grp 100 w4 = (True, w')"
    using assms g1 k2 g3 k4 by (cases g1; cases g3) (simp_all add: cleanup_group_def)
  then consider "g1" "w' = w1" | "g3" "w' = w3" | "await_group_gone K grp 100 w4 = (True, w')" by blast
  then show ?thesis
  proof cases
    case 1
    with g1 show ?thesis by auto
  next
    case 2
    with await_group_gone_True [of K grp 20 w2 w3] g3 extends_trans [OF e2] show ?thesis by auto
  next
    case 3
    with await_group_gone_True [OF 3] extends_trans [OF e4] show ?thesis by auto
  qed
qed

definition verified_history :: "'k kernel \<Rightarrow> supervision_context \<Rightarrow> 'k world \<Rightarrow> supervision \<Rightarrow> 'k world \<Rightarrow> bool" where
  "verified_history K ctx w0 s w \<longleftrightarrow> extends w0 w \<and>
     (cleanup_complete s \<and> \<not> cleanup_failed s \<longrightarrow> group_verified K ctx w0 w)"

lemma verified_history_quiet:
  assumes "verified_history K ctx w0 s w" "extends w w'"
    and "cleanup_complete s' = cleanup_complete s \<and> (cleanup_failed s \<longrightarrow> cleanup_failed s')"
  shows "verified_history K ctx w0 s' w'"
  using assms group_verified_extends [OF _ assms(2)] extends_trans [OF _ assms(2)]
  unfolding verified_history_def by blast

lemma cleanup_flags_kept:
  "observe_exit K ctx s w = Some (s', w') \<Longrightarrow>
     cleanup_complete s' = cleanup_complete s \<and> (cleanup_failed s \<longrightarrow> cleanup_failed s')"
  "observe_cancellation K ctx s w = (s', w') \<Longrightarrow>
     cleanup_complete s' = cleanup_complete s \<and> (cleanup_failed s \<longrightarrow> cleanup_failed s')"
  "release_start K ctx s w = Some (s', w') \<Longrightarrow>
     cleanup_complete s' = cleanup_complete s \<and> (cleanup_failed s \<longrightarrow> cleanup_failed s')"
  "send_cancellation_signal K ctx s w = Some (s', w') \<Longrightarrow>
     cleanup_complete s' = cleanup_complete s \<and> (cleanup_failed s \<longrightarrow> cleanup_failed s')"
  "force_cancellation K ctx now s w = Some (s', w') \<Longrightarrow>
     cleanup_complete s' = cleanup_complete s \<and> (cleanup_failed s \<longrightarrow> cleanup_failed s')"
  "start_cleanup K ctx now s w = Some (s', w') \<Longrightarrow>
     cleanup_complete s' = cleanup_complete s \<and> (cleanup_failed s \<longrightarrow> cleanup_failed s')"
  "drain_streams K s w = Some (s', w') \<Longrightarrow>
     cleanup_complete s' = cleanup_complete s \<and> (cleanup_failed s \<longrightarrow> cleanup_failed s')"
  "read_control K s w = Some (s', w') \<Longrightarrow>
     cleanup_complete s' = cleanup_complete s \<and> (cleanup_failed s \<longrightarrow> cleanup_failed s')"
  "read_ready K s w = Some (s', w') \<Longrightarrow>
     cleanup_complete s' = cleanup_complete s \<and> (cleanup_failed s \<longrightarrow> cleanup_failed s')"
  subgoal by (drule observe_exit_state) auto
  subgoal by (drule observe_cancellation_state) auto
  subgoal by (drule release_start_state) auto
  subgoal by (drule send_cancellation_signal_state) auto
  subgoal by (drule force_cancellation_state) auto
  subgoal by (drule start_cleanup_state) auto
  subgoal by (auto elim: drain_streamsE)
  subgoal by (drule read_control_state) auto
  subgoal by (drule read_ready_post) (auto simp: ready_read_def)
  done

lemma verified_history_continue:
  assumes h: "verified_history K ctx w0 s w" and run: "continue_cleanup K ctx now s w = Some (s', w')"
  shows "verified_history K ctx w0 s' w'"
proof (cases "child_exited s \<and> cancellation ctx \<and> cleanup_started s \<and> \<not> cleanup_complete s")
  case True
  with run obtain s1 w1 gone w2 where
    a: "(if forced_signal_sent s then do { (_, s, w) \<leftarrow> signal_group K ctx SIGKILL s w; Some (s, w) }
         else Some (s, w)) = Some (s1, w1)"
    and b: "wait_process_group_members_gone K (child_pid ctx) (child_pid ctx) 0 w1 = Some (gone, w2)"
    and c: "gone \<and> w' = w2 \<or> cleanup_overdue K ctx now s1 w2 = Some (s', w') \<or> s' = s1"
    by (auto simp: continue_cleanup_def bind_eq_Some_conv split: if_splits)
  have s1: "extends w w1 \<and> \<not> cleanup_complete s1"
  proof (cases "forced_signal_sent s")
    case f: True
    with a obtain res where g: "signal_group K ctx SIGKILL s w = Some (res, s1, w1)"
      by (auto simp: bind_eq_Some_conv)
    show ?thesis using signal_group_state [OF g] only_calls_extends [OF signal_group_only [OF g]] True by auto
  next
    case False
    with a True show ?thesis by simp
  qed
  have e: "extends w0 w" using h by (simp add: verified_history_def)
  have e': "extends w0 w'" using extends_trans [OF e only_calls_extends [OF continue_cleanup_only [OF run]]] .
  from c consider "gone" "w' = w2" | "cleanup_overdue K ctx now s1 w2 = Some (s', w')" | "s' = s1" by blast
  then show ?thesis
  proof cases
    case 1
    with wait_gone_True [of K _ _ 0 w1 w2] b obtain wa where
      "extends w1 wa" "scan_clear K (child_pid ctx) (child_pid ctx) wa w'" by auto
    moreover have "extends w0 wa" using extends_trans [OF extends_trans [OF e] \<open>extends w1 wa\<close>] s1 by blast
    ultimately have "group_verified K ctx w0 w'" unfolding group_verified_def using True by auto
    with e' show ?thesis by (simp add: verified_history_def)
  next
    case 2
    from cleanup_overdue_state [OF 2] s1 e' show ?thesis
      by (cases "forced_signal_sent s1") (auto simp: verified_history_def)
  next
    case 3
    with s1 e' show ?thesis by (simp add: verified_history_def)
  qed
qed (use assms in \<open>auto simp: continue_cleanup_def\<close>)

lemma verified_history_reap:
  assumes h: "verified_history K ctx w0 s w" and run: "reap_child K ctx s w = Some (s', w')"
  shows "verified_history K ctx w0 s' w'"
proof -
  have e: "extends w0 w" using h by (simp add: verified_history_def)
  have e': "extends w w'" using only_calls_extends [OF reap_child_only [OF run]] .
  from reap_child_state [OF run] show ?thesis
  proof (elim disjE conjE exE)
    fix g assume c: "child_exited s" "\<not> cancellation ctx"
      and s': "s' = s\<lparr>child_reaped := True, cleanup_complete := g, cleanup_failed := \<not> g\<rparr>"
    show ?thesis
    proof (cases "g \<and> \<not> child_reaped s")
      case True
      with run c obtain n st w1 where t: "waitpid_retry K (child_pid ctx) w = Some (n, st, w1)"
        and v: "w' = snd (cleanup_group K (child_pid ctx) w1)"
          "s' = s\<lparr>child_reaped := True, cleanup_complete := fst (cleanup_group K (child_pid ctx) w1),
             cleanup_failed := \<not> fst (cleanup_group K (child_pid ctx) w1)\<rparr>"
        by (auto simp: reap_child_def bind_eq_Some_conv case_prod_beta Let_def)
      have "cleanup_complete s' = fst (cleanup_group K (child_pid ctx) w1)" using v(2) by simp
      with True s' v(1) have w': "cleanup_group K (child_pid ctx) w1 = (True, w')" by (simp add: prod_eq_iff)
      have e1: "extends w w1" by (rule only_calls_extends [OF waitpid_retry_only [OF t, of "\<lambda>_. True"]]) simp
      from cleanup_group_True [OF w'] obtain wa where "extends w1 wa" "group_gone K (child_pid ctx) wa = (True, w')" by blast
      with extends_trans [OF extends_trans [OF e e1]] have "group_verified K ctx w0 w'"
        unfolding group_verified_def using c by auto
      with extends_trans [OF e e'] show ?thesis by (simp add: verified_history_def)
    next
      case False
      show ?thesis
      proof (cases "child_reaped s")
        case True
        with run c have "s' = s" "w' = w" by (simp_all add: reap_child_def)
        with h show ?thesis by simp
      next
        case r: False
        with False have "\<not> cleanup_complete s'" unfolding s' by simp
        with extends_trans [OF e e'] show ?thesis by (simp add: verified_history_def)
      qed
    qed
  qed (use verified_history_quiet [OF h e'] in auto)
qed

interpretation cleanup_calls: supervision_invariant K ctx "verified_history K ctx w0"
  for K :: "'k kernel" and ctx w0
proof unfold_locales
  fix s s' now and w w' :: "'k world"
  assume h: "verified_history K ctx w0 s w"
  note q = verified_history_quiet [OF h only_calls_extends]
  show "verified_history K ctx w0 s' w'" if "observe_exit K ctx s w = Some (s', w')"
    by (rule q [OF observe_exit_only [OF that] cleanup_flags_kept(1) [OF that]])
  show "verified_history K ctx w0 s' w'" if "observe_cancellation K ctx s w = (s', w')"
    by (rule q [OF observe_cancellation_only [OF that] cleanup_flags_kept(2) [OF that]])
  show "verified_history K ctx w0 s' w'" if "release_start K ctx s w = Some (s', w')"
    by (rule q [OF release_start_only [OF that] cleanup_flags_kept(3) [OF that]])
  show "verified_history K ctx w0 s' w'" if "send_cancellation_signal K ctx s w = Some (s', w')"
    by (rule q [OF send_cancellation_signal_only [OF that] cleanup_flags_kept(4) [OF that]])
  show "verified_history K ctx w0 s w'" if "syscall K (Ctl Clock_now) w = (now, w')"
    by (rule verified_history_quiet [OF h syscall_extends [OF that]]) simp
  show "verified_history K ctx w0 s' w'" if "force_cancellation K ctx now s w = Some (s', w')"
    by (rule q [OF force_cancellation_only [OF that] cleanup_flags_kept(5) [OF that]])
  show "verified_history K ctx w0 s' w'" if "start_cleanup K ctx now s w = Some (s', w')"
    by (rule q [OF start_cleanup_only [OF that] cleanup_flags_kept(6) [OF that]])
  show "verified_history K ctx w0 s' w'" if "continue_cleanup K ctx now s w = Some (s', w')"
    by (rule verified_history_continue [OF h that])
  show "verified_history K ctx w0 s' w'" if "reap_child K ctx s w = Some (s', w')"
    by (rule verified_history_reap [OF h that])
  show "verified_history K ctx w0 s (poll_pipes K ctx s w)"
    by (rule q [OF poll_pipes_only]) simp
  show "verified_history K ctx w0 s' w'" if "drain_streams K s w = Some (s', w')"
    by (rule q [OF drain_streams_only [OF that] cleanup_flags_kept(7) [OF that]])
  show "verified_history K ctx w0 s' w'" if "read_control K s w = Some (s', w')"
    by (rule q [OF read_control_only [OF that] cleanup_flags_kept(8) [OF that]])
  show "verified_history K ctx w0 s' w'" if "read_ready K s w = Some (s', w')"
    by (rule q [OF read_ready_only [OF that] cleanup_flags_kept(9) [OF that]])
qed

section \<open>The failure record in the pipe\<close>

lemma length_child_error_bytes [simp]: "length (child_error_bytes f) = sizeof_child_error"
  by (simp add: child_error_bytes_def sizeof_child_error_def)

lemma child_error_decode [simp]: "child_error_of_bytes (child_error_bytes f) = f"
  by (simp add: child_error_of_bytes_def child_error_bytes_def)

interpretation failure_pipe: wire_record child_error_bytes child_error_of_bytes sizeof_child_error
  by unfold_locales simp_all

lemma child_stage_decode [simp]: "child_stage_of (child_stage_code stage) = Some stage"
  by (cases stage) (simp_all add: child_stage_of_def child_stages_def child_stage_code_def)

section \<open>Concrete runs\<close>

abbreviation again :: reply where "again \<equiv> err_reply EAGAIN"
abbreviation end_of_stream :: "reply list" where "end_of_stream \<equiv> [ok_reply, ok_reply]"
abbreviation empty_scan :: "reply list" where "empty_scan \<equiv> [num_reply 3, num_reply 0, ok_reply]"

definition exited_reply :: "int \<Rightarrow> int \<Rightarrow> reply" where
  "exited_reply code status = data_reply 0 (Siginfo_data \<lparr>si_pid = 41, si_code = code, si_status = status\<rparr>)"

definition controlled_context :: supervision_context where
  "controlled_context = \<lparr>child_pid = 41, pidfd = 8, cancellation = True, grace_period_milliseconds = 5000\<rparr>"

definition ordinary_context :: supervision_context where
  "ordinary_context = \<lparr>child_pid = 41, pidfd = -1, cancellation = False, grace_period_milliseconds = 0\<rparr>"

definition pipes_open :: supervision where
  "pipes_open = initial_supervision 10 11 12 13 14"

text \<open>Cancellation before the gate: token seen, leader terminated by the signal, group gone.\<close>

definition cancelled_script :: "reply list" where
  "cancelled_script =
     [ok_reply, num_reply 1, ok_reply] @ empty_scan @ [ok_reply, num_reply 1000, num_reply 1000, ok_reply,
      again, again, again, again] @
     [exited_reply 2 15, num_reply 2000, num_reply 2000] @ empty_scan @ [num_reply 41, ok_reply] @
     end_of_stream @ end_of_stream @ end_of_stream @ end_of_stream"

text \<open>An ordinary execution that prints three bytes and exits with zero.\<close>

definition ordinary_script :: "reply list" where
  "ordinary_script =
     [ok_reply, num_reply 1000, ok_reply, again, again, again, data_reply 1 (Bytes_data [1]), ok_reply, ok_reply] @
     [ok_reply, num_reply 1, ok_reply, num_reply 2000, ok_reply,
      data_reply 3 (Bytes_data [104, 105, 10]), again, again, ok_reply, ok_reply] @
     [exited_reply 1 0, num_reply 3000, num_reply 41, err_reply ESRCH, ok_reply] @ end_of_stream @ end_of_stream"

lemmas run_simps = scripted_simps supervise.simps running_def supervise_step_def observe_exit_def observe_child_exit_def
  observe_cancellation_def release_start_def write_start_def send_cancellation_signal_def force_cancellation_def
  start_cleanup_def continue_cleanup_def cleanup_overdue_def reap_child_def poll_pipes_def drain_streams_def
  read_control.simps read_ready.simps drain_fd.simps reset_fd_def read_data_def signal_group_def
  signal_process_group_members_def send_pidfd_signal_def process_ids_def process_ids_loop.simps
  wait_process_group_members_gone_def wait_members_loop.simps waitpid_retry_def retry_eintr.simps
  cleanup_group_def group_gone_def errno_defs reply_siginfo_def zero_siginfo_def reply_status_def reply_bytes_def
  add_milliseconds_def milliseconds_def initial_supervision_def sizeof_child_error_def time_point_max_def
  SIGTERM_def SIGKILL_def set_errno_def exited_reply_def reply_text_def

lemma cancelled_run:
  "map_option (\<lambda>(s, w). (cancellation_before_start s, start_released s, cleanup_complete s, cleanup_failed s, kern w))
     (supervise scripted controlled_context pipes_open (start_world cancelled_script))
   = Some (True, False, True, False, [])"
  by (simp add: run_simps controlled_context_def ordinary_context_def pipes_open_def cancelled_script_def ordinary_script_def cong: run_congs)

lemma ordinary_run:
  "map_option (\<lambda>(s, w). (exec_confirmed s, output_material s, capture_failed s, cleanup_complete s, kern w))
     (supervise scripted ordinary_context pipes_open (start_world ordinary_script))
   = Some (True, [104, 105, 10], False, True, [])"
  by (simp add: run_simps controlled_context_def ordinary_context_def pipes_open_def cancelled_script_def ordinary_script_def cong: run_congs)

lemma initial_invariants [simp]:
  "gate_inv ctx (initial_supervision a b c d e)" "cleanup_inv ctx (initial_supervision a b c d e)"
  "gate_history w (initial_supervision a b c d e) w" "verified_history K ctx w (initial_supervision a b c d e) w"
  "capturing w a b (initial_supervision a b c d e) w"
  by (simp_all add: gate_inv_def cleanup_inv_def gate_history_def gate_opened_def verified_history_def
      capturing_def capture_history_def stream_exact_def initial_supervision_def zero_siginfo_def)

lemma initial_kill_history:
  "guarded (kill_guard (grace_period_milliseconds ctx)) (history w) \<Longrightarrow>
   kill_history ctx (initial_supervision a b c d e) w"
  by (simp add: kill_history_def initial_supervision_def)

lemma add_milliseconds_exact:
  assumes "0 \<le> now" "now + milliseconds (uint n) < 2 ^ 63"
  shows "add_milliseconds now n = now + milliseconds (uint n)"
proof -
  have "(word_of_int now + n * 1000000 :: u64) = word_of_int now + word_of_int (uint n) * word_of_int 1000000"
    by simp
  also have "\<dots> = word_of_int (now + uint n * 1000000)" by (simp only: wi_hom_add wi_hom_mult)
  finally have w: "(word_of_int now + n * 1000000 :: u64) = word_of_int (now + uint n * 1000000)" .
  have "add_milliseconds now n = signed_take_bit 63 (now + uint n * 1000000)"
    unfolding add_milliseconds_def w sint_sbintrunc' by simp
  also have "\<dots> = now + uint n * 1000000"
  proof (rule signed_take_bit_int_eq_self)
    have "0 \<le> uint n * 1000000" by simp
    then have "0 \<le> now + uint n * 1000000" using assms(1) by (rule add_nonneg_nonneg [rotated])
    then show "- (2 ^ 63) \<le> now + uint n * 1000000" by (rule order_trans [rotated]) simp
    show "now + uint n * 1000000 < 2 ^ 63" using assms(2) by (simp add: milliseconds_def)
  qed
  finally show ?thesis by (simp add: milliseconds_def)
qed

section \<open>Properties\<close>

text \<open>
  C21. The failure record survives the pipe: the writes of \<open>report_child_error\<close> hand the
  kernel a prefix of the record, whatever partial counts it accepts and however often a write
  is interrupted, and when no write fails the reader decodes the very stage, error number and
  detail the child reported.
\<close>

theorem failure_record_round_trip:
  assumes "report_child_error K fd stage v detail w = Some w'"
  shows "prefix (accepted (calls_between w w')) (child_error_bytes \<lparr>failed_stage = child_stage_code stage,
      error_value = word_of_int v, error_detail = detail\<rparr>) \<and>
    (all_accepted (calls_between w w') \<longrightarrow>
       (let f = child_error_of_bytes (accepted (calls_between w w'))
        in child_stage_of (failed_stage f) = Some stage \<and> error_value f = word_of_int v \<and> error_detail f = detail))"
  using failure_pipe.sent_prefix [OF assms [unfolded report_child_error_def]]
    failure_pipe.sent_decodes [OF assms [unfolded report_child_error_def]] by (simp add: Let_def)

definition partial_writes :: "reply list" where
  "partial_writes = [num_reply 5, err_reply EINTR, num_reply 7]"

theorem failure_record_round_trip_witness:
  "\<exists>w'. report_child_error scripted 12 Execute 2 7 (start_world partial_writes) = Some w' \<and>
     child_stage_of (failed_stage (child_error_of_bytes (accepted (calls_between (start_world partial_writes) w')))) = Some Execute"
proof -
  let ?run = "report_child_error scripted 12 Execute 2 7 (start_world partial_writes)"
  have "map_option (\<lambda>w. map (\<lambda>(c, r). (ret r, err r)) (history w)) ?run = Some [(5, 0), (-1, EINTR), (7, 0)]"
    by (simp add: report_child_error_def write_record.simps child_error_bytes_def bytes_of_u32_def partial_writes_def
        scripted_simps errno_defs child_stage_code_def cong: run_congs)
  then obtain w' where r: "?run = Some w'" and h: "map (\<lambda>(c, r). (ret r, err r)) (history w') = [(5, 0), (-1, EINTR), (7, 0)]"
    by auto
  then have "all_accepted (calls_between (start_world partial_writes) w')"
    by (auto simp: all_accepted_def calls_between_def start_world_def)
  with failure_record_round_trip [OF r] r show ?thesis by (auto simp: Let_def)
qed

text \<open>
  C6. The start gate: when supervision returns, the program was released exactly when the
  kernel accepted a start byte. A cancellation classified as before the start therefore means
  that no start byte was ever accepted, and a confirmed execution that one was and that the
  child reported no setup failure.
\<close>

theorem start_gate_decides:
  assumes "supervise K ctx (initial_supervision ofd efd cfd rfd sfd) w = Some (s, w')"
  shows "(start_released s \<longleftrightarrow> gate_opened (calls_between w w')) \<and>
    (cancellation_before_start s \<longrightarrow> cancellation_observed s \<and> \<not> gate_opened (calls_between w w')) \<and>
    (cancellation_observed s \<and> \<not> cancellation_before_start s \<longrightarrow> gate_opened (calls_between w w')) \<and>
    (exec_confirmed s \<longrightarrow> gate_opened (calls_between w w') \<and> control_bytes s = [])"
  using gate.final [OF initial_invariants(1) assms] gate_calls.final [OF initial_invariants(3) assms]
  by (auto simp: gate_inv_def gate_history_def)

theorem start_gate_decides_witness:
  "\<exists>s w'. supervise scripted controlled_context pipes_open (start_world cancelled_script) = Some (s, w') \<and>
     cancellation_before_start s \<and> \<not> gate_opened (calls_between (start_world cancelled_script) w')"
proof -
  from cancelled_run obtain s w' where r: "supervise scripted controlled_context pipes_open (start_world cancelled_script) = Some (s, w')"
    and "cancellation_before_start s" by auto
  with start_gate_decides [OF r [unfolded pipes_open_def]] show ?thesis by blast
qed





text \<open>
  C17. Complete capture: when supervision returns without a capture failure, each captured
  stream is the concatenation of everything the reads of its pipe delivered, in order, up to
  and including an end of file.
\<close>

theorem captured_streams_exact:
  assumes "supervise K ctx (initial_supervision ofd efd cfd rfd sfd) w = Some (s, w')"
    and "ofd \<noteq> efd" "0 \<le> ofd" "0 \<le> efd"
  shows "output_material s = delivered ofd 16384 (calls_between w w') \<and>
    error_material s = delivered efd 16384 (calls_between w w') \<and>
    (\<not> capture_failed s \<longrightarrow> end_of_file ofd 16384 (calls_between w w') \<and> end_of_file efd 16384 (calls_between w w'))"
  using capture_calls.final [OF initial_invariants(5) assms(1)] assms(2-4)
  by (auto simp: capturing_def capture_history_def stream_exact_def running_def)

theorem captured_streams_exact_witness:
  "\<exists>s w'. supervise scripted ordinary_context pipes_open (start_world ordinary_script) = Some (s, w') \<and>
     delivered 10 16384 (calls_between (start_world ordinary_script) w') = [104, 105, 10] \<and>
     end_of_file 11 16384 (calls_between (start_world ordinary_script) w')"
proof -
  from ordinary_run obtain s w' where r: "supervise scripted ordinary_context pipes_open (start_world ordinary_script) = Some (s, w')"
    and o: "output_material s = [104, 105, 10]" "\<not> capture_failed s" by auto
  from captured_streams_exact [OF r [unfolded pipes_open_def]] o r show ?thesis by auto
qed

text \<open>
  C7. Supervision ends only with the leader reaped and every pipe closed. Under a
  cancellation token the leader is reaped only after group cleanup ended, and when that
  cleanup is not flagged as failed, a complete scan of \<open>/proc\<close> made during this supervision
  found no other member of the group; without a token, the group number was found unused.
\<close>

theorem cleanup_verified_by_scan:
  assumes "supervise K ctx (initial_supervision ofd efd cfd rfd sfd) w = Some (s, w')"
  shows "child_reaped s \<and> child_exited s \<and> si_pid (child_information s) \<noteq> 0 \<and>
    output_fd s < 0 \<and> error_fd s < 0 \<and> control_fd s < 0 \<and> ready_fd s < 0 \<and>
    (cancellation ctx \<longrightarrow> cleanup_complete s) \<and>
    (cleanup_complete s \<and> \<not> cleanup_failed s \<longrightarrow> group_verified K ctx w w')"
proof -
  from cleanup.final [OF initial_invariants(2) assms] have c: "cleanup_inv ctx s" and r: "\<not> running s" by auto
  from gate.final [OF initial_invariants(1) assms] have g: "gate_inv ctx s" by simp
  from cleanup_calls.final [OF initial_invariants(4) assms] have v: "verified_history K ctx w s w'" by simp
  have reaped: "child_reaped s" "output_fd s < 0" "error_fd s < 0" "control_fd s < 0" "ready_fd s < 0"
    using r by (simp_all add: running_def)
  have exited: "child_exited s" "cancellation ctx \<longrightarrow> cleanup_complete s"
    using c reaped(1) unfolding cleanup_inv_def by blast+
  have "si_pid (child_information s) \<noteq> 0" using g exited(1) by (simp add: gate_inv_def)
  with reaped exited v show ?thesis by (simp add: verified_history_def)
qed

theorem cleanup_verified_by_scan_witness:
  "\<exists>s w'. supervise scripted controlled_context pipes_open (start_world cancelled_script) = Some (s, w') \<and>
     child_reaped s \<and> group_verified scripted controlled_context (start_world cancelled_script) w'"
proof -
  from cancelled_run obtain s w' where r: "supervise scripted controlled_context pipes_open (start_world cancelled_script) = Some (s, w')"
    and "cleanup_complete s" "\<not> cleanup_failed s" by auto
  with cleanup_verified_by_scan [OF r [unfolded pipes_open_def]] show ?thesis by blast
qed

end
