(* ===== verification/Network_Isolation.thy ===== *)
theory Network_Isolation
  imports Wire
begin

text \<open>
  \<open>src/network_isolation.cpp\<close> and \<open>src/network_isolation.h\<close>: entering a private network
  namespace, reading and setting its links over a netlink socket, validating the established
  policy, and the probe. A received datagram is a buffer of bytes with the number of bytes the
  kernel wrote into it; messages are walked by offset, as the source does with a pointer and a
  remaining count.
\<close>

section \<open>Data\<close>

datatype network_policy = Network_allowed | Network_denied | Network_loopback_only

datatype network_setup_stage =
  Network_namespace | Link_inspection | Link_configuration | Policy_validation | Loopback_roundtrip

text \<open>The stage is the 32-bit value that travels through the pipe of the probe.\<close>

record network_setup_failure =
  network_stage :: u32
  network_error :: u32

definition network_stage_code :: "network_setup_stage \<Rightarrow> u32" where
  "network_stage_code stage =
     (case stage of Network_namespace \<Rightarrow> 0 | Link_inspection \<Rightarrow> 1 | Link_configuration \<Rightarrow> 2
      | Policy_validation \<Rightarrow> 3 | Loopback_roundtrip \<Rightarrow> 4)"

definition network_failure :: "network_setup_stage \<Rightarrow> int \<Rightarrow> network_setup_failure" where
  "network_failure stage e = \<lparr>network_stage = network_stage_code stage, network_error = word_of_int e\<rparr>"

definition network_stage_name :: "u32 \<Rightarrow> string" where
  "network_stage_name stage =
     (if stage = 0 then ''network namespace''
      else if stage = 1 then ''network link inspection''
      else if stage = 2 then ''loopback configuration''
      else if stage = 3 then ''network policy validation''
      else if stage = 4 then ''loopback round trip''
      else ''network isolation'')"

record link_snapshot =
  link_count :: u32
  loopback_count :: u32
  loopback_index :: int
  loopback_flags :: u32

definition empty_snapshot :: link_snapshot where
  "empty_snapshot = \<lparr>link_count = 0, loopback_count = 0, loopback_index = 0, loopback_flags = 0\<rparr>"

section \<open>Netlink messages\<close>

named_theorems netlink_defs "numeric constants of the netlink protocol"

definition NLMSG_ERROR :: u32 where [netlink_defs]: "NLMSG_ERROR = 2"
definition NLMSG_DONE :: u32 where [netlink_defs]: "NLMSG_DONE = 3"
definition RTM_NEWLINK :: u32 where [netlink_defs]: "RTM_NEWLINK = 16"
definition RTM_GETLINK :: u32 where [netlink_defs]: "RTM_GETLINK = 18"
definition NLM_F_REQUEST :: u32 where [netlink_defs]: "NLM_F_REQUEST = 1"
definition NLM_F_ACK :: u32 where [netlink_defs]: "NLM_F_ACK = 4"
definition NLM_F_DUMP :: u32 where [netlink_defs]: "NLM_F_DUMP = 0x300"
definition IFF_UP :: u32 where [netlink_defs]: "IFF_UP = 1"
definition IFF_LOOPBACK :: u32 where [netlink_defs]: "IFF_LOOPBACK = 8"

definition sizeof_nlmsghdr :: nat where [netlink_defs]: "sizeof_nlmsghdr = 16"
definition sizeof_nlmsgerr :: nat where [netlink_defs]: "sizeof_nlmsgerr = 20"
definition sizeof_ifinfomsg :: nat where [netlink_defs]: "sizeof_ifinfomsg = 16"

definition NLMSG_ALIGN :: "nat \<Rightarrow> nat" where
  "NLMSG_ALIGN n = (n + 3) div 4 * 4"

definition NLMSG_LENGTH :: "nat \<Rightarrow> nat" where
  "NLMSG_LENGTH n = sizeof_nlmsghdr + n"

text \<open>Fields of the message at an offset of the buffer.\<close>

definition u32_at :: "byte list \<Rightarrow> nat \<Rightarrow> u32" where
  "u32_at buffer i = u32_of_bytes (take 4 (drop i buffer))"

definition u16_at :: "byte list \<Rightarrow> nat \<Rightarrow> u32" where
  "u16_at buffer i = u32_of_bytes (take 2 (drop i buffer))"

definition nlmsg_len :: "byte list \<Rightarrow> nat \<Rightarrow> nat" where
  "nlmsg_len buffer header = unat (u32_at buffer header)"

definition nlmsg_type :: "byte list \<Rightarrow> nat \<Rightarrow> u32" where
  "nlmsg_type buffer header = u16_at buffer (header + 4)"

definition nlmsg_seq :: "byte list \<Rightarrow> nat \<Rightarrow> u32" where
  "nlmsg_seq buffer header = u32_at buffer (header + 8)"

definition nlmsgerr_error :: "byte list \<Rightarrow> nat \<Rightarrow> int" where
  "nlmsgerr_error buffer header = sint (u32_at buffer (header + 16))"

definition ifi_index :: "byte list \<Rightarrow> nat \<Rightarrow> int" where
  "ifi_index buffer header = sint (u32_at buffer (header + 20))"

definition ifi_flags :: "byte list \<Rightarrow> nat \<Rightarrow> u32" where
  "ifi_flags buffer header = u32_at buffer (header + 24)"

definition valid_netlink_message :: "byte list \<Rightarrow> nat \<Rightarrow> int \<Rightarrow> bool" where
  "valid_netlink_message buffer header remaining \<longleftrightarrow>
     remaining \<ge> int sizeof_nlmsghdr \<and> nlmsg_len buffer header \<ge> sizeof_nlmsghdr \<and>
     int (nlmsg_len buffer header) \<le> remaining"

text \<open>\<open>next_netlink_message\<close>: how far the header moves and the remaining count falls.\<close>

definition next_netlink_message :: "byte list \<Rightarrow> nat \<Rightarrow> int \<Rightarrow> nat \<times> int" where
  "next_netlink_message buffer header remaining =
     (let aligned = NLMSG_ALIGN (nlmsg_len buffer header) in (header + aligned, remaining - int aligned))"

lemma next_netlink_message_decreases:
  assumes "valid_netlink_message buffer header remaining"
  shows "nat (snd (next_netlink_message buffer header remaining)) < nat remaining"
proof -
  have "nlmsg_len buffer header \<le> NLMSG_ALIGN (nlmsg_len buffer header)" by (simp add: NLMSG_ALIGN_def)
  with assms show ?thesis
    by (auto simp: valid_netlink_message_def next_netlink_message_def Let_def sizeof_nlmsghdr_def)
qed

text \<open>The loop of \<open>receive_ack\<close> over one datagram.\<close>

datatype ack = No_ack | Acknowledged | Refused int

function scan_ack :: "u32 \<Rightarrow> byte list \<Rightarrow> nat \<Rightarrow> int \<Rightarrow> ack" where
  "scan_ack sequence buffer header remaining =
     (if \<not> valid_netlink_message buffer header remaining then No_ack
      else if nlmsg_seq buffer header \<noteq> sequence \<or> nlmsg_type buffer header \<noteq> NLMSG_ERROR
        then (let (header', remaining') = next_netlink_message buffer header remaining
              in scan_ack sequence buffer header' remaining')
      else if nlmsg_len buffer header < NLMSG_LENGTH sizeof_nlmsgerr then Refused EIO
      else if nlmsgerr_error buffer header = 0 then Acknowledged
      else Refused (- nlmsgerr_error buffer header))"
  by pat_completeness auto
termination
  by (relation "measure (\<lambda>(_, _, _, remaining). nat remaining)") (auto simp: case_prod_beta prod_eq_iff dest: next_netlink_message_decreases)

declare scan_ack.simps [simp del]

text \<open>The loop of \<open>inspect_links\<close> over one datagram.\<close>

datatype dump = More link_snapshot | Done link_snapshot | Dump_error int

definition count_link :: "byte list \<Rightarrow> nat \<Rightarrow> link_snapshot \<Rightarrow> link_snapshot" where
  "count_link buffer header snapshot =
     (let snapshot = snapshot\<lparr>link_count := link_count snapshot + 1\<rparr>
      in if ifi_flags buffer header AND IFF_LOOPBACK \<noteq> 0
         then snapshot\<lparr>loopback_count := loopback_count snapshot + 1,
                       loopback_index := ifi_index buffer header,
                       loopback_flags := ifi_flags buffer header\<rparr>
         else snapshot)"

function scan_links :: "u32 \<Rightarrow> byte list \<Rightarrow> nat \<Rightarrow> int \<Rightarrow> link_snapshot \<Rightarrow> dump" where
  "scan_links sequence buffer header remaining snapshot =
     (if \<not> valid_netlink_message buffer header remaining then More snapshot
      else let (header', remaining') = next_netlink_message buffer header remaining in
        if nlmsg_seq buffer header \<noteq> sequence then scan_links sequence buffer header' remaining' snapshot
        else if nlmsg_type buffer header = NLMSG_DONE then Done snapshot
        else if nlmsg_type buffer header = NLMSG_ERROR
          then Dump_error (if nlmsg_len buffer header < NLMSG_LENGTH sizeof_nlmsgerr \<or>
                              nlmsgerr_error buffer header = 0
                           then EIO else - nlmsgerr_error buffer header)
        else if nlmsg_type buffer header \<noteq> RTM_NEWLINK \<or>
                nlmsg_len buffer header < NLMSG_LENGTH sizeof_ifinfomsg
          then scan_links sequence buffer header' remaining' snapshot
        else scan_links sequence buffer header' remaining' (count_link buffer header snapshot))"
  by pat_completeness auto
termination
  by (relation "measure (\<lambda>(_, _, _, remaining, _). nat remaining)")
    (auto simp: case_prod_beta prod_eq_iff dest: next_netlink_message_decreases)

declare scan_links.simps [simp del]

text \<open>The request of \<open>inspect_links\<close> and \<open>set_link_up\<close>: header and \<open>ifinfomsg\<close>.\<close>

definition link_message :: "u32 \<Rightarrow> u32 \<Rightarrow> u32 \<Rightarrow> u32 \<Rightarrow> u32 \<Rightarrow> u32 \<Rightarrow> byte list" where
  "link_message type flags sequence index link_flags change =
     bytes_of_u32 (of_nat (NLMSG_LENGTH sizeof_ifinfomsg)) @ bytes_of_u16 (ucast type) @ bytes_of_u16 (ucast flags) @
     bytes_of_u32 sequence @ bytes_of_u32 0 @
     [0, 0] @ bytes_of_u16 0 @ bytes_of_u32 index @ bytes_of_u32 link_flags @ bytes_of_u32 change"

section \<open>Sockets\<close>

definition open_route_socket :: "'k kernel \<Rightarrow> 'k world \<Rightarrow> fd \<times> 'k world" where
  "open_route_socket K w =
     (let (fd, w) = syscall K (Net Socket_netlink) w in
      if fd < 0 then (-1, w)
      else let (n, w) = syscall K (Net (Bind_netlink fd)) w in
        if n \<noteq> 0 then (-1, reset_fd K fd w) else (fd, w))"

definition send_netlink :: "'k kernel \<Rightarrow> fd \<Rightarrow> byte list \<Rightarrow> 'k world \<Rightarrow> (bool \<times> 'k world) option" where
  "send_netlink K fd message w =
     do { (r, w) \<leftarrow> retry_eintr K (Net (Sendto_kernel fd message)) w;
          Some (if ret r = int (length message) then (True, w)
                else (False, if ret r \<ge> 0 then set_errno EIO w else w)) }"

text \<open>What a receive leaves in the buffer: the new bytes over the old ones.\<close>

definition overlay :: "byte list \<Rightarrow> byte list \<Rightarrow> byte list" where
  "overlay received buffer = received @ drop (length received) buffer"

partial_function (option) receive_ack ::
  "'k kernel \<Rightarrow> fd \<Rightarrow> u32 \<Rightarrow> byte list \<Rightarrow> 'k world \<Rightarrow> (bool \<times> 'k world) option" where
  "receive_ack K fd sequence buffer w =
     do { (r, w) \<leftarrow> retry_eintr K (Net (Recv fd 8192)) w;
          if ret r \<le> 0 then Some (False, if ret r = 0 then set_errno EIO w else w)
          else case scan_ack sequence (overlay (reply_bytes r) buffer) 0 (ret r) of
                 No_ack \<Rightarrow> receive_ack K fd sequence (overlay (reply_bytes r) buffer) w
               | Acknowledged \<Rightarrow> Some (True, w)
               | Refused e \<Rightarrow> Some (False, set_errno e w) }"

declare receive_ack.simps [code]

partial_function (option) receive_dump ::
  "'k kernel \<Rightarrow> fd \<Rightarrow> u32 \<Rightarrow> byte list \<Rightarrow> link_snapshot \<Rightarrow> 'k world \<Rightarrow>
   (link_snapshot option \<times> 'k world) option" where
  "receive_dump K fd sequence buffer snapshot w =
     do { (r, w) \<leftarrow> retry_eintr K (Net (Recv fd 16384)) w;
          if ret r \<le> 0 then Some (None, if ret r = 0 then set_errno EIO w else w)
          else case scan_links sequence (overlay (reply_bytes r) buffer) 0 (ret r) snapshot of
                 More snapshot \<Rightarrow> receive_dump K fd sequence (overlay (reply_bytes r) buffer) snapshot w
               | Done snapshot \<Rightarrow> Some (Some snapshot, w)
               | Dump_error e \<Rightarrow> Some (None, set_errno e w) }"

declare receive_dump.simps [code]

text \<open>\<open>Some snapshot\<close> is the result \<open>true\<close> with the snapshot filled in.\<close>

definition inspect_links :: "'k kernel \<Rightarrow> fd \<Rightarrow> 'k world \<Rightarrow> (link_snapshot option \<times> 'k world) option" where
  "inspect_links K fd w =
     do { (sent, w) \<leftarrow> send_netlink K fd (link_message RTM_GETLINK (NLM_F_REQUEST OR NLM_F_DUMP) 1 0 0 0) w;
          if \<not> sent then Some (None, w)
          else receive_dump K fd 1 (replicate 16384 0) empty_snapshot w }"

definition set_link_up :: "'k kernel \<Rightarrow> fd \<Rightarrow> int \<Rightarrow> bool \<Rightarrow> 'k world \<Rightarrow> (bool \<times> 'k world) option" where
  "set_link_up K fd index up w =
     do { (sent, w) \<leftarrow> send_netlink K fd (link_message RTM_NEWLINK (NLM_F_REQUEST OR NLM_F_ACK) 2
            (word_of_int index) (if up then IFF_UP else 0) IFF_UP) w;
          if \<not> sent then Some (False, w) else receive_ack K fd 2 (replicate 8192 0) w }"

section \<open>Policies\<close>

definition single_loopback :: "link_snapshot \<Rightarrow> bool" where
  "single_loopback snapshot \<longleftrightarrow>
     \<not> (link_count snapshot \<noteq> 1 \<or> loopback_count snapshot \<noteq> 1 \<or> loopback_index snapshot \<le> 0)"

definition snapshot_matches :: "link_snapshot \<Rightarrow> network_policy \<Rightarrow> bool" where
  "snapshot_matches snapshot policy =
     (if \<not> single_loopback snapshot then False
      else let loopback_up = (loopback_flags snapshot AND IFF_UP \<noteq> 0)
           in if policy = Network_loopback_only then loopback_up else \<not> loopback_up)"

text \<open>The part of \<open>setup_network_policy\<close> that runs with the route socket open.\<close>

definition configure_links ::
  "'k kernel \<Rightarrow> network_policy \<Rightarrow> fd \<Rightarrow> 'k world \<Rightarrow> (network_setup_failure option \<times> 'k world) option" where
  "configure_links K policy route w =
     do { (initial, w) \<leftarrow> inspect_links K route w;
          case initial of
            None \<Rightarrow> Some (Some (network_failure Link_inspection (errno w)), w)
          | Some initial \<Rightarrow>
              if \<not> single_loopback initial then Some (Some (network_failure Policy_validation ENODEV), w)
              else do {
                (configured, w) \<leftarrow> set_link_up K route (loopback_index initial) (policy = Network_loopback_only) w;
                if \<not> configured then Some (Some (network_failure Link_configuration (errno w)), w)
                else do {
                  (established, w) \<leftarrow> inspect_links K route w;
                  case established of
                    None \<Rightarrow> Some (Some (network_failure Link_inspection (errno w)), w)
                  | Some established \<Rightarrow>
                      Some (if \<not> snapshot_matches established policy
                            then Some (network_failure Policy_validation EIO) else None, w) } } }"

definition setup_network_policy ::
  "'k kernel \<Rightarrow> network_policy \<Rightarrow> 'k world \<Rightarrow> (network_setup_failure option \<times> 'k world) option" where
  "setup_network_policy K policy w =
     (if policy = Network_allowed then Some (None, w)
      else let (n, w) = syscall K (Mnt (Unshare CLONE_NEWNET)) w in
        if n \<noteq> 0 then Some (Some (network_failure Network_namespace (errno w)), w)
        else let (route, w) = open_route_socket K w in
          if route < 0 then Some (Some (network_failure Link_inspection (errno w)), w)
          else do { (f, w) \<leftarrow> configure_links K policy route w; Some (f, reset_fd K route w) })"

section \<open>The probe\<close>

text \<open>The descriptors that are open when \<open>loopback_roundtrip\<close> returns are closed, last first.\<close>

definition loopback_exchange :: "'k kernel \<Rightarrow> fd \<Rightarrow> fd \<Rightarrow> 'k world \<Rightarrow> bool \<times> 'k world" where
  "loopback_exchange K client accepted_fd w =
     (let (sent, w) = syscall K (Net (Send_byte client 110)) w in
      if sent \<noteq> 1 then (False, set_errno EIO w)
      else let (r, w) = invoke K (Net (Recv_byte accepted_fd)) w in
        if ret r \<noteq> 1 \<or> read_data r \<noteq> [110] then (False, set_errno EIO w) else (True, w))"

definition loopback_connect :: "'k kernel \<Rightarrow> fd \<Rightarrow> 'k world \<Rightarrow> bool \<times> 'k world" where
  "loopback_connect K listener w =
     (let (client, w) = syscall K (Net Socket_stream) w in
      if client < 0 then (False, w)
      else let (n, w) = syscall K (Net (Connect client)) w in
        if n \<noteq> 0 then (False, reset_fd K client w)
        else let (accepted_fd, w) = syscall K (Net (Accept4 listener)) w in
          if accepted_fd < 0 then (False, reset_fd K client w)
          else let (ok, w) = loopback_exchange K client accepted_fd w
               in (ok, reset_fd K client (reset_fd K accepted_fd w)))"

definition loopback_roundtrip :: "'k kernel \<Rightarrow> 'k world \<Rightarrow> bool \<times> 'k world" where
  "loopback_roundtrip K w =
     (let (listener, w) = syscall K (Net Socket_stream) w in
      if listener < 0 then (False, w)
      else let (n, w) = syscall K (Net (Bind_loopback listener)) w in
        if n \<noteq> 0 then (False, reset_fd K listener w)
        else let (n, w) = syscall K (Net (Listen listener)) w in
          if n \<noteq> 0 then (False, reset_fd K listener w)
          else let (n, w) = syscall K (Net (Getsockname listener)) w in
            if n \<noteq> 0 then (False, reset_fd K listener w)
            else let (ok, w) = loopback_connect K listener w in (ok, reset_fd K listener w))"

definition sizeof_network_failure :: nat where "sizeof_network_failure = 8"

definition network_failure_bytes :: "network_setup_failure \<Rightarrow> byte list" where
  "network_failure_bytes f = bytes_of_u32 (network_stage f) @ bytes_of_u32 (network_error f)"

definition network_failure_of_bytes :: "byte list \<Rightarrow> network_setup_failure" where
  "network_failure_of_bytes bs =
     \<lparr>network_stage = u32_of_bytes (take 4 bs), network_error = u32_of_bytes (take 4 (drop 4 bs))\<rparr>"

definition write_failure :: "'k kernel \<Rightarrow> fd \<Rightarrow> network_setup_failure \<Rightarrow> 'k world \<Rightarrow> 'k world option" where
  "write_failure K fd failure w = write_record K fd (network_failure_bytes failure) w"

definition network_probe_child ::
  "'k kernel \<Rightarrow> network_policy \<Rightarrow> fd \<Rightarrow> fd \<Rightarrow> 'k world \<Rightarrow> (int \<times> 'k world) option" where
  "network_probe_child K policy report0 report1 w =
     do { let w = snd (syscall K (Fd (Close report0)) w);
          (f, w) \<leftarrow> setup_network_policy K policy w;
          case f of
            Some failure \<Rightarrow> do { w \<leftarrow> write_failure K report1 failure w; Some (1, w) }
          | None \<Rightarrow>
              let (ok, w) = (if policy = Network_loopback_only then loopback_roundtrip K w else (True, w)) in
              if \<not> ok
              then do { w \<leftarrow> write_failure K report1
                          (network_failure Loopback_roundtrip (if errno w = 0 then EIO else errno w)) w;
                        Some (1, w) }
              else Some (0, snd (syscall K (Fd (Close report1)) w)) }"

definition network_probe_parent ::
  "'k kernel \<Rightarrow> pid \<Rightarrow> fd \<Rightarrow> fd \<Rightarrow> 'k world \<Rightarrow> (network_setup_failure option \<times> 'k world) option" where
  "network_probe_parent K child report0 report1 w =
     do { let w = snd (syscall K (Fd (Close report1)) w);
          (bytes, w) \<leftarrow> read_record K report0 sizeof_network_failure [] w;
          let w = snd (syscall K (Fd (Close report0)) w);
          (waited, status, w) \<leftarrow> waitpid_retry K child w;
          Some (if waited \<noteq> child
                then Some (network_failure Policy_validation (if errno w = 0 then ECHILD else errno w))
                else if WIFEXITED status \<and> WEXITSTATUS status = 0 \<and> bytes = [] then None
                else if length bytes = sizeof_network_failure then Some (network_failure_of_bytes bytes)
                else Some (network_failure Policy_validation EIO), w) }"

text \<open>\<open>Returned None\<close> is the result \<open>true\<close> in the parent.\<close>

definition probe_network_policy ::
  "'k kernel \<Rightarrow> network_policy \<Rightarrow> 'k world \<Rightarrow> (network_setup_failure option outcome \<times> 'k world) option" where
  "probe_network_policy K policy w =
     (if policy = Network_allowed then Some (Returned None, w)
      else let (r, w) = invoke K (Fd Pipe2) w in
        if ret r \<noteq> 0 then Some (Returned (Some (network_failure Network_namespace (errno w))), w)
        else let (report0, report1) = (case out r of Fd_pair a b \<Rightarrow> (a, b) | _ \<Rightarrow> (-1, -1));
                 (child, w) = syscall K (Proc Fork) w in
          if child < 0
          then let f = network_failure Network_namespace (errno w);
                   w = snd (syscall K (Fd (Close report0)) w);
                   w = snd (syscall K (Fd (Close report1)) w)
               in Some (Returned (Some f), w)
          else if child = 0
          then do { (code, w) \<leftarrow> network_probe_child K policy report0 report1 w; Some (Exited code, w) }
          else do { (f, w) \<leftarrow> network_probe_parent K child report0 report1 w; Some (Returned f, w) })"

section \<open>Bounds: only received bytes are read\<close>

lemma u32_at_agree:
  assumes "take n b = take n b'" "i + 4 \<le> n"
  shows "u32_at b i = u32_at b' i"
proof -
  have "take (4 + i) (take n b) = take (4 + i) (take n b')" using assms(1) by simp
  then have "take (4 + i) b = take (4 + i) b'" using assms(2) by (simp add: min_absorb1)
  then show ?thesis by (simp add: u32_at_def take_drop)
qed

lemma u16_at_agree:
  assumes "take n b = take n b'" "i + 2 \<le> n"
  shows "u16_at b i = u16_at b' i"
proof -
  have "take (2 + i) (take n b) = take (2 + i) (take n b')" using assms(1) by simp
  then have "take (2 + i) b = take (2 + i) b'" using assms(2) by (simp add: min_absorb1)
  then show ?thesis by (simp add: u16_at_def take_drop)
qed

lemma valid_agree:
  assumes "take n b = take n b'" "int header + remaining \<le> int n"
  shows "valid_netlink_message b header remaining = valid_netlink_message b' header remaining"
proof (cases "remaining \<ge> int sizeof_nlmsghdr")
  case True
  with assms(2) have "header + 4 \<le> n" by (simp add: sizeof_nlmsghdr_def)
  then have "nlmsg_len b header = nlmsg_len b' header"
    by (simp add: nlmsg_len_def u32_at_agree [OF assms(1)])
  then show ?thesis by (simp add: valid_netlink_message_def)
qed (simp add: valid_netlink_message_def)

lemma header_agree:
  assumes "take n b = take n b'" "int header + remaining \<le> int n" "valid_netlink_message b header remaining"
  shows "nlmsg_len b header = nlmsg_len b' header" "nlmsg_type b header = nlmsg_type b' header"
    "nlmsg_seq b header = nlmsg_seq b' header"
    "next_netlink_message b header remaining = next_netlink_message b' header remaining"
    "nlmsg_len b header \<ge> 36 \<Longrightarrow> nlmsgerr_error b header = nlmsgerr_error b' header"
    "nlmsg_len b header \<ge> 32 \<Longrightarrow> count_link b header s = count_link b' header s"
proof -
  have n: "header + 16 \<le> n" "header + nlmsg_len b header \<le> n"
    using assms(2,3) by (auto simp: valid_netlink_message_def sizeof_nlmsghdr_def)
  show l: "nlmsg_len b header = nlmsg_len b' header"
    using n by (simp add: nlmsg_len_def u32_at_agree [OF assms(1)])
  show "nlmsg_type b header = nlmsg_type b' header"
    using n u16_at_agree [OF assms(1), of "header + 4"] by (simp add: nlmsg_type_def)
  show "nlmsg_seq b header = nlmsg_seq b' header"
    using n u32_at_agree [OF assms(1), of "header + 8"] by (simp add: nlmsg_seq_def)
  show "next_netlink_message b header remaining = next_netlink_message b' header remaining"
    using l by (simp add: next_netlink_message_def)
  show "nlmsgerr_error b header = nlmsgerr_error b' header" if "nlmsg_len b header \<ge> 36"
    using that n u32_at_agree [OF assms(1), of "header + 16"] by (simp add: nlmsgerr_error_def)
  show "count_link b header s = count_link b' header s" if "nlmsg_len b header \<ge> 32"
  proof -
    have "ifi_index b header = ifi_index b' header" "ifi_flags b header = ifi_flags b' header"
      using that n u32_at_agree [OF assms(1), of "header + 20"] u32_at_agree [OF assms(1), of "header + 24"]
      by (simp_all add: ifi_flags_def ifi_index_def)
    then show ?thesis by (simp add: count_link_def Let_def)
  qed
qed

lemma next_stays_inside:
  assumes "int header + remaining \<le> int n"
    and "next_netlink_message b header remaining = (header', remaining')"
  shows "int header' + remaining' \<le> int n"
  using assms by (auto simp: next_netlink_message_def Let_def)

lemma scan_ack_agree:
  assumes "take n b = take n b'" "int header + remaining \<le> int n"
  shows "scan_ack sequence b header remaining = scan_ack sequence b' header remaining"
  using assms
proof (induction sequence b header remaining rule: scan_ack.induct)
  case (1 sequence b header remaining)
  show ?case
  proof (cases "valid_netlink_message b header remaining")
    case False
    then show ?thesis using valid_agree [OF 1(2,3)] by (simp add: scan_ack.simps)
  next
    case True
    note h = header_agree [OF 1(2,3) True]
    obtain hd' re' where nx: "next_netlink_message b header remaining = (hd', re')" by fastforce
    have r: "scan_ack sequence b hd' re' = scan_ack sequence b' hd' re'"
      if "nlmsg_seq b header \<noteq> sequence \<or> nlmsg_type b header \<noteq> NLMSG_ERROR"
      using 1(1) [OF _ that nx [symmetric] refl 1(2)] True next_stays_inside [OF 1(3) nx] by simp
    show ?thesis
      using r h(1-3,5) nx h(4) [unfolded nx, symmetric] True valid_agree [OF 1(2,3)]
      by (subst (1 2) scan_ack.simps) (auto simp: NLMSG_LENGTH_def netlink_defs)
  qed
qed

lemma scan_links_agree:
  assumes "take n b = take n b'" "int header + remaining \<le> int n"
  shows "scan_links sequence b header remaining s = scan_links sequence b' header remaining s"
  using assms
proof (induction sequence b header remaining s rule: scan_links.induct)
  case (1 sequence b header remaining s)
  show ?case
  proof (cases "valid_netlink_message b header remaining")
    case False
    then show ?thesis using valid_agree [OF 1(4,5)] by (simp add: scan_links.simps)
  next
    case True
    note h = header_agree [OF 1(4,5) True]
    obtain hd' re' where nx: "next_netlink_message b header remaining = (hd', re')" by fastforce
    note ins = next_stays_inside [OF 1(5) nx]
    note IH = 1(1-3)
    show ?thesis
      using IH [OF _ nx [symmetric] refl] ins 1(4) h(1-3,5,6) nx h(4) [unfolded nx, symmetric] True valid_agree [OF 1(4,5)]
      by (subst (1 2) scan_links.simps) (auto simp add: NLMSG_LENGTH_def netlink_defs)
  qed
qed

section \<open>Decoding a dump\<close>

text \<open>
  What the kernel sends in answer to a dump request: one \<open>RTM_NEWLINK\<close> message for each link of
  the namespace, with the interface index, the flags and attributes, and \<open>NLMSG_DONE\<close> at the
  end, in one datagram or several.
\<close>

type_synonym link = "u32 \<times> u32 \<times> byte list"

definition padded :: "byte list \<Rightarrow> byte list" where
  "padded bs = bs @ replicate ((4 - length bs mod 4) mod 4) 0"

definition newlink :: "u32 \<Rightarrow> link \<Rightarrow> byte list" where
  "newlink sequence l =
     (case l of (index, flags, attributes) \<Rightarrow>
        padded (bytes_of_u32 (of_nat (NLMSG_LENGTH sizeof_ifinfomsg + length attributes)) @
          bytes_of_u16 (ucast RTM_NEWLINK) @ bytes_of_u16 2 @ bytes_of_u32 sequence @ bytes_of_u32 0 @
          [0, 0] @ bytes_of_u16 0 @ bytes_of_u32 index @ bytes_of_u32 flags @ bytes_of_u32 0 @ attributes))"

definition dump_done :: "u32 \<Rightarrow> byte list" where
  "dump_done sequence =
     bytes_of_u32 20 @ bytes_of_u16 (ucast NLMSG_DONE) @ bytes_of_u16 2 @ bytes_of_u32 sequence @
     bytes_of_u32 0 @ bytes_of_u32 0"

definition link_datagram :: "u32 \<Rightarrow> link list \<Rightarrow> byte list" where
  "link_datagram sequence links = concat (map (newlink sequence) links)"

definition dump_datagrams :: "u32 \<Rightarrow> link list list \<Rightarrow> link list \<Rightarrow> byte list list" where
  "dump_datagrams sequence groups final =
     map (link_datagram sequence) groups @ [link_datagram sequence final @ dump_done sequence]"

definition well_sized :: "link list \<Rightarrow> bool" where
  "well_sized links = list_all (\<lambda>(index, flags, attributes). length attributes < 16384) links"

fun add_link :: "link \<Rightarrow> link_snapshot \<Rightarrow> link_snapshot" where
  "add_link (index, flags, attributes) s =
     (let s = s\<lparr>link_count := link_count s + 1\<rparr>
      in if flags AND IFF_LOOPBACK \<noteq> 0
         then s\<lparr>loopback_count := loopback_count s + 1, loopback_index := sint index, loopback_flags := flags\<rparr>
         else s)"

text \<open>The receive loop of \<open>inspect_links\<close> on the datagrams alone: the count and the bytes of each.\<close>

fun decode_dump :: "u32 \<Rightarrow> byte list \<Rightarrow> link_snapshot \<Rightarrow> (int \<times> byte list) list \<Rightarrow> dump" where
  "decode_dump sequence buffer snapshot [] = More snapshot"
| "decode_dump sequence buffer snapshot ((received, d) # ds) =
     (case scan_links sequence (overlay d buffer) 0 received snapshot of
        More snapshot \<Rightarrow> decode_dump sequence (overlay d buffer) snapshot ds
      | Done snapshot \<Rightarrow> Done snapshot
      | Dump_error e \<Rightarrow> Dump_error e)"

lemma length_padded: "n + (4 - n mod 4) mod 4 = NLMSG_ALIGN n"
proof -
  consider "n mod 4 = 0" | "n mod 4 = 1" | "n mod 4 = 2" | "n mod 4 = 3" by linarith
  then show ?thesis
    unfolding NLMSG_ALIGN_def by cases (simp_all, (presburger+)?)
qed

lemma field_shift:
  "u32_at (p @ b) (length p + i) = u32_at b i" "u16_at (p @ b) (length p + i) = u16_at b i"
  by (simp_all add: u32_at_def u16_at_def)

lemma header_shift:
  "nlmsg_len (p @ b) (length p + h) = nlmsg_len b h" "nlmsg_type (p @ b) (length p + h) = nlmsg_type b h"
  "nlmsg_seq (p @ b) (length p + h) = nlmsg_seq b h" "nlmsgerr_error (p @ b) (length p + h) = nlmsgerr_error b h"
  "ifi_index (p @ b) (length p + h) = ifi_index b h" "ifi_flags (p @ b) (length p + h) = ifi_flags b h"
  using field_shift [of p b "h + 4"] field_shift [of p b "h + 8"] field_shift [of p b "h + 16"]
    field_shift [of p b "h + 20"] field_shift [of p b "h + 24"]
  by (simp_all add: nlmsg_len_def nlmsg_type_def nlmsg_seq_def nlmsgerr_error_def ifi_index_def ifi_flags_def
      field_shift add.assoc)

lemma message_shift:
  "valid_netlink_message (p @ b) (length p + h) r = valid_netlink_message b h r"
  "next_netlink_message (p @ b) (length p + h) r = apfst ((+) (length p)) (next_netlink_message b h r)"
  "count_link (p @ b) (length p + h) s = count_link b h s"
  by (simp_all add: valid_netlink_message_def next_netlink_message_def count_link_def header_shift Let_def)

lemma scan_links_shift: "scan_links sequence (p @ b) (length p + h) r s = scan_links sequence b h r s"
proof (induction sequence b h r s rule: scan_links.induct)
  case (1 sequence b h r s)
  obtain h' r' where nx: "next_netlink_message b h r = (h', r')" by fastforce
  note IH = 1 [OF _ nx [symmetric] refl]
  show ?case
    using IH nx
    by (subst (1 2) scan_links.simps) (simp add: message_shift header_shift)
qed

lemma newlink_fields:
  fixes sequence index flags :: u32
  assumes "length attributes < 16384"
  defines "m \<equiv> newlink sequence (index, flags, attributes)"
  shows "nlmsg_len (m @ t) 0 = 32 + length attributes" "nlmsg_type (m @ t) 0 = RTM_NEWLINK"
    "nlmsg_seq (m @ t) 0 = sequence" "ifi_index (m @ t) 0 = sint index" "ifi_flags (m @ t) 0 = flags"
    "length m = NLMSG_ALIGN (32 + length attributes)"
proof -
  have "unat (of_nat (32 + length attributes) :: u32) = 32 + length attributes"
    using assms(1) by (simp add: unat_of_nat del: of_nat_add of_nat_numeral)
  then show "nlmsg_len (m @ t) 0 = 32 + length attributes"
    by (simp add: m_def newlink_def padded_def nlmsg_len_def u32_at_def NLMSG_LENGTH_def
        sizeof_nlmsghdr_def sizeof_ifinfomsg_def)
  show "nlmsg_type (m @ t) 0 = RTM_NEWLINK" "nlmsg_seq (m @ t) 0 = sequence"
    "ifi_index (m @ t) 0 = sint index" "ifi_flags (m @ t) 0 = flags"
    by (simp_all add: m_def newlink_def padded_def nlmsg_type_def nlmsg_seq_def ifi_index_def ifi_flags_def
        u32_at_def u16_at_def RTM_NEWLINK_def)
  from length_padded [of "32 + length attributes"] show "length m = NLMSG_ALIGN (32 + length attributes)"
    by (simp add: m_def newlink_def padded_def)
qed

lemma scan_newlink:
  fixes sequence index flags :: u32
  assumes "length attributes < 16384" "0 \<le> r"
  defines "m \<equiv> newlink sequence (index, flags, attributes)"
  shows "scan_links sequence (m @ t) 0 (int (length m) + r) s = scan_links sequence t 0 r (add_link (index, flags, attributes) s)"
proof -
  note f = newlink_fields [OF assms(1), of sequence index flags, folded m_def]
  have "32 + length attributes \<le> length m" using f(6) by (simp add: NLMSG_ALIGN_def)
  with assms(2) have v: "valid_netlink_message (m @ t) 0 (int (length m) + r)"
    by (simp add: valid_netlink_message_def f sizeof_nlmsghdr_def)
  have n: "next_netlink_message (m @ t) 0 (int (length m) + r) = (length m, r)"
    by (simp add: next_netlink_message_def f Let_def)
  have c: "count_link (m @ t) 0 s = add_link (index, flags, attributes) s"
    by (simp add: count_link_def f Let_def)
  show ?thesis
    using v n c scan_links_shift [of sequence m t 0]
    by (subst scan_links.simps) (simp add: f NLMSG_LENGTH_def netlink_defs)
qed

lemma scan_link_datagram:
  assumes "well_sized links" "0 \<le> r"
  shows "scan_links sequence (link_datagram sequence links @ t) 0 (int (length (link_datagram sequence links)) + r) s
    = scan_links sequence t 0 r (fold add_link links s)"
  using assms(1)
proof (induction links arbitrary: s)
  case (Cons l links)
  obtain index flags attributes where l: "l = (index, flags, attributes)" by (cases l)
  with Cons.prems have a: "length attributes < 16384" and w: "well_sized links" by (simp_all add: well_sized_def)
  have "0 \<le> int (length (link_datagram sequence links)) + r" using assms(2) by simp
  from scan_newlink [OF a this, of sequence index flags "link_datagram sequence links @ t" s] Cons.IH [OF w]
  show ?case by (simp add: l link_datagram_def add.assoc)
qed (simp add: link_datagram_def)

lemma scan_exhausted: "scan_links sequence b 0 0 s = More s"
  by (subst scan_links.simps) (simp add: valid_netlink_message_def sizeof_nlmsghdr_def)

lemma scan_dump_done: "scan_links sequence (dump_done sequence @ t) 0 20 s = Done s"
proof -
  have f: "nlmsg_len (dump_done sequence @ t) 0 = 20" "nlmsg_seq (dump_done sequence @ t) 0 = sequence"
    "nlmsg_type (dump_done sequence @ t) 0 = NLMSG_DONE"
    by (simp_all add: dump_done_def nlmsg_len_def nlmsg_type_def nlmsg_seq_def u32_at_def u16_at_def NLMSG_DONE_def)
  show ?thesis
    by (subst scan_links.simps) (simp add: valid_netlink_message_def f sizeof_nlmsghdr_def case_prod_beta)
qed

definition sized :: "byte list \<Rightarrow> int \<times> byte list" where
  "sized d = (int (length d), d)"

lemma decode_dump_datagrams:
  assumes "list_all well_sized groups" "well_sized final"
  shows "decode_dump sequence buffer s (map sized (dump_datagrams sequence groups final)) =
    Done (fold add_link (concat groups @ final) s)"
  using assms(1)
proof (induction groups arbitrary: buffer s)
  case Nil
  have "length (dump_done sequence) = 20" by (simp add: dump_done_def)
  then show ?case
    using scan_link_datagram [OF assms(2), of 20 sequence "dump_done sequence @ drop (length (link_datagram sequence final) + 20) buffer" s]
    by (simp add: dump_datagrams_def sized_def overlay_def scan_dump_done)
next
  case (Cons g groups)
  then have "well_sized g" "list_all well_sized groups" by simp_all
  from scan_link_datagram [OF this(1), of 0 sequence] Cons.IH [OF this(2)] show ?case
    by (simp add: dump_datagrams_def sized_def overlay_def scan_exhausted)
qed

lemma fold_add_link_count: "link_count (fold add_link links s) = link_count s + of_nat (length links)"
  by (induction links arbitrary: s) (auto simp: Let_def)

lemma snapshot_matches_links:
  assumes "length links < 2 ^ 32"
  shows "snapshot_matches (fold add_link links empty_snapshot) policy \<longleftrightarrow>
    (\<exists>index flags attributes. links = [(index, flags, attributes)] \<and> flags AND IFF_LOOPBACK \<noteq> 0 \<and> 0 < sint index \<and>
       (flags AND IFF_UP \<noteq> 0) = (policy = Network_loopback_only))"
proof (cases "length links = 1")
  case True
  then obtain index flags attributes where "links = [(index, flags, attributes)]"
    by (cases links; cases "hd links") auto
  then show ?thesis
    by (auto simp: snapshot_matches_def single_loopback_def empty_snapshot_def Let_def)
next
  case False
  have "link_count (fold add_link links empty_snapshot) \<noteq> 1"
  proof
    assume "link_count (fold add_link links empty_snapshot) = 1"
    then have "(of_nat (length links) :: u32) = of_nat 1"
      by (simp add: fold_add_link_count empty_snapshot_def)
    then have "unat (of_nat (length links) :: u32) = 1" by simp
    then show False using False assms by (simp add: unat_of_nat)
  qed
  with False show ?thesis by (auto simp: snapshot_matches_def single_loopback_def)
qed

section \<open>Properties of the scans\<close>

text \<open>
  C20. Reading a dump and checking it against a policy is exact: whatever way the kernel groups the
  link messages into datagrams, and whatever attributes they carry, the snapshot is accepted if
  and only if the namespace has one link, that link is the loopback with a positive index, and it
  is up exactly when the policy is \<open>loopback_only\<close>.
\<close>

theorem dump_accepts_exactly_policy:
  assumes "list_all well_sized groups" "well_sized final" "length (concat groups @ final) < 2 ^ 32"
  shows "\<exists>s. decode_dump sequence buffer empty_snapshot (map sized (dump_datagrams sequence groups final)) = Done s \<and>
    (snapshot_matches s policy \<longleftrightarrow>
      (\<exists>index flags attributes. concat groups @ final = [(index, flags, attributes)] \<and>
         flags AND IFF_LOOPBACK \<noteq> 0 \<and> 0 < sint index \<and> (flags AND IFF_UP \<noteq> 0) = (policy = Network_loopback_only)))"
  by (rule exI [where x = "fold add_link (concat groups @ final) empty_snapshot"])
    (simp only: decode_dump_datagrams [OF assms(1,2)] snapshot_matches_links [OF assms(3)])

theorem dump_accepts_exactly_policy_witness:
  "\<exists>s. decode_dump 1 [] empty_snapshot (map sized (dump_datagrams 1 [[(1, 9, [0, 1])]] [])) = Done s \<and>
    snapshot_matches s Network_loopback_only"
  using dump_accepts_exactly_policy [of "[[(1, 9, [0, 1])]]" "[]" 1 "[]" Network_loopback_only]
  by (auto simp: well_sized_def IFF_LOOPBACK_def IFF_UP_def)

text \<open>
  C32. The scans of a datagram read nothing but what was received: bytes of the buffer beyond the
  count that \<open>recv\<close> returned, left there by an earlier datagram, do not influence the
  result, whatever lengths the received messages claim.
\<close>

theorem scans_read_only_received:
  "scan_ack sequence (received_bytes @ stale) 0 (int (length received_bytes)) =
     scan_ack sequence (received_bytes @ stale') 0 (int (length received_bytes)) \<and>
   scan_links sequence (received_bytes @ stale) 0 (int (length received_bytes)) s =
     scan_links sequence (received_bytes @ stale') 0 (int (length received_bytes)) s"
  by (intro conjI scan_ack_agree [where n = "length received_bytes"] scan_links_agree [where n = "length received_bytes"])
    simp_all

end
