(* ===== verification/Resource_Limits.thy ===== *)
theory Resource_Limits
  imports Process_Control
begin

text \<open>
  \<open>src/resource_limits.cpp\<close> and \<open>src/resource_limits.h\<close>: installing exact soft and hard
  limits, and the probe that decides whether a kind of limit is advertised. \<open>rlim_t\<close> is a
  64-bit word on the supported platform, so the range test of \<open>exact_value\<close> for a narrower
  \<open>rlim_t\<close> is compiled away.
\<close>

section \<open>Data\<close>

datatype resource_limit_setup_stage = Stage_address_space | Stage_file_size | Stage_open_files

record resource_limit_setup_failure =
  limit_stage :: resource_limit_setup_stage
  limit_error :: int

text \<open>\<open>pkgexec::resource_limits\<close>, as far as the source reads it.\<close>

record resource_limits =
  cpu_time_milliseconds :: "u64 option"
  address_space_bytes :: "u64 option"
  file_size_bytes :: "u64 option"
  open_files :: "u64 option"
  process_count :: "u64 option"

definition limits_empty :: "resource_limits \<Rightarrow> bool" where
  "limits_empty l \<longleftrightarrow> cpu_time_milliseconds l = None \<and> address_space_bytes l = None \<and>
     file_size_bytes l = None \<and> open_files l = None \<and> process_count l = None"

datatype resource_limit_kind = Kind_address_space | Kind_file_size | Kind_open_files

definition RLIM_INFINITY :: u64 where "RLIM_INFINITY = - 1"

section \<open>Installing limits\<close>

definition exact_value :: "u64 \<Rightarrow> 'k world \<Rightarrow> u64 option \<times> 'k world" where
  "exact_value value w =
     (if value = RLIM_INFINITY then (None, set_errno EOVERFLOW w) else (Some value, w))"

definition getrlimit :: "'k kernel \<Rightarrow> rlimit_resource \<Rightarrow> 'k world \<Rightarrow> int \<times> rlimit \<times> 'k world" where
  "getrlimit K resource w =
     (let (r, w) = invoke K (Ctl (Getrlimit resource)) w
      in (ret r, case out r of Rlimit_data l \<Rightarrow> l | _ \<Rightarrow> zero_rlimit, w))"

definition setrlimit :: "'k kernel \<Rightarrow> rlimit_resource \<Rightarrow> rlimit \<Rightarrow> 'k world \<Rightarrow> int \<times> 'k world" where
  "setrlimit K resource l w = syscall K (Ctl (Setrlimit resource l)) w"

definition limit_failure :: "resource_limit_setup_stage \<Rightarrow> int \<Rightarrow> resource_limit_setup_failure option" where
  "limit_failure stage e = Some \<lparr>limit_stage = stage, limit_error = e\<rparr>"

text \<open>\<open>None\<close> is the result \<open>true\<close>; \<open>Some f\<close> is \<open>false\<close> with the failure record \<open>f\<close>.\<close>

definition setup_one ::
  "'k kernel \<Rightarrow> rlimit_resource \<Rightarrow> u64 \<Rightarrow> resource_limit_setup_stage \<Rightarrow> 'k world \<Rightarrow>
   resource_limit_setup_failure option \<times> 'k world" where
  "setup_one K resource value stage w =
     (let (exact, w) = exact_value value w in
      case exact of
        None \<Rightarrow> (limit_failure stage (errno w), w)
      | Some exact \<Rightarrow>
          let (n, inherited, w) = getrlimit K resource w in
          if n \<noteq> 0 then (limit_failure stage (errno w), w)
          else if rlim_max inherited \<noteq> RLIM_INFINITY \<and> exact > rlim_max inherited
            then (limit_failure stage EPERM, w)
          else let (n, w) = setrlimit K resource \<lparr>rlim_cur = exact, rlim_max = exact\<rparr> w in
            if n \<noteq> 0 then (limit_failure stage (errno w), w)
            else let (n, observed, w) = getrlimit K resource w in
              if n \<noteq> 0 then (limit_failure stage (errno w), w)
              else if rlim_cur observed \<noteq> exact \<or> rlim_max observed \<noteq> exact
                then (limit_failure stage EIO, w)
              else (None, w))"

text \<open>\<open>limits.kind() && !setup_one(...)\<close> for one optional limit.\<close>

definition setup_optional ::
  "'k kernel \<Rightarrow> rlimit_resource \<Rightarrow> u64 option \<Rightarrow> resource_limit_setup_stage \<Rightarrow> 'k world \<Rightarrow>
   resource_limit_setup_failure option \<times> 'k world" where
  "setup_optional K resource limit stage w =
     (case limit of None \<Rightarrow> (None, w) | Some value \<Rightarrow> setup_one K resource value stage w)"

definition setup_resource_limits ::
  "'k kernel \<Rightarrow> resource_limits \<Rightarrow> 'k world \<Rightarrow> resource_limit_setup_failure option \<times> 'k world" where
  "setup_resource_limits K limits w =
     (let (f, w) = setup_optional K RLIMIT_AS (address_space_bytes limits) Stage_address_space w in
      if f \<noteq> None then (f, w)
      else let (f, w) = setup_optional K RLIMIT_FSIZE (file_size_bytes limits) Stage_file_size w in
        if f \<noteq> None then (f, w)
        else setup_optional K RLIMIT_NOFILE (open_files limits) Stage_open_files w)"

definition resource_limit_stage_name :: "resource_limit_setup_stage \<Rightarrow> string" where
  "resource_limit_stage_name stage =
     (case stage of
        Stage_address_space \<Rightarrow> ''address-space resource limit''
      | Stage_file_size \<Rightarrow> ''file-size resource limit''
      | Stage_open_files \<Rightarrow> ''open-files resource limit'')"

section \<open>The probe\<close>

definition probe_value :: "'k kernel \<Rightarrow> rlimit_resource \<Rightarrow> u64 \<Rightarrow> 'k world \<Rightarrow> u64 option \<times> 'k world" where
  "probe_value K resource preferred w =
     (let (n, inherited, w) = getrlimit K resource w in
      if n \<noteq> 0 then (None, w)
      else if preferred = RLIM_INFINITY then (None, w)
      else if rlim_max inherited \<noteq> RLIM_INFINITY \<and> preferred \<ge> rlim_max inherited \<and>
              rlim_max inherited \<le> 2 then (None, w)
      else let candidate =
             (if rlim_max inherited \<noteq> RLIM_INFINITY \<and> preferred \<ge> rlim_max inherited
              then rlim_max inherited - 1 else preferred)
           in if candidate = 0 \<or> candidate = RLIM_INFINITY then (None, w) else (Some candidate, w))"

definition probe_limits :: "resource_limit_kind \<Rightarrow> u64 \<Rightarrow> resource_limits" where
  "probe_limits kind value =
     \<lparr>cpu_time_milliseconds = None,
      address_space_bytes = (if kind = Kind_address_space then Some value else None),
      file_size_bytes = (if kind = Kind_file_size then Some value else None),
      open_files = (if kind = Kind_open_files then Some value else None),
      process_count = None\<rparr>"

text \<open>The code of the forked child, with its exit code.\<close>

definition probe_one_child ::
  "'k kernel \<Rightarrow> bool \<Rightarrow> resource_limit_kind \<Rightarrow> rlimit_resource \<Rightarrow> u64 \<Rightarrow> 'k world \<Rightarrow> int \<times> 'k world" where
  "probe_one_child K supported_architecture kind resource preferred w =
     (let (value, w) = probe_value K resource preferred w in
      case value of
        None \<Rightarrow> (1, w)
      | Some value \<Rightarrow>
          let (f, w) = setup_resource_limits K (probe_limits kind value) w in
          if f \<noteq> None then (1, w)
          else let (ok, w) = install_process_group_containment K supported_architecture True w in
            if \<not> ok then (1, w)
            else let (n, w) = setrlimit K resource \<lparr>rlim_cur = value + 1, rlim_max = value + 1\<rparr>
                                (set_errno 0 w) in
              if n = 0 \<or> errno w \<noteq> EPERM then (1, w)
              else let (n, observed, w) = getrlimit K resource w in
                if n \<noteq> 0 \<or> rlim_cur observed \<noteq> value \<or> rlim_max observed \<noteq> value then (1, w)
                else (0, w))"

definition probe_one ::
  "'k kernel \<Rightarrow> bool \<Rightarrow> resource_limit_kind \<Rightarrow> rlimit_resource \<Rightarrow> u64 \<Rightarrow> 'k world \<Rightarrow>
   (bool outcome \<times> 'k world) option" where
  "probe_one K supported_architecture kind resource preferred w =
     fork_probe K (probe_one_child K supported_architecture kind resource preferred) w"

definition probe_address_space_limit :: "'k kernel \<Rightarrow> bool \<Rightarrow> 'k world \<Rightarrow> (bool outcome \<times> 'k world) option" where
  "probe_address_space_limit K supported w =
     probe_one K supported Kind_address_space RLIMIT_AS (64 * 1024 * 1024) w"

definition probe_file_size_limit :: "'k kernel \<Rightarrow> bool \<Rightarrow> 'k world \<Rightarrow> (bool outcome \<times> 'k world) option" where
  "probe_file_size_limit K supported w = probe_one K supported Kind_file_size RLIMIT_FSIZE (1024 * 1024) w"

definition probe_open_files_limit :: "'k kernel \<Rightarrow> bool \<Rightarrow> 'k world \<Rightarrow> (bool outcome \<times> 'k world) option" where
  "probe_open_files_limit K supported w = probe_one K supported Kind_open_files RLIMIT_NOFILE 64 w"

section \<open>Which limits are installed\<close>

definition reply_rlimit :: "reply \<Rightarrow> rlimit" where
  "reply_rlimit r = (case out r of Rlimit_data l \<Rightarrow> l | _ \<Rightarrow> zero_rlimit)"

definition requested_limit :: "resource_limits \<Rightarrow> rlimit_resource \<Rightarrow> u64 option" where
  "requested_limit limits resource =
     (case resource of
        RLIMIT_AS \<Rightarrow> address_space_bytes limits
      | RLIMIT_FSIZE \<Rightarrow> file_size_bytes limits
      | RLIMIT_NOFILE \<Rightarrow> open_files limits)"

text \<open>
  Every \<open>setrlimit\<close> installs the requested finite value as soft and hard limit, and follows
  immediately on a \<open>getrlimit\<close> of the same resource whose hard limit admits it.
\<close>

definition rlimit_guard :: "(rlimit_resource \<Rightarrow> u64 option) \<Rightarrow> call_guard_pred" where
  "rlimit_guard req pre x \<longleftrightarrow>
     (\<forall>resource l. fst x = Ctl (Setrlimit resource l) \<longrightarrow>
        req resource = Some (rlim_max l) \<and> rlim_cur l = rlim_max l \<and> rlim_max l \<noteq> RLIM_INFINITY \<and>
        (\<exists>pre' r. pre = pre' @ [(Ctl (Getrlimit resource), r)] \<and> ret r = 0 \<and>
           (rlim_max (reply_rlimit r) = RLIM_INFINITY \<or> rlim_max l \<le> rlim_max (reply_rlimit r))))"

interpretation rlimits: call_guard "rlimit_guard req" for req
  by unfold_locales (auto simp: rlimit_guard_def)

lemma getrlimit_eq:
  "getrlimit K resource w = (case invoke K (Ctl (Getrlimit resource)) w of (r, w) \<Rightarrow> (ret r, reply_rlimit r, w))"
  by (simp add: getrlimit_def reply_rlimit_def split_beta)

text \<open>The four ways \<open>setup_one\<close> ends.\<close>

lemma setup_one_cases:
  assumes "setup_one K resource value stage w = (f, w')"
  obtains (infinite) "value = RLIM_INFINITY" "f = limit_failure stage EOVERFLOW" "calls_between w w' = []"
      "kern w' = kern w" "extends w w'"
  | (refused) r1 where "extends w w'" "f \<noteq> None" "calls_between w w' = [(Ctl (Getrlimit resource), r1)]"
      "invoke K (Ctl (Getrlimit resource)) w = (r1, w')"
      "ret r1 \<noteq> 0 \<or> rlim_max (reply_rlimit r1) \<noteq> RLIM_INFINITY \<and> value > rlim_max (reply_rlimit r1)"
  | (failed) r1 r2 w1 where "extends w w'" "f \<noteq> None" "value \<noteq> RLIM_INFINITY" "ret r1 = 0"
      "rlim_max (reply_rlimit r1) = RLIM_INFINITY \<or> value \<le> rlim_max (reply_rlimit r1)"
      "invoke K (Ctl (Getrlimit resource)) w = (r1, w1)"
      "invoke K (Ctl (Setrlimit resource \<lparr>rlim_cur = value, rlim_max = value\<rparr>)) w1 = (r2, w')" "ret r2 \<noteq> 0"
      "calls_between w w' = [(Ctl (Getrlimit resource), r1),
        (Ctl (Setrlimit resource \<lparr>rlim_cur = value, rlim_max = value\<rparr>), r2)]"
  | (reread) r1 r2 r3 w1 w2 where "extends w w'" "value \<noteq> RLIM_INFINITY" "ret r1 = 0" "ret r2 = 0"
      "rlim_max (reply_rlimit r1) = RLIM_INFINITY \<or> value \<le> rlim_max (reply_rlimit r1)"
      "invoke K (Ctl (Getrlimit resource)) w = (r1, w1)"
      "invoke K (Ctl (Setrlimit resource \<lparr>rlim_cur = value, rlim_max = value\<rparr>)) w1 = (r2, w2)"
      "invoke K (Ctl (Getrlimit resource)) w2 = (r3, w')"
      "calls_between w w' = [(Ctl (Getrlimit resource), r1),
        (Ctl (Setrlimit resource \<lparr>rlim_cur = value, rlim_max = value\<rparr>), r2), (Ctl (Getrlimit resource), r3)]"
      "f = None \<longleftrightarrow> ret r3 = 0 \<and> reply_rlimit r3 = \<lparr>rlim_cur = value, rlim_max = value\<rparr>"
proof -
  let ?set = "Ctl (Setrlimit resource \<lparr>rlim_cur = value, rlim_max = value\<rparr>)"
  obtain r1 w1 where i1: "invoke K (Ctl (Getrlimit resource)) w = (r1, w1)" by fastforce
  obtain r2 w2 where i2: "invoke K ?set w1 = (r2, w2)" by fastforce
  obtain r3 w3 where i3: "invoke K (Ctl (Getrlimit resource)) w2 = (r3, w3)" by fastforce
  note h = invokeD(2) [OF i1] invokeD(2) [OF i2] invokeD(2) [OF i3]
  note eval = setup_one_def exact_value_def getrlimit_eq setrlimit_def syscall_def Let_def
  let ?blocked = "rlim_max (reply_rlimit r1) \<noteq> RLIM_INFINITY \<and> value > rlim_max (reply_rlimit r1)"
  consider "value = RLIM_INFINITY" | "value \<noteq> RLIM_INFINITY" "ret r1 \<noteq> 0 \<or> ?blocked"
    | "value \<noteq> RLIM_INFINITY" "ret r1 = 0" "\<not> ?blocked" "ret r2 \<noteq> 0"
    | "value \<noteq> RLIM_INFINITY" "ret r1 = 0" "\<not> ?blocked" "ret r2 = 0" by blast
  then show thesis
  proof cases
    case 1
    with assms infinite show ?thesis by (auto simp: eval)
  next
    case 2
    then have "w' = w1" "f \<noteq> None" using assms i1 by (auto simp: eval limit_failure_def split: if_splits)
    with 2 refused i1 h(1) show ?thesis by (simp add: calls_between_def extends_def)
  next
    case 3
    then have "w' = w2" "f \<noteq> None" using assms i1 i2 by (auto simp: eval limit_failure_def)
    with 3 i1 i2 h(1,2) show ?thesis
      by (intro failed [of r1 w1 r2]) (auto simp: calls_between_def extends_def)
  next
    case 4
    then have "w' = w3" "f = None \<longleftrightarrow> ret r3 = 0 \<and> reply_rlimit r3 = \<lparr>rlim_cur = value, rlim_max = value\<rparr>"
      using assms i1 i2 i3 by (auto simp: eval limit_failure_def split: if_splits)
    with 4 i1 i2 i3 h show ?thesis
      by (intro reread [of r1 r2 w1 w2 r3]) (auto simp: calls_between_def extends_def)
  qed
qed


lemma setup_one_guarded:
  assumes "setup_one K resource value stage w = (f, w')" "req resource = Some value"
  shows "extends w w' \<and> guarded (rlimit_guard req) (calls_between w w')"
  using assms(1)
proof (cases rule: setup_one_cases)
  case infinite
  then show ?thesis by (simp add: rlimits.guarded_empty)
next
  case (refused r1)
  then show ?thesis by (simp add: guarded_def rlimit_guard_def Cons_eq_append_conv)
next
  case (failed r1 r2 w1)
  then show ?thesis using assms(2) by (auto simp: guarded_def rlimit_guard_def Cons_eq_append_conv)
next
  case (reread r1 r2 r3 w1 w2)
  then show ?thesis using assms(2) by (auto simp: guarded_def rlimit_guard_def Cons_eq_append_conv)
qed

lemma setup_optional_guarded:
  assumes "setup_optional K resource limit stage w = (f, w')" "req resource = limit"
  shows "extends w w' \<and> guarded (rlimit_guard req) (calls_between w w')"
proof (cases limit)
  case None
  with assms show ?thesis by (simp add: setup_optional_def rlimits.guarded_empty)
next
  case (Some v)
  with assms setup_one_guarded show ?thesis by (simp add: setup_optional_def)
qed

lemma setup_resource_limits_steps:
  assumes "setup_resource_limits K limits w = (f, w')"
  obtains f1 w1 f2 w2 where
    "setup_optional K RLIMIT_AS (address_space_bytes limits) Stage_address_space w = (f1, w1)"
    "setup_optional K RLIMIT_FSIZE (file_size_bytes limits) Stage_file_size w1 = (f2, w2)"
    "f1 \<noteq> None \<and> (f, w') = (f1, w1) \<or>
     f1 = None \<and> f2 \<noteq> None \<and> (f, w') = (f2, w2) \<or>
     f1 = None \<and> f2 = None \<and>
       setup_optional K RLIMIT_NOFILE (open_files limits) Stage_open_files w2 = (f, w')"
proof -
  obtain f1 w1 where s1:
    "setup_optional K RLIMIT_AS (address_space_bytes limits) Stage_address_space w = (f1, w1)" by fastforce
  obtain f2 w2 where s2:
    "setup_optional K RLIMIT_FSIZE (file_size_bytes limits) Stage_file_size w1 = (f2, w2)" by fastforce
  from assms s1 s2 that [OF s1 s2] show ?thesis
    by (auto simp: setup_resource_limits_def split: if_splits)
qed

lemma setup_resource_limits_guarded:
  assumes "setup_resource_limits K limits w = (f, w')"
  shows "extends w w' \<and> guarded (rlimit_guard (requested_limit limits)) (calls_between w w')"
  using assms
proof (cases rule: setup_resource_limits_steps)
  case (1 f1 w1 f2 w2)
  let ?req = "requested_limit limits"
  note g = setup_optional_guarded [where req = ?req]
  from g [OF 1(1)] have g1: "extends w w1" "guarded (rlimit_guard ?req) (calls_between w w1)"
    by (simp_all add: requested_limit_def)
  from g [OF 1(2)] have g2: "extends w1 w2" "guarded (rlimit_guard ?req) (calls_between w1 w2)"
    by (simp_all add: requested_limit_def)
  note g12 = rlimits.guarded_compose [OF g1(1) g2(1) g1(2) g2(2)]
  from 1(3) consider "w' = w1" | "w' = w2"
    | "setup_optional K RLIMIT_NOFILE (open_files limits) Stage_open_files w2 = (f, w')" by blast
  then show ?thesis
  proof cases
    case 3
    from g [OF 3] have "extends w2 w'" "guarded (rlimit_guard ?req) (calls_between w2 w')"
      by (simp_all add: requested_limit_def)
    from rlimits.guarded_compose [OF g12(1) this(1) g12(2) this(2)] show ?thesis by simp
  qed (use g1 g12 in simp_all)
qed

section \<open>Exactness under the documented behaviour of the kernel\<close>

text \<open>
  For a view \<open>lim\<close> of the process's limits: \<open>getrlimit\<close> reports them and changes nothing, a
  successful \<open>setrlimit\<close> replaces the pair of its resource, a failing one changes nothing.
\<close>

definition rlimit_law :: "'k kernel \<Rightarrow> ('k \<Rightarrow> rlimit_resource \<Rightarrow> rlimit) \<Rightarrow> bool" where
  "rlimit_law K lim \<longleftrightarrow>
     (\<forall>resource k r k'. K (Ctl (Getrlimit resource)) k = (r, k') \<longrightarrow>
        lim k' = lim k \<and> (ret r = 0 \<longrightarrow> reply_rlimit r = lim k resource)) \<and>
     (\<forall>resource l k r k'. K (Ctl (Setrlimit resource l)) k = (r, k') \<longrightarrow>
        lim k' = (if ret r = 0 then (lim k)(resource := l) else lim k))"

text \<open>
  In addition, \<open>getrlimit\<close> succeeds, and \<open>setrlimit\<close> succeeds when it does not raise the
  hard limit.
\<close>

definition rlimit_permits :: "'k kernel \<Rightarrow> ('k \<Rightarrow> rlimit_resource \<Rightarrow> rlimit) \<Rightarrow> bool" where
  "rlimit_permits K lim \<longleftrightarrow>
     (\<forall>resource k. ret (fst (K (Ctl (Getrlimit resource)) k)) = 0) \<and>
     (\<forall>resource l k. rlim_cur l \<le> rlim_max l \<and> rlim_max l \<le> rlim_max (lim k resource) \<longrightarrow>
        ret (fst (K (Ctl (Setrlimit resource l)) k)) = 0)"

abbreviation exact_pair :: "u64 \<Rightarrow> rlimit" where
  "exact_pair v \<equiv> \<lparr>rlim_cur = v, rlim_max = v\<rparr>"

lemma le_RLIM_INFINITY [simp]: "x \<le> RLIM_INFINITY"
  by (simp add: RLIM_INFINITY_def)

lemma setup_one_effect:
  assumes law: "rlimit_law K lim" and s: "setup_one K resource value stage w = (f, w')"
  shows "f = None \<Longrightarrow> lim (kern w') = (lim (kern w))(resource := exact_pair value)"
    and "\<exists>p. lim (kern w') = (lim (kern w))(resource := p)"
proof -
  have get: "invoke K (Ctl (Getrlimit r)) w = (x, w1) \<Longrightarrow> lim (kern w1) = lim (kern w)" for r x w w1
    using law by (auto simp: rlimit_law_def dest!: invokeD(1))
  have set: "invoke K (Ctl (Setrlimit r l)) w = (x, w1) \<Longrightarrow>
      lim (kern w1) = (if ret x = 0 then (lim (kern w))(r := l) else lim (kern w))" for r l x w w1
    using law by (auto simp: rlimit_law_def dest!: invokeD(1))
  have "(f = None \<longrightarrow> lim (kern w') = (lim (kern w))(resource := exact_pair value)) \<and>
      (\<exists>p. lim (kern w') = (lim (kern w))(resource := p))"
    using s
  proof (cases rule: setup_one_cases)
    case infinite
    then show ?thesis by (metis fun_upd_triv limit_failure_def option.distinct(1))
  next
    case (refused r1)
    then show ?thesis using get [OF refused(4)] by (metis fun_upd_triv)
  next
    case (failed r1 r2 w1)
    then show ?thesis using get [OF failed(6)] set [OF failed(7)] by (metis fun_upd_triv)
  next
    case (reread r1 r2 r3 w1 w2)
    then show ?thesis using get [OF reread(6)] set [OF reread(7)] get [OF reread(8)] by auto
  qed
  then show "f = None \<Longrightarrow> lim (kern w') = (lim (kern w))(resource := exact_pair value)"
    and "\<exists>p. lim (kern w') = (lim (kern w))(resource := p)" by blast+
qed

lemma setup_one_admitted:
  assumes law: "rlimit_law K lim" and permits: "rlimit_permits K lim"
    and s: "setup_one K resource value stage w = (f, w')"
  shows "f = None \<longleftrightarrow> value \<noteq> RLIM_INFINITY \<and> value \<le> rlim_max (lim (kern w) resource)"
  using s
proof (cases rule: setup_one_cases)
  case infinite
  then show ?thesis by (simp add: limit_failure_def)
next
  case (refused r1)
  then have "ret r1 = 0" "reply_rlimit r1 = lim (kern w) resource"
    using law permits invokeD(1) [OF refused(4)] unfolding rlimit_law_def rlimit_permits_def
    by (metis fst_conv)+
  with refused show ?thesis by auto
next
  case (failed r1 r2 w1)
  have "reply_rlimit r1 = lim (kern w) resource" "lim (kern w1) = lim (kern w)"
    using law failed(4) invokeD(1) [OF failed(6)] unfolding rlimit_law_def by metis+
  with failed(5) have "value \<le> rlim_max (lim (kern w1) resource)" by auto
  then have "ret r2 = 0"
    using permits invokeD(1) [OF failed(7)] unfolding rlimit_permits_def
    by (metis fst_conv order_refl rlimit.select_convs(1) rlimit.select_convs(2))
  with failed show ?thesis by simp
next
  case (reread r1 r2 r3 w1 w2)
  have "reply_rlimit r1 = lim (kern w) resource"
    using law reread(3) invokeD(1) [OF reread(6)] unfolding rlimit_law_def by metis
  with reread(5) have le: "value \<le> rlim_max (lim (kern w) resource)" by auto
  have "lim (kern w2) resource = exact_pair value"
    using law reread(4) invokeD(1) [OF reread(7)] unfolding rlimit_law_def by (metis fun_upd_same)
  moreover have "ret r3 = 0" using permits invokeD(1) [OF reread(8)]
    unfolding rlimit_permits_def by (metis fst_conv)
  ultimately have "reply_rlimit r3 = exact_pair value"
    using law invokeD(1) [OF reread(8)] unfolding rlimit_law_def by metis
  with reread(2,10) le \<open>ret r3 = 0\<close> show ?thesis by simp
qed


text \<open>The abstract specification: the limits after installing a request.\<close>

definition installed :: "resource_limits \<Rightarrow> (rlimit_resource \<Rightarrow> rlimit) \<Rightarrow> rlimit_resource \<Rightarrow> rlimit" where
  "installed limits old resource =
     (case requested_limit limits resource of None \<Rightarrow> old resource | Some v \<Rightarrow> exact_pair v)"

definition admissible :: "resource_limits \<Rightarrow> (rlimit_resource \<Rightarrow> rlimit) \<Rightarrow> rlimit_resource \<Rightarrow> bool" where
  "admissible limits old resource \<longleftrightarrow>
     (case requested_limit limits resource of
        None \<Rightarrow> True | Some v \<Rightarrow> v \<noteq> RLIM_INFINITY \<and> v \<le> rlim_max (old resource))"

lemma setup_optional_effect:
  assumes "rlimit_law K lim" "setup_optional K resource limit stage w = (f, w')"
  shows "f = None \<Longrightarrow> lim (kern w') =
      (case limit of None \<Rightarrow> lim (kern w) | Some v \<Rightarrow> (lim (kern w))(resource := exact_pair v))"
    and "\<exists>p. lim (kern w') = (lim (kern w))(resource := p)"
proof -
  show "lim (kern w') = (case limit of None \<Rightarrow> lim (kern w) | Some v \<Rightarrow> (lim (kern w))(resource := exact_pair v))"
    if "f = None"
    using assms(2) setup_one_effect(1) [OF assms(1)] that
    by (auto simp: setup_optional_def split: option.splits)
  show "\<exists>p. lim (kern w') = (lim (kern w))(resource := p)"
  proof (cases limit)
    case None
    with assms(2) show ?thesis by (auto simp: setup_optional_def intro!: exI [of _ "lim (kern w) resource"])
  next
    case (Some v)
    with assms(2) setup_one_effect(2) [OF assms(1)] show ?thesis by (simp add: setup_optional_def)
  qed
qed

lemma setup_optional_admitted:
  assumes "rlimit_law K lim" "rlimit_permits K lim" "setup_optional K resource limit stage w = (f, w')"
  shows "f = None \<longleftrightarrow> (case limit of None \<Rightarrow> True
    | Some v \<Rightarrow> v \<noteq> RLIM_INFINITY \<and> v \<le> rlim_max (lim (kern w) resource))"
  using assms setup_one_admitted [OF assms(1,2)] by (auto simp: setup_optional_def split: option.splits)

lemma setup_optional_stage:
  assumes "setup_optional K resource limit stage w = (Some f, w')"
  shows "limit_stage f = stage"
  using assms
  by (auto simp: setup_optional_def setup_one_def limit_failure_def exact_value_def Let_def
      split: option.splits if_splits prod.splits)

definition stage_resource :: "resource_limit_setup_stage \<Rightarrow> rlimit_resource" where
  "stage_resource stage = (case stage of Stage_address_space \<Rightarrow> RLIMIT_AS
     | Stage_file_size \<Rightarrow> RLIMIT_FSIZE | Stage_open_files \<Rightarrow> RLIMIT_NOFILE)"

lemma setup_resource_limits_installed:
  assumes law: "rlimit_law K lim" and s: "setup_resource_limits K limits w = (None, w')"
  shows "lim (kern w') = installed limits (lim (kern w))"
  using s
proof (cases rule: setup_resource_limits_steps)
  case (1 f1 w1 f2 w2)
  then have n: "f1 = None" "f2 = None"
    and s3: "setup_optional K RLIMIT_NOFILE (open_files limits) Stage_open_files w2 = (None, w')"
    by auto
  note e = setup_optional_effect(1) [OF law 1(1) n(1)] setup_optional_effect(1) [OF law 1(2) n(2)]
    setup_optional_effect(1) [OF law s3 refl]
  show ?thesis
  proof
    fix resource
    show "lim (kern w') resource = installed limits (lim (kern w)) resource"
      using e by (cases resource) (auto simp: installed_def requested_limit_def split: option.splits)
  qed
qed

lemma all_resources: "(\<forall>r. P r) \<longleftrightarrow> P RLIMIT_AS \<and> P RLIMIT_FSIZE \<and> P RLIMIT_NOFILE"
  by (metis rlimit_resource.exhaust)

lemma setup_resource_limits_verdict:
  assumes law: "rlimit_law K lim" and permits: "rlimit_permits K lim"
    and s: "setup_resource_limits K limits w = (f, w')"
  shows "(f = None \<longleftrightarrow> (\<forall>resource. admissible limits (lim (kern w)) resource)) \<and>
    (\<forall>g. f = Some g \<longrightarrow> \<not> admissible limits (lim (kern w)) (stage_resource (limit_stage g)))"
  using s
proof (cases rule: setup_resource_limits_steps)
  case (1 f1 w1 f2 w2)
  let ?ok = "\<lambda>limit resource w. (case limit of None \<Rightarrow> True
    | Some v \<Rightarrow> v \<noteq> RLIM_INFINITY \<and> v \<le> rlim_max (lim (kern w) resource))"
  obtain f3 w3 where s3: "setup_optional K RLIMIT_NOFILE (open_files limits) Stage_open_files w2 = (f3, w3)"
    by fastforce
  note a = setup_optional_admitted [OF law permits 1(1)] setup_optional_admitted [OF law permits 1(2)]
    setup_optional_admitted [OF law permits s3]
  have keep: "lim (kern w1) RLIMIT_FSIZE = lim (kern w) RLIMIT_FSIZE"
    "lim (kern w2) RLIMIT_NOFILE = lim (kern w) RLIMIT_NOFILE"
    using setup_optional_effect(2) [OF law 1(1)] setup_optional_effect(2) [OF law 1(2)] by auto
  have adm: "f1 = None \<longleftrightarrow> admissible limits (lim (kern w)) RLIMIT_AS"
    "f2 = None \<longleftrightarrow> admissible limits (lim (kern w)) RLIMIT_FSIZE"
    "f3 = None \<longleftrightarrow> admissible limits (lim (kern w)) RLIMIT_NOFILE"
    unfolding a keep by (simp_all add: admissible_def requested_limit_def)
  have st: "f1 = Some g \<Longrightarrow> stage_resource (limit_stage g) = RLIMIT_AS"
    "f2 = Some g \<Longrightarrow> stage_resource (limit_stage g) = RLIMIT_FSIZE"
    "f3 = Some g \<Longrightarrow> stage_resource (limit_stage g) = RLIMIT_NOFILE" for g
    using 1(1,2) s3 by (auto simp: stage_resource_def dest!: setup_optional_stage)
  from 1(3) s3 have "f = (if f1 \<noteq> None then f1 else if f2 \<noteq> None then f2 else f3)" by auto
  then show ?thesis
    unfolding all_resources adm [symmetric] using adm st by (cases f1; cases f2; cases f3; simp)
qed


section \<open>The probe\<close>

text \<open>The probed value leaves room to attempt a raise that the inherited hard limit allows.\<close>

lemma probe_value_bounds:
  assumes "probe_value K resource preferred w = (Some v, w')"
  obtains r where "calls_between w w' = [(Ctl (Getrlimit resource), r)]" "ret r = 0" "extends w w'"
    and "0 < v" "v < RLIM_INFINITY" "v \<le> preferred"
    and "rlim_max (reply_rlimit r) \<noteq> RLIM_INFINITY \<Longrightarrow> v < rlim_max (reply_rlimit r)"
proof -
  obtain r w1 where i: "invoke K (Ctl (Getrlimit resource)) w = (r, w1)" by fastforce
  let ?h = "rlim_max (reply_rlimit r)"
  from assms i have w': "w' = w1" "ret r = 0" and nz: "v \<noteq> 0" "v \<noteq> RLIM_INFINITY"
    and cap: "v = preferred \<and> (?h = RLIM_INFINITY \<or> preferred < ?h) \<or>
      v = ?h - 1 \<and> ?h \<le> preferred \<and> \<not> ?h \<le> 2 \<and> ?h \<noteq> RLIM_INFINITY"
    by (auto simp: probe_value_def getrlimit_eq Let_def not_le split: if_splits)
  have dec: "?h - 1 < ?h" if "\<not> ?h \<le> 2"
    using that by (meson dec_greater_eq_self_imp_bot verit_comp_simplify1(3))
  show thesis
  proof (rule that [OF _ w'(2)])
    show "calls_between w w' = [(Ctl (Getrlimit resource), r)]" "extends w w'"
      using calls_between_invoke [OF i] invoke_extends [OF i] w'(1) by simp_all
    show "0 < v" using nz(1) by (simp add: word_gt_0)
    show "v < RLIM_INFINITY" using nz(2) le_RLIM_INFINITY [of v] by (simp add: order.strict_iff_order)
    show "v \<le> preferred" using cap dec by (auto intro: order.strict_implies_order order.strict_trans2)
    show "v < ?h" if "?h \<noteq> RLIM_INFINITY" using that cap dec by auto
  qed
qed

text \<open>What a child that exits with code zero has done, as the tail of its calls.\<close>

lemma probe_one_child_zero:
  assumes "probe_one_child K supported kind resource preferred w = (0, w')"
  obtains v w1 w2 w3 r1 r2 r3 r4 where
    "probe_value K resource preferred w = (Some v, w1)"
    "setup_resource_limits K (probe_limits kind v) w1 = (None, w2)"
    "install_process_group_containment K supported True w2 = (True, w3)"
    "extends w2 w'"
    "calls_between w2 w' = [(Ctl Prctl_set_no_new_privs, r1),
       (Ctl (Prctl_set_seccomp (containment_filter True)), r2),
       (Ctl (Setrlimit resource (exact_pair (v + 1))), r3), (Ctl (Getrlimit resource), r4)]"
    "ret r1 = 0" "ret r2 = 0" "ret r3 < 0" "err r3 = EPERM" "ret r4 = 0" "reply_rlimit r4 = exact_pair v"
proof -
  obtain x w1 where pv: "probe_value K resource preferred w = (x, w1)" by fastforce
  with assms obtain v where v: "x = Some v"
    by (auto simp: probe_one_child_def split: option.splits)
  obtain f w2 where st: "setup_resource_limits K (probe_limits kind v) w1 = (f, w2)" by fastforce
  obtain ok w3 where ins: "install_process_group_containment K supported True w2 = (ok, w3)" by fastforce
  obtain r3 w4 where i3: "invoke K (Ctl (Setrlimit resource (exact_pair (v + 1)))) (set_errno 0 w3) = (r3, w4)"
    by fastforce
  obtain r4 w5 where i4: "invoke K (Ctl (Getrlimit resource)) w4 = (r4, w5)" by fastforce
  note eval = probe_one_child_def getrlimit_eq setrlimit_def syscall_def
  from assms pv v st have f: "f = None" by (auto simp: eval split: if_splits)
  from assms pv v st f ins have ok: "ok" by (auto simp: eval split: if_splits)
  from assms pv v st f ins ok i3 have r3: "ret r3 \<noteq> 0" "errno w4 = EPERM"
    by (auto simp: eval split: if_splits)
  then have r3': "ret r3 < 0" "err r3 = EPERM"
    using invokeD(3) [OF i3] by (auto simp: EPERM_def split: if_splits)
  from assms pv v st f ins ok i3 r3 i4 have r4: "ret r4 = 0" "reply_rlimit r4 = exact_pair v" and w': "w' = w5"
    by (auto simp: eval split: if_splits)
  have h: "history w' = history w3 @ [(Ctl (Setrlimit resource (exact_pair (v + 1))), r3), (Ctl (Getrlimit resource), r4)]"
    using invokeD(2) [OF i3] invokeD(2) [OF i4] w' by simp
  have e3: "extends w3 w'" using h by (simp add: extends_def)
  from ins ok have ins': "install_process_group_containment K supported True w2 = (True, w3)" by simp
  from install_True [OF ins'] obtain r1 r2 where r12: "ret r1 = 0" "ret r2 = 0"
    "calls_between w2 w3 = [(Ctl Prctl_set_no_new_privs, r1),
       (Ctl (Prctl_set_seccomp (containment_filter True)), r2)]" by blast
  note e2 = install_extends [OF ins']
  have "calls_between w2 w' = [(Ctl Prctl_set_no_new_privs, r1),
       (Ctl (Prctl_set_seccomp (containment_filter True)), r2),
       (Ctl (Setrlimit resource (exact_pair (v + 1))), r3), (Ctl (Getrlimit resource), r4)]"
    using calls_between_trans [OF e2 e3] r12(3) calls_between_append [OF h] by simp
  with that pv v st f ins' r12 r3' r4 extends_trans [OF e2 e3] show ?thesis by blast
qed

section \<open>Properties\<close>

text \<open>
  A kernel that keeps the limits of the process, as an association list from resources; a
  raise of a hard limit is refused.
\<close>

definition limit_of :: "(rlimit_resource \<times> rlimit) list \<Rightarrow> rlimit_resource \<Rightarrow> rlimit" where
  "limit_of k resource =
     (case map_of k resource of None \<Rightarrow> \<lparr>rlim_cur = RLIM_INFINITY, rlim_max = RLIM_INFINITY\<rparr> | Some l \<Rightarrow> l)"

definition limit_kernel :: "(rlimit_resource \<times> rlimit) list kernel" where
  "limit_kernel c k =
     (case c of
        Ctl (Getrlimit resource) \<Rightarrow> (data_reply 0 (Rlimit_data (limit_of k resource)), k)
      | Ctl (Setrlimit resource l) \<Rightarrow>
          if rlim_cur l \<le> rlim_max l \<and> rlim_max l \<le> rlim_max (limit_of k resource)
          then (ok_reply, (resource, l) # k) else (err_reply EPERM, k)
      | _ \<Rightarrow> (ok_reply, k))"

lemma limit_kernel_law: "rlimit_law limit_kernel limit_of" "rlimit_permits limit_kernel limit_of"
  by (auto simp: rlimit_law_def rlimit_permits_def limit_kernel_def limit_of_def reply_rlimit_def
      data_reply_def ok_reply_def err_reply_def fun_eq_iff split: if_splits)

definition sample_limits :: resource_limits where
  "sample_limits = \<lparr>cpu_time_milliseconds = None, address_space_bytes = Some 4096,
     file_size_bytes = None, open_files = Some 64, process_count = None\<rparr>"

text \<open>
  C14. Installing limits never asks the kernel for anything but the requested finite value
  as soft and hard limit, of a requested resource, and does so directly after reading that
  resource's hard limit and finding that the value does not exceed it: a limit is never
  raised, whatever the kernel answers.
\<close>

theorem limits_exact_never_raised:
  "guarded (rlimit_guard (requested_limit limits)) (calls_between w (snd (setup_resource_limits K limits w)))"
  using setup_resource_limits_guarded [of K limits w] by (metis prod.collapse)

text \<open>
  C23. Under the documented behaviour of \<open>getrlimit\<close> and \<open>setrlimit\<close>, success means that
  exactly the requested limits are in force and all others are as inherited.
\<close>

theorem limits_installed:
  assumes "rlimit_law K lim" "setup_resource_limits K limits w = (None, w')"
  shows "lim (kern w') = installed limits (lim (kern w))"
  using assms by (rule setup_resource_limits_installed)

theorem limits_installed_witness:
  "fst (setup_resource_limits limit_kernel sample_limits (start_world [])) = None \<and>
   limit_of (kern (snd (setup_resource_limits limit_kernel sample_limits (start_world []))))
     = installed sample_limits (limit_of [])"
proof -
  let ?s = "setup_resource_limits limit_kernel sample_limits (start_world [])"
  have n: "fst ?s = None" by code_simp
  then have "?s = (None, snd ?s)" by (metis prod.collapse)
  from limits_installed [OF limit_kernel_law(1) this] n show ?thesis by (simp add: start_world_def)
qed

text \<open>
  C22. When in addition the kernel permits every lowering, the verdict is decided by the
  request and the inherited hard limits alone: success exactly when every requested value is
  finite and within its hard limit, and otherwise the reported stage names a resource whose
  request is not.
\<close>

theorem limits_verdict:
  assumes "rlimit_law K lim" "rlimit_permits K lim" "setup_resource_limits K limits w = (f, w')"
  shows "(f = None \<longleftrightarrow> (\<forall>resource. admissible limits (lim (kern w)) resource)) \<and>
    (\<forall>g. f = Some g \<longrightarrow> \<not> admissible limits (lim (kern w)) (stage_resource (limit_stage g)))"
  using assms by (rule setup_resource_limits_verdict)

theorem limits_verdict_witness:
  "let k = [(RLIMIT_NOFILE, exact_pair 32)];
       f = fst (setup_resource_limits limit_kernel sample_limits (start_world k))
   in map_option limit_stage f = Some Stage_open_files \<and> \<not> admissible sample_limits (limit_of k) RLIMIT_NOFILE"
proof -
  let ?k = "[(RLIMIT_NOFILE, exact_pair 32)]"
  let ?s = "setup_resource_limits limit_kernel sample_limits (start_world ?k)"
  have f: "map_option limit_stage (fst ?s) = Some Stage_open_files" by code_simp
  then obtain g where g: "fst ?s = Some g" "limit_stage g = Stage_open_files" by auto
  have "?s = (fst ?s, snd ?s)" by simp
  from limits_verdict [OF limit_kernel_law this] g f show ?thesis
    by (simp add: Let_def start_world_def stage_resource_def)
qed

text \<open>
  C39. A limit probe's child exits with code zero only with evidence: it installed a finite
  value strictly below the inherited hard limit and not above the preferred one, then
  the sealed filter, then a raise by one was refused with \<open>EPERM\<close>, and the value was still in
  force.
\<close>

theorem limit_probe_evidence:
  assumes "probe_one_child K supported kind resource preferred w = (0, w')"
  shows "\<exists>v w1 w2 r0 r1 r2 r3 r4.
    0 < v \<and> v \<le> preferred \<and> v < RLIM_INFINITY \<and>
    (rlim_max (reply_rlimit r0) \<noteq> RLIM_INFINITY \<longrightarrow> v < rlim_max (reply_rlimit r0)) \<and>
    history w1 = history w @ [(Ctl (Getrlimit resource), r0)] \<and>
    setup_resource_limits K (probe_limits kind v) w1 = (None, w2) \<and>
    history w' = history w2 @
      [(Ctl Prctl_set_no_new_privs, r1), (Ctl (Prctl_set_seccomp (containment_filter True)), r2),
       (Ctl (Setrlimit resource (exact_pair (v + 1))), r3), (Ctl (Getrlimit resource), r4)] \<and>
    ret r0 = 0 \<and> ret r1 = 0 \<and> ret r2 = 0 \<and> ret r3 < 0 \<and> err r3 = EPERM \<and>
    ret r4 = 0 \<and> reply_rlimit r4 = exact_pair v"
  using assms
proof (cases rule: probe_one_child_zero)
  case (1 v w1 w2 w3 r1 r2 r3 r4)
  from 1(1) obtain r0 where r0: "calls_between w w1 = [(Ctl (Getrlimit resource), r0)]" "extends w w1" "ret r0 = 0"
    "0 < v" "v < RLIM_INFINITY" "v \<le> preferred"
    "rlim_max (reply_rlimit r0) \<noteq> RLIM_INFINITY \<longrightarrow> v < rlim_max (reply_rlimit r0)"
    by (elim probe_value_bounds) blast
  show ?thesis
    by (rule exI [of _ v], rule exI [of _ w1], rule exI [of _ w2], rule exI [of _ r0], rule exI [of _ r1],
        rule exI [of _ r2], rule exI [of _ r3], rule exI [of _ r4])
      (use 1 r0 in \<open>simp add: extends_history\<close>)
qed

theorem limit_probe_evidence_witness:
  "fst (probe_one_child limit_kernel True Kind_open_files RLIMIT_NOFILE 64
      (start_world [(RLIMIT_NOFILE, exact_pair 40)])) = 0 \<and>
   (\<exists>v pre r1 r2 r3 r4. history (snd (probe_one_child limit_kernel True Kind_open_files RLIMIT_NOFILE 64
      (start_world [(RLIMIT_NOFILE, exact_pair 40)]))) =
      pre @ [(Ctl Prctl_set_no_new_privs, r1), (Ctl (Prctl_set_seccomp (containment_filter True)), r2),
       (Ctl (Setrlimit RLIMIT_NOFILE (exact_pair (v + 1))), r3), (Ctl (Getrlimit RLIMIT_NOFILE), r4)] \<and>
      err r3 = EPERM)"
proof -
  let ?c = "probe_one_child limit_kernel True Kind_open_files RLIMIT_NOFILE 64 (start_world [(RLIMIT_NOFILE, exact_pair 40)])"
  have z: "fst ?c = 0" by code_simp
  then have "?c = (0, snd ?c)" by (metis prod.collapse)
  from limit_probe_evidence [OF this] z show ?thesis by blast
qed

end
