(* ===== verification/Paths.thy ===== *)
theory Paths
  imports Prelude
begin

text \<open>
  The part of \<open>std::filesystem::path\<close> the source uses, on a POSIX target. A path is its string;
  iterating over it yields the root directory, the file names, and an empty name after a
  trailing separator. Two paths are equal when their elements are.
\<close>

type_synonym path = string

definition is_absolute :: "path \<Rightarrow> bool" where
  "is_absolute p = (case p of [] \<Rightarrow> False | c # cs \<Rightarrow> c = CHR ''/'')"

fun split_slash :: "string \<Rightarrow> string list" where
  "split_slash [] = [[]]"
| "split_slash (c # cs) =
     (if c = CHR ''/'' then [] # split_slash cs
      else case split_slash cs of [] \<Rightarrow> [[c]] | n # ns \<Rightarrow> (c # n) # ns)"

definition filenames :: "path \<Rightarrow> string list" where
  "filenames p = filter (\<lambda>n. n \<noteq> []) (split_slash p)"

definition relative_elements :: "path \<Rightarrow> string list" where
  "relative_elements p =
     filenames p @ (if filenames p \<noteq> [] \<and> last p = CHR ''/'' then [[]] else [])"

definition path_elements :: "path \<Rightarrow> string list" where
  "path_elements p = (if is_absolute p then [''/''] else []) @ relative_elements p"

definition path_eq :: "path \<Rightarrow> path \<Rightarrow> bool" where
  "path_eq p q \<longleftrightarrow> path_elements p = path_elements q"

definition root_path :: "path \<Rightarrow> path" where
  "root_path p = (if is_absolute p then ''/'' else [])"

definition relative_path :: "path \<Rightarrow> path" where
  "relative_path p = dropWhile (\<lambda>c. c = CHR ''/'') p"

text \<open>\<open>operator/\<close>.\<close>

definition path_append :: "path \<Rightarrow> path \<Rightarrow> path" where
  "path_append p q =
     (if is_absolute q then q
      else if p = [] \<or> last p = CHR ''/'' then p @ q
      else p @ ''/'' @ q)"

definition filename :: "path \<Rightarrow> string" where
  "filename p = (if relative_elements p = [] then [] else last (relative_elements p))"

definition strip_trailing :: "string \<Rightarrow> string" where
  "strip_trailing p = rev (dropWhile (\<lambda>c. c = CHR ''/'') (rev p))"

definition parent_path :: "path \<Rightarrow> path" where
  "parent_path p =
     (if relative_path p = [] then p
      else let parent = strip_trailing (rev (dropWhile (\<lambda>c. c \<noteq> CHR ''/'') (rev p)))
           in if parent = [] then root_path p else parent)"

text \<open>The names that remain when \<open>.\<close> and \<open>..\<close> are removed, and the text of the result.\<close>

definition normal_step :: "bool \<Rightarrow> string \<Rightarrow> string list \<Rightarrow> string list" where
  "normal_step rooted n stack =
     (if n = ''.'' then stack
      else if n = ''..'' then
        (if stack \<noteq> [] \<and> last stack \<noteq> ''..'' then butlast stack
         else if rooted then stack else stack @ [n])
      else stack @ [n])"

fun join_slash :: "string list \<Rightarrow> string" where
  "join_slash [] = []"
| "join_slash [n] = n"
| "join_slash (n # m # ns) = n @ ''/'' @ join_slash (m # ns)"

definition lexically_normal :: "path \<Rightarrow> path" where
  "lexically_normal p =
     (if p = [] then []
      else let rooted = is_absolute p;
               names = fold (normal_step rooted) (filenames p) [];
               final = last (relative_elements p);
               slash = (relative_elements p \<noteq> [] \<and> final \<in> {[], ''.'', ''..''} \<and> names \<noteq> [] \<and> last names \<noteq> ''..'');
               text = root_path p @ join_slash names @ (if slash then ''/'' else [])
           in if text = [] then ''.'' else text)"

section \<open>Elements of joined names\<close>

definition plain :: "string \<Rightarrow> bool" where
  "plain n \<longleftrightarrow> n \<noteq> [] \<and> CHR ''/'' \<notin> set n"

lemma split_slash_nonempty [simp]: "split_slash p \<noteq> []"
  by (induction p) (auto split: list.splits)

lemma split_slash_name: "CHR ''/'' \<notin> set n \<Longrightarrow> split_slash n = [n]"
  by (induction n) auto

lemma split_slash_append: "CHR ''/'' \<notin> set n \<Longrightarrow> split_slash (n @ CHR ''/'' # p) = n # split_slash p"
  by (induction n) auto

lemma filenames_join:
  assumes "list_all plain ns"
  shows "filenames (join_slash ns) = ns" "filenames (join_slash ns @ ''/'') = ns" "filenames (CHR ''/'' # p) = filenames p"
proof -
  show "filenames (join_slash ns) = ns" using assms
    by (induction ns rule: join_slash.induct) (auto simp: filenames_def plain_def split_slash_name split_slash_append)
  show "filenames (join_slash ns @ ''/'') = ns" using assms
    by (induction ns rule: join_slash.induct) (auto simp: filenames_def plain_def split_slash_name split_slash_append)
  show "filenames (CHR ''/'' # p) = filenames p" by (simp add: filenames_def)
qed

lemma split_slash_plain: "n \<in> set (split_slash p) \<Longrightarrow> CHR ''/'' \<notin> set n"
proof (induction p arbitrary: n)
  case (Cons c p)
  then show ?case by (cases "split_slash p") (auto split: if_splits)
qed simp

lemma filenames_plain: "list_all plain (filenames p)"
  by (auto simp: filenames_def list_all_iff plain_def split_slash_plain)

text \<open>An absolute path that names neither \<open>.\<close> nor \<open>..\<close> and has no trailing separator.\<close>

definition canonical_path :: "path \<Rightarrow> bool" where
  "canonical_path p \<longleftrightarrow> (\<exists>ns. p = CHR ''/'' # join_slash ns \<and> list_all (\<lambda>n. plain n \<and> n \<noteq> ''.'' \<and> n \<noteq> ''..'') ns)"

lemma normal_fold_id:
  assumes "list_all (\<lambda>n. plain n \<and> n \<noteq> ''.'' \<and> n \<noteq> ''..'') ns"
  shows "fold (normal_step rooted) ns stack = stack @ ns"
  using assms by (induction ns arbitrary: stack) (auto simp: normal_step_def)

lemma join_slash_last:
  assumes "list_all plain ns" "ns \<noteq> []"
  shows "join_slash ns \<noteq> [] \<and> last (join_slash ns) \<noteq> CHR ''/''"
  using assms
proof (induction ns rule: join_slash.induct)
  case (2 n)
  then show ?case by (auto simp: plain_def) (metis last_in_set)
qed auto

lemma canonical_elements:
  assumes "list_all plain ns"
  shows "relative_elements (CHR ''/'' # join_slash ns) = ns"
    "path_elements (CHR ''/'' # join_slash ns) = ''/'' # ns"
proof -
  have l: "ns \<noteq> [] \<Longrightarrow> last (CHR ''/'' # join_slash ns) \<noteq> CHR ''/''" using join_slash_last [OF assms] by auto
  show "relative_elements (CHR ''/'' # join_slash ns) = ns"
    using l filenames_join(1,3) [OF assms]
    by (cases "ns = []") (auto simp: relative_elements_def filenames_def)
  then show "path_elements (CHR ''/'' # join_slash ns) = ''/'' # ns"
    by (simp add: path_elements_def is_absolute_def)
qed

lemma lexically_normal_canonical: "canonical_path p \<Longrightarrow> lexically_normal p = p"
proof -
  assume "canonical_path p"
  then obtain ns where p: "p = CHR ''/'' # join_slash ns" and ns: "list_all (\<lambda>n. plain n \<and> n \<noteq> ''.'' \<and> n \<noteq> ''..'') ns"
    by (auto simp: canonical_path_def)
  then have pl: "list_all plain ns" by (simp add: list_all_iff)
  have "last ns \<notin> {[], ''.'', ''..''}" if "ns \<noteq> []"
    using that ns last_in_set [OF that] by (auto simp: list_all_iff plain_def)
  then show ?thesis
    using normal_fold_id [OF ns] filenames_join(1,3) [OF pl] canonical_elements(1) [OF pl]
    by (auto simp: lexically_normal_def p Let_def is_absolute_def root_path_def)
qed

end
