(* ===== verification/Support.thy ===== *)
theory Support
  imports Wire Paths "HOL-Library.List_Lexorder" "HOL-Library.Product_Lexorder" "HOL-Library.Char_ord"
begin

text \<open>
  \<open>src/support.cpp\<close> and \<open>src/error.cpp\<close>: the error values of the library, digests of material and
  of descriptors, the check for symbolic links, and the supplementary groups of the process.
  \<open>strerror\<close> and the digest functions of OpenSSL are parameters.
\<close>

section \<open>Errors\<close>

datatype error_code =
  Invalid_value | Duplicate_interpreter | Interpreter_inspection_failed | Unsupported_platform

text \<open>\<open>class error\<close>: the code and the message that \<open>what()\<close> returns.\<close>

datatype error = Error (error_code_of: error_code) (what: string)

definition errno_message :: "(int \<Rightarrow> string) \<Rightarrow> string \<Rightarrow> int \<Rightarrow> string" where
  "errno_message strerror operation e = operation @ '': '' @ strerror e"

section \<open>Digests\<close>

text \<open>
  The interface of the OpenSSL message digest: a new context or null, and for each function the
  context or the bytes it leaves when it returns 1.
\<close>

record 'c evp =
  evp_new :: "'c option"
  evp_init :: "'c \<Rightarrow> 'c option"
  evp_update :: "'c \<Rightarrow> byte list \<Rightarrow> 'c option"
  evp_final :: "'c \<Rightarrow> byte list option"

definition hex_digit :: "nat \<Rightarrow> char" where
  "hex_digit n = (if n < 10 then char_of (48 + n) else char_of (87 + n))"

definition hex_bytes :: "byte list \<Rightarrow> string" where
  "hex_bytes bs = concat (map (\<lambda>b. [hex_digit (unat b div 16), hex_digit (unat b mod 16)]) bs)"

definition inspection_error :: "string \<Rightarrow> error" where
  "inspection_error m = Error Interpreter_inspection_failed m"

definition digest_start :: "'c evp \<Rightarrow> error + 'c" where
  "digest_start E =
     (case evp_new E of
        None \<Rightarrow> Inl (inspection_error ''SHA-256 initialization failed'')
      | Some c \<Rightarrow> (case evp_init E c of
                     None \<Rightarrow> Inl (inspection_error ''SHA-256 initialization failed'')
                   | Some c \<Rightarrow> Inr c))"

definition update :: "'c evp \<Rightarrow> 'c \<Rightarrow> byte list \<Rightarrow> error + 'c" where
  "update E c bs =
     (if bs = [] then Inr c
      else case evp_update E c bs of
             None \<Rightarrow> Inl (inspection_error ''SHA-256 update failed'')
           | Some c \<Rightarrow> Inr c)"

definition digest_finish :: "'c evp \<Rightarrow> 'c \<Rightarrow> error + string" where
  "digest_finish E c =
     (case evp_final E c of
        None \<Rightarrow> Inl (inspection_error ''SHA-256 finalization failed'')
      | Some bs \<Rightarrow> if length bs \<noteq> 32 then Inl (inspection_error ''SHA-256 finalization failed'')
                   else Inr (hex_bytes bs))"

definition bytes_of_string :: "string \<Rightarrow> byte list" where
  "bytes_of_string s = map of_char s"

definition bind_result :: "'e + 'a \<Rightarrow> ('a \<Rightarrow> 'e + 'b) \<Rightarrow> 'e + 'b" where
  "bind_result x f = (case x of Inl e \<Rightarrow> Inl e | Inr a \<Rightarrow> f a)"

definition sha256_hex :: "'c evp \<Rightarrow> string \<Rightarrow> string \<Rightarrow> error + string" where
  "sha256_hex E domain material =
     bind_result (digest_start E) (\<lambda>c.
     bind_result (update E c (bytes_of_string domain)) (\<lambda>c.
     bind_result (update E c [0]) (\<lambda>c.
     bind_result (update E c (bytes_of_string material)) (\<lambda>c.
     digest_finish E c))))"

partial_function (option) digest_loop ::
  "(int \<Rightarrow> string) \<Rightarrow> 'c evp \<Rightarrow> 'k kernel \<Rightarrow> fd \<Rightarrow> 'c \<Rightarrow> nat \<Rightarrow> 'k world \<Rightarrow> ((error + 'c) \<times> 'k world) option" where
  "digest_loop strerror E K fd c offset w =
     (let (r, w) = invoke K (Fd (Pread fd 65536 offset)) w in
      if ret r > 0
      then (case update E c (read_data r) of
              Inl e \<Rightarrow> Some (Inl e, w)
            | Inr c \<Rightarrow> digest_loop strerror E K fd c (offset + nat (ret r)) w)
      else if ret r = 0 then Some (Inr c, w)
      else if errno w = EINTR then digest_loop strerror E K fd c offset w
      else Some (Inl (inspection_error (errno_message strerror ''pread interpreter'' (errno w))), w))"

declare digest_loop.simps [code]

definition digest_fd ::
  "(int \<Rightarrow> string) \<Rightarrow> 'c evp \<Rightarrow> 'k kernel \<Rightarrow> fd \<Rightarrow> 'k world \<Rightarrow> ((error + string) \<times> 'k world) option" where
  "digest_fd strerror E K fd w =
     (case digest_start E of
        Inl e \<Rightarrow> Some (Inl e, w)
      | Inr c \<Rightarrow>
          do { (x, w) \<leftarrow> digest_loop strerror E K fd c 0 w;
               Some (bind_result x (digest_finish E), w) })"

definition open_interpreter_flags :: "open_flag list" where
  "open_interpreter_flags = [O_RDONLY, O_CLOEXEC, O_NOFOLLOW, O_NONBLOCK]"

definition digest_file ::
  "(int \<Rightarrow> string) \<Rightarrow> 'c evp \<Rightarrow> 'k kernel \<Rightarrow> path \<Rightarrow> 'k world \<Rightarrow> ((error + string) \<times> 'k world) option" where
  "digest_file strerror E K p w =
     (let (fd, w) = syscall K (Fs (Open p open_interpreter_flags)) w in
      if fd < 0 then Some (Inl (inspection_error (errno_message strerror ''open interpreter'' (errno w))), w)
      else let (r, w) = invoke K (Fs (Fstat fd)) w in
        if ret r \<noteq> 0 \<or> st_kind (reply_stat r) \<noteq> S_IFREG
        then Some (Inl (inspection_error ''interpreter descriptor is not a regular file''),
                   snd (syscall K (Fd (Close fd)) w))
        else do { (x, w) \<leftarrow> digest_fd strerror E K fd w;
                  Some (x, snd (syscall K (Fd (Close fd)) w)) })"

text \<open>\<open>pkgexec::interpreter_identity::from_sha256\<close> belongs to libpkgexec.\<close>

definition interpreter_identity :: "'c evp \<Rightarrow> (string \<Rightarrow> 'i) \<Rightarrow> string \<Rightarrow> error + 'i" where
  "interpreter_identity E from_sha256 digest =
     bind_result (sha256_hex E ''pkgexec-linux/interpreter/v1'' digest) (\<lambda>h. Inr (from_sha256 h))"

section \<open>Symbolic links\<close>

fun symlink_scan :: "'k kernel \<Rightarrow> path \<Rightarrow> string list \<Rightarrow> 'k world \<Rightarrow> bool \<times> 'k world" where
  "symlink_scan K current [] w = (False, w)"
| "symlink_scan K current (component # components) w =
     (let current = path_append current component;
          (r, w) = invoke K (Fs (Lstat current)) w in
      if ret r \<noteq> 0 then (True, w)
      else if st_kind (reply_stat r) = S_IFLNK then (True, w)
      else symlink_scan K current components w)"

definition path_has_symlink_component :: "'k kernel \<Rightarrow> path \<Rightarrow> 'k world \<Rightarrow> bool \<times> 'k world" where
  "path_has_symlink_component K p w =
     (if \<not> is_absolute p then (True, w)
      else symlink_scan K (root_path p) (path_elements (relative_path p)) w)"

section \<open>Supplementary groups\<close>

definition reply_gids :: "reply \<Rightarrow> u32 list" where
  "reply_gids r = (case out r of Gids_data gs \<Rightarrow> gs | _ \<Rightarrow> [])"

text \<open>The vector has \<open>count\<close> zero elements, and \<open>getgroups\<close> writes the first of them.\<close>

definition native_groups :: "nat \<Rightarrow> reply \<Rightarrow> u32 list" where
  "native_groups count r = take count (reply_gids r @ replicate count 0)"

text \<open>\<open>std::sort\<close>, \<open>std::unique\<close> and \<open>std::remove\<close>, each with its \<open>erase\<close>.\<close>

definition group_ids :: "u32 list \<Rightarrow> int \<Rightarrow> u64 list" where
  "group_ids native gid =
     filter (\<lambda>x. x \<noteq> word_of_int gid) (remdups_adj (sort (map (\<lambda>g. ucast g :: u64) native)))"

definition current_groups ::
  "(int \<Rightarrow> string) \<Rightarrow> 'k kernel \<Rightarrow> 'k world \<Rightarrow> (error + u64 list) \<times> 'k world" where
  "current_groups strerror K w =
     (let (count, w) = syscall K (Proc (Getgroups 0)) w in
      if count < 0 then (Inl (Error Invalid_value (errno_message strerror ''getgroups'' (errno w))), w)
      else let (native, w) =
          (if count > 0
           then let (r, w) = invoke K (Proc (Getgroups count)) w
                in (if ret r < 0 then Inl (Error Invalid_value (errno_message strerror ''getgroups'' (errno w)))
                    else Inr (native_groups (nat count) r), w)
           else (Inr [], w)) in
        case native of
          Inl e \<Rightarrow> (Inl e, w)
        | Inr native \<Rightarrow>
            let (gid, w) = syscall K (Proc Getgid) w in (Inr (group_ids native gid), w))"

section \<open>Hexadecimal text\<close>

definition hex_value :: "char \<Rightarrow> nat" where
  "hex_value c = (let n = of_char c in if n < 58 then n - 48 else n - 87)"

fun unhex :: "string \<Rightarrow> byte list" where
  "unhex (a # b # s) = of_nat (16 * hex_value a + hex_value b) # unhex s"
| "unhex _ = []"

lemma hex_value_digit: "n < 16 \<Longrightarrow> hex_value (hex_digit n) = n"
  by (auto simp: hex_value_def hex_digit_def Let_def)

lemma unhex_hex_bytes [simp]: "unhex (hex_bytes bs) = bs"
proof (induction bs)
  case (Cons b bs)
  have "unat b < 256" using unsigned_less [of b] by simp
  then have "hex_value (hex_digit (unat b div 16)) = unat b div 16" "hex_value (hex_digit (unat b mod 16)) = unat b mod 16"
    by (simp_all add: hex_value_digit)
  then have "(of_nat (16 * hex_value (hex_digit (unat b div 16)) + hex_value (hex_digit (unat b mod 16))) :: byte) = b"
    by simp
  with Cons show ?case by (simp add: hex_bytes_def)
qed (simp add: hex_bytes_def)

lemma hex_bytes_inject [simp]: "hex_bytes a = hex_bytes b \<longleftrightarrow> a = b"
  by (metis unhex_hex_bytes)

lemma length_hex_bytes [simp]: "length (hex_bytes bs) = 2 * length bs"
  by (induction bs) (simp_all add: hex_bytes_def)

section \<open>Properties of the digests\<close>

text \<open>
  The documented behaviour of the digest functions: a context absorbs the bytes it is given,
  in order, and yields the 32-byte hash of all of them.
\<close>

definition evp_law :: "'c evp \<Rightarrow> ('c \<Rightarrow> byte list) \<Rightarrow> (byte list \<Rightarrow> byte list) \<Rightarrow> bool" where
  "evp_law E absorbed H \<longleftrightarrow>
     (\<exists>c0 c. evp_new E = Some c0 \<and> evp_init E c0 = Some c \<and> absorbed c = []) \<and>
     (\<forall>c bs. \<exists>c'. evp_update E c bs = Some c' \<and> absorbed c' = absorbed c @ bs) \<and>
     (\<forall>c. evp_final E c = Some (H (absorbed c))) \<and> (\<forall>m. length (H m) = 32)"

text \<open>
  The descriptor refers to a file of fixed content: a read returns the next bytes, as many as
  the kernel likes but none only at the end, or is interrupted, not for ever.
\<close>

definition file_law :: "'k kernel \<Rightarrow> fd \<Rightarrow> byte list \<Rightarrow> ('k \<Rightarrow> bool) \<Rightarrow> bool" where
  "file_law K fd content P \<longleftrightarrow>
     (\<forall>k offset. P k \<longrightarrow> settles K (Fd (Pread fd 65536 offset)) k) \<and>
     (\<forall>k offset r k'. P k \<longrightarrow> K (Fd (Pread fd 65536 offset)) k = (r, k') \<longrightarrow> P k' \<and>
        (ret r < 0 \<and> err r = EINTR \<or>
         0 \<le> ret r \<and> nat (ret r) \<le> length content - offset \<and> (ret r = 0 \<longrightarrow> length content \<le> offset) \<and>
         reply_bytes r = take (nat (ret r)) (drop offset content)))"

lemma evp_law_start: "evp_law E absorbed H \<Longrightarrow> \<exists>c. digest_start E = Inr c \<and> absorbed c = []"
  by (auto simp: evp_law_def digest_start_def)

lemma evp_law_update:
  assumes "evp_law E absorbed H"
  shows "\<exists>c'. update E c bs = Inr c' \<and> absorbed c' = absorbed c @ bs"
proof -
  from assms obtain c' where "evp_update E c bs = Some c'" "absorbed c' = absorbed c @ bs"
    unfolding evp_law_def by blast
  then show ?thesis by (simp add: update_def)
qed

lemma evp_law_finish: "evp_law E absorbed H \<Longrightarrow> digest_finish E c = Inr (hex_bytes (H (absorbed c)))"
  by (simp add: evp_law_def digest_finish_def)

lemma sha256_hex_value:
  assumes "evp_law E absorbed H"
  shows "sha256_hex E domain material = Inr (hex_bytes (H (bytes_of_string domain @ [0] @ bytes_of_string material)))"
proof -
  from evp_law_start [OF assms] obtain c0 where c0: "digest_start E = Inr c0" "absorbed c0 = []" by blast
  from evp_law_update [OF assms, of c0 "bytes_of_string domain"] c0 obtain c1 where
    c1: "update E c0 (bytes_of_string domain) = Inr c1" "absorbed c1 = bytes_of_string domain" by auto
  from evp_law_update [OF assms, of c1 "[0]"] c1 obtain c2 where
    c2: "update E c1 [0] = Inr c2" "absorbed c2 = bytes_of_string domain @ [0]" by auto
  from evp_law_update [OF assms, of c2 "bytes_of_string material"] c2 obtain c3 where
    c3: "update E c2 (bytes_of_string material) = Inr c3"
      "absorbed c3 = bytes_of_string domain @ [0] @ bytes_of_string material" by auto
  from c0 c1 c2 c3 evp_law_finish [OF assms, of c3] show ?thesis
    by (simp add: sha256_hex_def bind_result_def)
qed

lemma digest_loop_absorbs:
  assumes evp: "evp_law E absorbed H" and fl: "file_law K fd content P"
  shows "P (kern w) \<Longrightarrow> offset \<le> length content \<Longrightarrow> absorbed c = take offset content \<Longrightarrow>
    \<exists>c' w'. digest_loop strerror E K fd c offset w = Some (Inr c', w') \<and> absorbed c' = content"
proof (induction "length content - offset" arbitrary: offset c w rule: less_induct)
  case less
  have "settles K (Fd (Pread fd 65536 offset)) (kern w)"
    using fl less.prems(1) unfolding file_law_def by blast
  then show ?case using less.prems
  proof (induction "kern w" arbitrary: w rule: settles.induct)
    case (now r k')
    obtain w1 where i: "invoke K (Fd (Pread fd 65536 offset)) w = (r, w1)" "kern w1 = k'"
      using now(1) by (simp add: invoke_def)
    from fl now(1,3) now(2) have l: "P k'" "0 \<le> ret r" "nat (ret r) \<le> length content - offset"
      "ret r = 0 \<longrightarrow> length content \<le> offset" "reply_bytes r = take (nat (ret r)) (drop offset content)"
      unfolding file_law_def by blast+
    show ?case
    proof (cases "ret r = 0")
      case True
      with i l now show ?thesis by (subst digest_loop.simps) simp
    next
      case False
      have rd: "read_data r = take (nat (ret r)) (drop offset content)" by (simp add: read_data_def l(5))
      from evp_law_update [OF evp, of c "read_data r"] obtain c1 where
        c1: "update E c (read_data r) = Inr c1" "absorbed c1 = absorbed c @ read_data r" by blast
      have "absorbed c1 = take (offset + nat (ret r)) content"
        using c1(2) rd now(5) by (simp add: take_add)
      moreover have "length content - (offset + nat (ret r)) < length content - offset"
        using False l(2,3) by linarith
      moreover have "offset + nat (ret r) \<le> length content" using l(3) now(4) by linarith
      ultimately have "\<exists>c' w'. digest_loop strerror E K fd c1 (offset + nat (ret r)) w1 = Some (Inr c', w') \<and> absorbed c' = content"
        using less.hyps l(1) i(2) by blast
      with i c1 False l(2) show ?thesis by (subst digest_loop.simps) simp
    qed
  next
    case (later r k')
    obtain w1 where i: "invoke K (Fd (Pread fd 65536 offset)) w = (r, w1)" "kern w1 = k'"
      using later(1) by (simp add: invoke_def)
    have "P k'" using fl later(1,6) unfolding file_law_def by blast
    with later(5) [OF i(2) [symmetric]] later i invokeD(3) [OF i(1)] show ?case
      by (subst digest_loop.simps) auto
  qed
qed

lemma digest_fd_content:
  assumes "evp_law E absorbed H" "file_law K fd content P" "P (kern w)"
  shows "\<exists>w'. digest_fd strerror E K fd w = Some (Inr (hex_bytes (H content)), w')"
proof -
  from evp_law_start [OF assms(1)] obtain c where c: "digest_start E = Inr c" "absorbed c = []" by blast
  with digest_loop_absorbs [OF assms(1,2,3), of 0 c strerror] obtain c' w' where
    "digest_loop strerror E K fd c 0 w = Some (Inr c', w')" "absorbed c' = content" by auto
  with c evp_law_finish [OF assms(1)] show ?thesis by (auto simp: digest_fd_def bind_result_def)
qed

text \<open>
  C27. Digesting a descriptor returns, and returns the hash of the file's whole content, however the
  kernel splits or interrupts the reads: under the documented behaviour of the digest functions
  and of \<open>pread\<close> on a file that does not change.
\<close>

theorem digest_fd_total:
  assumes "evp_law E absorbed H" "file_law K fd content P" "P (kern w)"
  shows "\<exists>w'. digest_fd strerror E K fd w = Some (Inr (hex_bytes (H content)), w')"
  by (rule digest_fd_content [OF assms])

text \<open>A digest that absorbs into a list and a file that is read one byte at a time.\<close>

definition list_evp :: "byte list evp" where
  "list_evp = \<lparr>evp_new = Some [], evp_init = (\<lambda>c. Some []), evp_update = (\<lambda>c bs. Some (c @ bs)),
     evp_final = (\<lambda>c. Some (replicate 31 0 @ [fold (+) c 0]))\<rparr>"

definition byte_file :: "byte list \<Rightarrow> bool kernel" where
  "byte_file content c interrupted =
     (if interrupted then (err_reply EINTR, False)
      else (case c of Fd (Pread fd n offset) \<Rightarrow>
              (if offset < length content then data_reply 1 (Bytes_data [content ! offset]) else num_reply 0, True)
            | _ \<Rightarrow> (ok_reply, interrupted)))"

lemma list_evp_law: "evp_law list_evp (\<lambda>c. c) (\<lambda>m. replicate 31 0 @ [fold (+) m 0])"
  by (simp add: evp_law_def list_evp_def)

lemma byte_file_law: "file_law (byte_file content) fd content (\<lambda>k. True)"
proof -
  have s: "settles (byte_file content) (Fd (Pread fd 65536 offset)) False" for offset
    by (rule settles.now [OF prod.collapse [symmetric]]) (simp add: byte_file_def data_reply_def num_reply_def)
  have "settles (byte_file content) (Fd (Pread fd 65536 offset)) k" for offset k
  proof (cases k)
    case True
    then show ?thesis
      using settles.later [OF _ _ _ s, of offset k "err_reply EINTR"] by (simp add: byte_file_def err_reply_def)
  qed (simp add: s)
  then show ?thesis
    by (auto simp: file_law_def byte_file_def err_reply_def data_reply_def num_reply_def reply_bytes_def
        take_Suc_conv_app_nth hd_drop_conv_nth take_Suc Suc_le_eq split: if_splits)
qed

theorem digest_fd_total_witness:
  "\<exists>w'. digest_fd (\<lambda>e. []) list_evp (byte_file [1, 2, 3]) 5 (start_world True) =
     Some (Inr (hex_bytes (replicate 31 0 @ [6])), w')"
  using digest_fd_total [OF list_evp_law byte_file_law [of "[1, 2, 3]" 5], of "\<lambda>e. []" "start_world True"] by simp

section \<open>Properties of the path and group checks\<close>

lemma join_slash_snoc: "ns \<noteq> [] \<Longrightarrow> join_slash (ns @ [n]) = join_slash ns @ ''/'' @ n"
  by (induction ns rule: join_slash.induct) auto

lemma path_append_join:
  assumes "list_all plain ns" "plain n"
  shows "path_append (CHR ''/'' # join_slash ns) n = CHR ''/'' # join_slash (ns @ [n])"
proof -
  have n: "\<not> is_absolute n" using assms(2) by (cases n) (auto simp: is_absolute_def plain_def)
  show ?thesis
  proof (cases "ns = []")
    case False
    with join_slash_last [OF assms(1)] n show ?thesis by (simp add: path_append_def join_slash_snoc)
  qed (use n in \<open>simp add: path_append_def\<close>)
qed

lemma symlink_scan_False:
  assumes "symlink_scan K (CHR ''/'' # join_slash ms) ns w = (False, w')" "list_all plain ms" "list_all plain ns"
  shows "extends w w' \<and> map fst (calls_between w w') =
      map (\<lambda>i. Fs (Lstat (CHR ''/'' # join_slash (ms @ take (Suc i) ns)))) [0..<length ns] \<and>
    (\<forall>(c, r) \<in> set (calls_between w w'). ret r = 0 \<and> st_kind (reply_stat r) \<noteq> S_IFLNK)"
  using assms
proof (induction ns arbitrary: ms w)
  case (Cons n ns)
  let ?p = "CHR ''/'' # join_slash (ms @ [n])"
  have n: "plain n" "list_all plain (ms @ [n])" "list_all plain ns" using Cons.prems by simp_all
  obtain r w1 where i: "invoke K (Fs (Lstat ?p)) w = (r, w1)" by fastforce
  with Cons.prems(1) path_append_join [OF Cons.prems(2) n(1)] have
    r: "ret r = 0" "st_kind (reply_stat r) \<noteq> S_IFLNK" and s: "symlink_scan K ?p ns w1 = (False, w')"
    by (auto split: if_splits)
  from Cons.IH [OF s n(2,3)] have e: "extends w1 w'" and
    m: "map fst (calls_between w1 w') = map (\<lambda>i. Fs (Lstat (CHR ''/'' # join_slash ((ms @ [n]) @ take (Suc i) ns)))) [0..<length ns]"
    and a: "\<forall>(c, r) \<in> set (calls_between w1 w'). ret r = 0 \<and> st_kind (reply_stat r) \<noteq> S_IFLNK" by blast+
  have c: "calls_between w w' = (Fs (Lstat ?p), r) # calls_between w1 w'"
    using calls_between_trans [OF invoke_extends [OF i] e] calls_between_invoke [OF i] by simp
  have "[0..<length (n # ns)] = 0 # map Suc [0..<length ns]" by (simp add: upt_conv_Cons map_Suc_upt del: upt_Suc)
  with c m a r extends_trans [OF invoke_extends [OF i] e] show ?case by (simp add: comp_def del: upt_Suc)
qed simp

text \<open>
  C33. A path in canonical form passes the symbolic-link check only if every one of its leading
  directories and the path itself were examined, in that order, each exists, and none is a
  symbolic link.
\<close>

theorem symlink_check_examines_every_prefix:
  assumes "path_has_symlink_component K (CHR ''/'' # join_slash ns) w = (False, w')" "list_all plain ns"
  shows "map fst (calls_between w w') = map (\<lambda>i. Fs (Lstat (CHR ''/'' # join_slash (take (Suc i) ns)))) [0..<length ns] \<and>
    (\<forall>(c, r) \<in> set (calls_between w w'). ret r = 0 \<and> st_kind (reply_stat r) \<noteq> S_IFLNK)"
proof -
  have "path_elements (relative_path (CHR ''/'' # join_slash ns)) = ns"
  proof (cases "ns = []")
    case False
    then obtain c s where cs: "join_slash ns = c # s" "c \<noteq> CHR ''/''"
      using assms(2) by (cases ns rule: join_slash.cases) (auto simp: plain_def neq_Nil_conv)
    then have "relative_path (CHR ''/'' # join_slash ns) = join_slash ns" by (simp add: relative_path_def)
    moreover have "\<not> is_absolute (join_slash ns)" using cs by (simp add: is_absolute_def)
    ultimately show ?thesis
      using join_slash_last [OF assms(2) False] filenames_join(1) [OF assms(2)]
      by (simp add: path_elements_def relative_elements_def)
  qed (simp add: relative_path_def path_elements_def relative_elements_def is_absolute_def filenames_def)
  then have "symlink_scan K (CHR ''/'' # join_slash []) ns w = (False, w')"
    using assms(1) by (simp add: path_has_symlink_component_def is_absolute_def root_path_def)
  from symlink_scan_False [OF this _ assms(2)] show ?thesis by simp
qed

theorem symlink_check_examines_every_prefix_witness:
  "\<exists>w'. path_has_symlink_component scripted ''/usr/sh'' (start_world []) = (False, w') \<and>
     map fst (calls_between (start_world []) w') = [Fs (Lstat ''/usr''), Fs (Lstat ''/usr/sh'')]"
proof -
  have "\<exists>w'. path_has_symlink_component scripted (CHR ''/'' # join_slash [''usr'', ''sh'']) (start_world []) = (False, w')"
    by (simp add: path_has_symlink_component_def is_absolute_def root_path_def relative_path_def path_elements_def
        relative_elements_def filenames_def path_append_def scripted_simps reply_stat_def zero_stat_def)
  then obtain w' where r: "path_has_symlink_component scripted (CHR ''/'' # join_slash [''usr'', ''sh'']) (start_world []) = (False, w')"
    by blast
  from symlink_check_examines_every_prefix [OF r] r show ?thesis by (auto simp: plain_def upt_conv_Cons)
qed

lemma strict_sorted_remdups_adj: "sorted xs \<Longrightarrow> sorted_wrt (<) (remdups_adj xs)"
  by (induction xs rule: remdups_adj.induct) (auto simp: order.strict_iff_order)

text \<open>
  C34. The supplementary groups compared with a request are in canonical form: strictly increasing, and
  exactly the groups of the process without its primary group.
\<close>

theorem group_ids_canonical:
  "sorted_wrt (<) (group_ids native gid) \<and>
   set (group_ids native gid) = (\<lambda>g. ucast g) ` set native - {word_of_int gid}"
proof -
  have "sorted_wrt (<) (remdups_adj (sort (map (\<lambda>g. ucast g :: u64) native)))"
    by (rule strict_sorted_remdups_adj) simp
  then show ?thesis by (auto simp: group_ids_def sorted_wrt_filter)
qed

end
