(* ===== verification/Interpreter.thy ===== *)
theory Interpreter
  imports Support "HOL-Library.Multiset"
begin

text \<open>
  \<open>src/interpreter.cpp\<close> and the lookup of bindings in \<open>src/backend.cpp\<close>: inspecting an interpreter,
  the order on bindings, the sorted vector without duplicate identities that both backends keep,
  and the binary search in it. Identities come from libpkgexec: any linearly ordered type.
\<close>

section \<open>Bindings\<close>

record 'i interpreter_binding =
  identity :: 'i
  executable :: path
  content_digest :: string

definition inspect ::
  "(int \<Rightarrow> string) \<Rightarrow> 'c evp \<Rightarrow> (string \<Rightarrow> 'i) \<Rightarrow> 'k kernel \<Rightarrow> path \<Rightarrow> 'k world \<Rightarrow>
   ((error + 'i interpreter_binding) \<times> 'k world) option" where
  "inspect strerror E from_sha256 K exe w =
     (if \<not> is_absolute exe then Some (Inl (Error Invalid_value ''interpreter path must be absolute''), w)
      else let (r, w) = invoke K (Fs (Canonical exe)) w in
        if ret r < 0
        then Some (Inl (inspection_error (''cannot resolve interpreter '' @ exe @ '': '' @ strerror (err r))), w)
        else let canonical = reply_text r; (linked, w) = path_has_symlink_component K canonical w in
          if linked
          then Some (Inl (inspection_error ''resolved interpreter path contains a symlink component''), w)
          else let (r, w) = invoke K (Fs (Stat canonical)) w in
            if ret r \<noteq> 0 \<or> st_kind (reply_stat r) \<noteq> S_IFREG
            then Some (Inl (inspection_error (''interpreter is not a regular file: '' @ canonical)), w)
            else let (n, w) = syscall K (Fs (Access canonical [X_OK])) w in
              if n \<noteq> 0 then Some (Inl (inspection_error (''interpreter is not executable: '' @ canonical)), w)
              else do { (d, w) \<leftarrow> digest_file strerror E K canonical w;
                        Some (bind_result d (\<lambda>digest.
                                bind_result (interpreter_identity E from_sha256 digest) (\<lambda>i.
                                  Inr \<lparr>identity = i, executable = canonical, content_digest = digest\<rparr>)), w) })"

definition binding_eq :: "'i interpreter_binding \<Rightarrow> 'i interpreter_binding \<Rightarrow> bool" where
  "binding_eq a b \<longleftrightarrow>
     identity a = identity b \<and> path_eq (executable a) (executable b) \<and> content_digest a = content_digest b"

text \<open>\<open>path::compare\<close>: the root directory first, then the elements in lexicographic order.\<close>

definition path_key :: "path \<Rightarrow> bool \<times> string list" where
  "path_key p = (is_absolute p, path_elements p)"

definition binding_key :: "'i interpreter_binding \<Rightarrow> 'i \<times> (bool \<times> string list) \<times> string" where
  "binding_key b = (identity b, path_key (executable b), content_digest b)"

definition binding_less :: "('i :: linorder) interpreter_binding \<Rightarrow> 'i interpreter_binding \<Rightarrow> bool" where
  "binding_less a b \<longleftrightarrow> binding_key a < binding_key b"

section \<open>The bindings of a backend\<close>

fun adjacent_duplicate :: "'i interpreter_binding list \<Rightarrow> bool" where
  "adjacent_duplicate (a # b # bs) = (identity a = identity b \<or> adjacent_duplicate (b # bs))"
| "adjacent_duplicate _ = False"

text \<open>
  \<open>make\<close> of both backends up to the probe. \<open>std::sort\<close> may order equivalent bindings in any way;
  those have the same identity and are rejected by the next test.
\<close>

definition admit_interpreters ::
  "('i :: linorder) interpreter_binding list \<Rightarrow> error + 'i interpreter_binding list" where
  "admit_interpreters bs =
     (if bs = [] then Inl (Error Invalid_value ''at least one exact interpreter binding is required'')
      else let bs = sort_key binding_key bs in
        if adjacent_duplicate bs then Inl (Error Duplicate_interpreter ''duplicate interpreter identity'')
        else Inr bs)"

text \<open>\<open>std::lower_bound\<close> on the elements from \<open>first\<close>, \<open>len\<close> of them.\<close>

function lower_bound :: "('a :: linorder) list \<Rightarrow> 'a \<Rightarrow> nat \<Rightarrow> nat \<Rightarrow> nat" where
  "lower_bound ks key first len =
     (if len = 0 then first
      else let half = len div 2; middle = first + half in
        if ks ! middle < key then lower_bound ks key (middle + 1) (len - half - 1)
        else lower_bound ks key first half)"
  by pat_completeness auto
termination
  by (relation "measure (\<lambda>(_, _, _, len). len)") auto

declare lower_bound.simps [simp del]

definition find_interpreter ::
  "('i :: linorder) interpreter_binding list \<Rightarrow> 'i \<Rightarrow> 'i interpreter_binding option" where
  "find_interpreter bs key =
     (let found = lower_bound (map identity bs) key 0 (length bs)
      in if found \<noteq> length bs \<and> identity (bs ! found) = key then Some (bs ! found) else None)"

section \<open>Properties\<close>

lemma lower_bound_position:
  assumes "sorted ks" "first + len \<le> length ks"
    and "\<And>i. i < first \<Longrightarrow> ks ! i < key"
    and "\<And>i. first + len \<le> i \<Longrightarrow> i < length ks \<Longrightarrow> key \<le> ks ! i"
  shows "lower_bound ks key first len \<le> length ks \<and>
    (\<forall>i < lower_bound ks key first len. ks ! i < key) \<and>
    (\<forall>i. lower_bound ks key first len \<le> i \<longrightarrow> i < length ks \<longrightarrow> key \<le> ks ! i)"
  using assms
proof (induction ks key first len rule: lower_bound.induct)
  case (1 ks key first len)
  have mono: "ks ! i \<le> ks ! j" if "i \<le> j" "j < length ks" for i j
    using sorted_nth_mono [OF 1(3), of i j] that by simp
  show ?case
  proof (cases "len = 0")
    case True
    with 1(4-6) show ?thesis by (subst (1 2 3) lower_bound.simps) simp
  next
    case False
    define half where "half = len div 2"
    have h: "half < len" using False by (simp add: half_def)
    show ?thesis
    proof (cases "ks ! (first + half) < key")
      case True
      have "ks ! i < key" if "i < first + half + 1" for i
        using mono [of i "first + half"] True that h 1(4) by simp
      with 1(1) [OF False half_def refl True] 1(3-) h have
        "lower_bound ks key (first + half + 1) (len - half - 1) \<le> length ks \<and>
         (\<forall>i < lower_bound ks key (first + half + 1) (len - half - 1). ks ! i < key) \<and>
         (\<forall>i. lower_bound ks key (first + half + 1) (len - half - 1) \<le> i \<longrightarrow> i < length ks \<longrightarrow> key \<le> ks ! i)"
        by simp
      with False True show ?thesis by (subst (1 2 3) lower_bound.simps) (simp add: half_def Let_def)
    next
      case nless: False
      have "key \<le> ks ! i" if "first + half \<le> i" "i < length ks" for i
        using mono [of "first + half" i] nless that by (meson linorder_not_less order_trans)
      with 1(2) [OF False half_def refl nless] 1(3-) h have
        "lower_bound ks key first half \<le> length ks \<and>
         (\<forall>i < lower_bound ks key first half. ks ! i < key) \<and>
         (\<forall>i. lower_bound ks key first half \<le> i \<longrightarrow> i < length ks \<longrightarrow> key \<le> ks ! i)"
        by simp
      with False nless show ?thesis by (subst (1 2 3) lower_bound.simps) (simp add: half_def Let_def)
    qed
  qed
qed

lemma sorted_key_identity: "sorted (map binding_key bs) \<Longrightarrow> sorted (map identity bs)"
  by (induction bs) (auto simp: binding_key_def less_eq_prod_def)

lemma distinct_identities:
  "sorted (map identity bs) \<Longrightarrow> \<not> adjacent_duplicate bs \<Longrightarrow> distinct (map identity bs)"
  by (induction bs rule: adjacent_duplicate.induct) (auto simp: order.strict_iff_order)

lemma find_interpreter_sorted:
  assumes "sorted (map identity bs)" "distinct (map identity bs)"
  shows "find_interpreter bs key = Some b \<longleftrightarrow> b \<in> set bs \<and> identity b = key"
proof -
  let ?f = "lower_bound (map identity bs) key 0 (length bs)"
  from lower_bound_position [OF assms(1), of 0 "length bs" key] have
    f: "?f \<le> length bs" "\<And>i. i < ?f \<Longrightarrow> identity (bs ! i) < key"
      "\<And>i. ?f \<le> i \<Longrightarrow> i < length bs \<Longrightarrow> key \<le> identity (bs ! i)" by auto
  show ?thesis
  proof
    assume "find_interpreter bs key = Some b"
    then have "?f \<noteq> length bs" "identity (bs ! ?f) = key" "b = bs ! ?f"
      by (auto simp: find_interpreter_def Let_def split: if_splits)
    with f(1) show "b \<in> set bs \<and> identity b = key" by simp
  next
    assume b: "b \<in> set bs \<and> identity b = key"
    then obtain i where i: "i < length bs" "bs ! i = b" by (auto simp: in_set_conv_nth)
    with f(2) [of i] b have "?f \<le> i" by (metis linorder_not_less order_less_irrefl)
    with i have "key \<le> identity (bs ! ?f)" "identity (bs ! ?f) \<le> identity (bs ! i)"
      using f(3) [of ?f] sorted_nth_mono [OF assms(1), of ?f i] by simp_all
    with i b have e: "identity (bs ! ?f) = identity (bs ! i)" by simp
    with i \<open>?f \<le> i\<close> assms(2) have "?f = i" by (simp add: distinct_conv_nth) (metis nth_map order_le_less_trans)
    with i b show "find_interpreter bs key = Some b" by (simp add: find_interpreter_def)
  qed
qed


lemma admitted_lookup:
  assumes "admit_interpreters bs = Inr admitted"
  shows "find_interpreter admitted key = Some b \<longleftrightarrow> b \<in> set bs \<and> identity b = key"
proof -
  from assms have a: "admitted = sort_key binding_key bs" "\<not> adjacent_duplicate admitted"
    by (auto simp: admit_interpreters_def Let_def split: if_splits)
  then have "sorted (map identity admitted)" by (simp add: sorted_key_identity)
  with distinct_identities [OF this a(2)] a(1) show ?thesis by (simp add: find_interpreter_sorted)
qed

text \<open>
  C25. The binary search is exact on an admitted vector: looking up an identity finds precisely the
  binding the caller supplied for it.
\<close>

theorem interpreter_lookup_exact:
  assumes "admit_interpreters bs = Inr admitted"
  shows "find_interpreter admitted key = Some b \<longleftrightarrow> b \<in> set bs \<and> identity b = key"
  by (rule admitted_lookup [OF assms])

lemma adjacent_duplicate_not_distinct: "adjacent_duplicate bs \<Longrightarrow> \<not> distinct (map identity bs)"
  by (induction bs rule: adjacent_duplicate.induct) auto

text \<open>
  C26. Admission fails exactly on an empty vector or one with two bindings for the same identity, with
  the error code that names the reason, and otherwise keeps every binding.
\<close>

theorem interpreter_admission:
  "(case admit_interpreters bs of
      Inl e \<Rightarrow> (bs = [] \<and> error_code_of e = Invalid_value) \<or>
               (bs \<noteq> [] \<and> \<not> distinct (map identity bs) \<and> error_code_of e = Duplicate_interpreter)
    | Inr admitted \<Rightarrow> bs \<noteq> [] \<and> distinct (map identity bs) \<and> mset admitted = mset bs \<and>
        sorted_wrt binding_less admitted)"
proof -
  let ?s = "sort_key binding_key bs"
  have m: "mset ?s = mset bs" by simp
  then have d: "distinct (map identity ?s) = distinct (map identity bs)"
    by (simp only: distinct_map set_sort distinct_sort)
  have "sorted (map identity ?s)" by (simp add: sorted_key_identity)
  note di = distinct_identities [OF this]
  show ?thesis
  proof (cases "bs = [] \<or> adjacent_duplicate ?s")
    case True
    with adjacent_duplicate_not_distinct [of ?s] d show ?thesis by (auto simp: admit_interpreters_def Let_def)
  next
    case False
    with di have dd: "distinct (map identity ?s)" by simp
    then have "distinct (map binding_key ?s)" by (auto simp: distinct_map inj_on_def binding_key_def)
    moreover have "sorted (map binding_key ?s)" by simp
    ultimately have "sorted_wrt (<) (map binding_key ?s)" by (simp only: strict_sorted_iff)
    then have "sorted_wrt binding_less ?s" by (simp add: sorted_wrt_map binding_less_def [abs_def])
    with False dd d m show ?thesis by (simp add: admit_interpreters_def Let_def)
  qed
qed

section \<open>The identity of an interpreter\<close>

lemma kern_kept_symlink_scan:
  assumes "\<And>c k. P k \<Longrightarrow> P (snd (K c k))"
  shows "P (kern w) \<Longrightarrow> symlink_scan K p ns w = (b, w') \<Longrightarrow> P (kern w')"
proof (induction ns arbitrary: p w)
  case (Cons n ns)
  obtain r w1 where i: "invoke K (Fs (Lstat (path_append p n))) w = (r, w1)" by fastforce
  from kern_kept_invoke [OF assms Cons.prems(1) i] have "P (kern w1)" .
  with Cons i show ?case by (auto split: if_splits)
qed simp

text \<open>The file behind the opened path has the given content in every state the kernel can reach.\<close>

definition opens_content :: "'k kernel \<Rightarrow> path \<Rightarrow> byte list \<Rightarrow> ('k \<Rightarrow> bool) \<Rightarrow> bool" where
  "opens_content K p content P \<longleftrightarrow>
     (\<forall>c k. P k \<longrightarrow> P (snd (K c k))) \<and>
     (\<forall>k r k'. P k \<longrightarrow> K (Fs (Open p open_interpreter_flags)) k = (r, k') \<longrightarrow> ret r \<ge> 0 \<longrightarrow> file_law K (ret r) content P)"

lemma opens_contentD:
  assumes "opens_content K p content P" "P (kern w)" "syscall K (Fs (Open p open_interpreter_flags)) w = (fd, w')" "fd \<ge> 0"
  shows "file_law K fd content P"
  using assms(3) by (rule syscallD) (use assms(1,2,4) in \<open>auto simp: opens_content_def\<close>)

lemma digest_file_content:
  assumes run: "digest_file strerror E K p w = Some (Inr d, w')"
    and evp: "evp_law E absorbed H" and oc: "opens_content K p content P" and k: "P (kern w)"
  shows "d = hex_bytes (H content)"
proof -
  have keep: "\<And>c k. P k \<Longrightarrow> P (snd (K c k))" using oc by (simp add: opens_content_def)
  obtain fd w1 where o: "syscall K (Fs (Open p open_interpreter_flags)) w = (fd, w1)" by fastforce
  obtain r w2 where s: "invoke K (Fs (Fstat fd)) w1 = (r, w2)" by fastforce
  from run o s have fd: "fd \<ge> 0" and "ret r = 0 \<and> st_kind (reply_stat r) = S_IFREG"
    by (auto simp: digest_file_def bind_eq_Some_conv split: if_splits)
  with run o s obtain w3 where g: "digest_fd strerror E K fd w2 = Some (Inr d, w3)"
    by (auto simp: digest_file_def bind_eq_Some_conv split: if_splits)
  note fl = opens_contentD [OF oc k o fd]
  have "P (kern w2)" using kern_kept_invoke [OF keep kern_kept_syscall [OF keep k o] s] .
  from digest_fd_content [OF evp fl this, of strerror] g show ?thesis by auto
qed



text \<open>One regular file with given content, at every path.\<close>

definition one_file :: "byte list \<Rightarrow> unit kernel" where
  "one_file content c k =
     (case c of
        Fs (Open p fl) \<Rightarrow> num_reply 5
      | Fs (Canonical p) \<Rightarrow> data_reply 0 (Text_data p)
      | Fs (Fstat fd) \<Rightarrow> data_reply 0 (Stat_data \<lparr>st_kind = S_IFREG, st_dev = 1, st_ino = 2\<rparr>)
      | Fs (Stat p) \<Rightarrow> data_reply 0 (Stat_data \<lparr>st_kind = S_IFREG, st_dev = 1, st_ino = 2\<rparr>)
      | Fd (Pread fd n offset) \<Rightarrow>
          data_reply (int (length (drop offset content))) (Bytes_data (drop offset content))
      | _ \<Rightarrow> ok_reply, ())"

lemma one_file_opens: "opens_content (one_file content) p content (\<lambda>k. True)"
proof -
  have "settles (one_file content) (Fd (Pread fd 65536 offset)) k" for fd offset k
    by (rule settles.now [OF prod.collapse [symmetric]]) (simp add: one_file_def data_reply_def)
  then show ?thesis
    by (auto simp: opens_content_def file_law_def one_file_def data_reply_def reply_bytes_def)
qed

lemma one_file_inspected:
  "\<exists>w' b. inspect (\<lambda>e. []) list_evp (\<lambda>h. h) (one_file [1, 2]) ''/sh'' (start_world ()) = Some (Inr b, w') \<and>
     executable b = ''/sh''"
proof -
  show ?thesis
    by (simp add: inspect_def is_absolute_def path_has_symlink_component_def root_path_def relative_path_def
        path_elements_def relative_elements_def filenames_def path_append_def one_file_def invoke_def syscall_def
        start_world_def data_reply_def num_reply_def ok_reply_def reply_text_def reply_stat_def zero_stat_def
        digest_file_def digest_fd_def digest_start_def digest_finish_def interpreter_identity_def sha256_hex_def
        bind_result_def update_def list_evp_def digest_loop.simps read_data_def reply_bytes_def bytes_of_string_def Let_def)
qed


definition sample_bindings :: "nat interpreter_binding list" where
  "sample_bindings = [\<lparr>identity = 2, executable = ''/bin/sh'', content_digest = ''b''\<rparr>,
     \<lparr>identity = 1, executable = ''/bin/dash'', content_digest = ''a''\<rparr>]"

theorem interpreter_lookup_exact_witness:
  "\<exists>admitted. admit_interpreters sample_bindings = Inr admitted \<and>
     find_interpreter admitted 2 = Some (sample_bindings ! 0)"
proof -
  have "\<exists>admitted. admit_interpreters sample_bindings = Inr admitted"
    by (simp add: admit_interpreters_def sample_bindings_def binding_key_def less_eq_prod_def)
  then obtain admitted where a: "admit_interpreters sample_bindings = Inr admitted" by blast
  from interpreter_lookup_exact [OF a, of 2 "sample_bindings ! 0"] a show ?thesis
    by (auto simp: sample_bindings_def)
qed

end
