(* ===== verification/Mount_Isolation.thy ===== *)
theory Mount_Isolation
  imports Support
begin

text \<open>
  \<open>src/mount_isolation.cpp\<close> and \<open>src/mount_isolation.h\<close>: admission of the root view and of the
  resources of a request, realization of the private root in the child, the removal of the
  scratch directory by the parent, and the probe. Descriptors held by \<open>owned_fd\<close> are closed
  where their scope ends, the last one opened first.
\<close>

section \<open>Data\<close>

datatype resource_access = Read_only | Writable

text \<open>The roles the source names; any other role of libpkgexec is \<open>Other_role\<close>.\<close>

datatype resource_role =
    Source_tree | Build_input_tree | Check_input_tree | Package_tree
  | Build_workspace | Package_output_root | Private_temporary_root | Managed_target_root | Other_role

text \<open>What the source reads of a \<open>pkgexec::resource_binding\<close>.\<close>

record resource_binding =
  binding_role :: resource_role
  binding_access :: resource_access
  mount_point :: string
  binding_resource :: string

record inode_identity =
  device :: u64
  inode :: u64

definition zero_identity :: inode_identity where
  "zero_identity = \<lparr>device = 0, inode = 0\<rparr>"

record isolated_binding =
  source_fd :: fd
  source_identity :: inode_identity
  target_identity :: inode_identity
  realized_access :: resource_access
  logical_path :: string
  synthetic_destination :: bool

record isolated_namespace =
  namespace_path :: string
  namespace_identity :: inode_identity
  children :: "string list"

record isolated_admission =
  root_source_fd :: fd
  admitted_bindings :: "isolated_binding list"
  namespaces :: "isolated_namespace list"
  scratch_path :: path
  cleanup_attempted :: bool

datatype mount_setup_stage =
    Mount_namespace | Private_propagation | Scratch_mount | Root_tree | Resource_tree | Input_namespace
  | Device_filesystem | Root_entry | Probe_preparation | Capability_drop | Parent_cleanup | Fixture_cleanup
  | Fixture_material_cleanup | Fixture_resource_cleanup | Fixture_device_cleanup | Fixture_view_cleanup
  | Fixture_root_cleanup

definition mount_stage_code :: "mount_setup_stage \<Rightarrow> u32" where
  "mount_stage_code stage =
     (case stage of
        Mount_namespace \<Rightarrow> 0 | Private_propagation \<Rightarrow> 1 | Scratch_mount \<Rightarrow> 2 | Root_tree \<Rightarrow> 3
      | Resource_tree \<Rightarrow> 4 | Input_namespace \<Rightarrow> 5 | Device_filesystem \<Rightarrow> 6 | Root_entry \<Rightarrow> 7
      | Probe_preparation \<Rightarrow> 8 | Capability_drop \<Rightarrow> 9 | Parent_cleanup \<Rightarrow> 10 | Fixture_cleanup \<Rightarrow> 11
      | Fixture_material_cleanup \<Rightarrow> 12 | Fixture_resource_cleanup \<Rightarrow> 13 | Fixture_device_cleanup \<Rightarrow> 14
      | Fixture_view_cleanup \<Rightarrow> 15 | Fixture_root_cleanup \<Rightarrow> 16)"

text \<open>The stage is the 32-bit value that travels through the pipe of the probe.\<close>

record mount_setup_failure =
  mount_stage :: u32
  mount_error :: u32

definition mount_failure :: "mount_setup_stage \<Rightarrow> int \<Rightarrow> mount_setup_failure" where
  "mount_failure stage e = \<lparr>mount_stage = mount_stage_code stage, mount_error = word_of_int e\<rparr>"

definition mount_stage_name :: "u32 \<Rightarrow> string" where
  "mount_stage_name stage =
     (if stage = 8 then ''isolated probe preparation''
      else if stage = 0 then ''mount namespace''
      else if stage = 1 then ''private mount propagation''
      else if stage = 2 then ''private scratch mount''
      else if stage = 3 then ''root mount tree''
      else if stage = 4 then ''resource mount tree''
      else if stage = 5 then ''private input namespace''
      else if stage = 6 then ''private device filesystem''
      else if stage = 7 then ''root-view entry''
      else if stage = 9 then ''capability drop''
      else if stage = 10 then ''parent isolation scratch cleanup''
      else if stage = 11 then ''isolated probe fixture cleanup''
      else if stage = 12 then ''isolated probe material cleanup''
      else if stage = 13 then ''isolated probe resource-target cleanup''
      else if stage = 14 then ''isolated probe device-target cleanup''
      else if stage = 15 then ''isolated probe root-view cleanup''
      else if stage = 16 then ''isolated probe fixture-root cleanup''
      else ''mount isolation'')"

section \<open>Paths, descriptors, identities\<close>

definition AT_FDCWD :: fd where "AT_FDCWD = -100"

definition path_open_flags :: "open_flag list" where
  "path_open_flags = [O_PATH, O_DIRECTORY, O_CLOEXEC]"

definition open_exact_path :: "'k kernel \<Rightarrow> path \<Rightarrow> 'k world \<Rightarrow> fd \<times> 'k world" where
  "open_exact_path K p w =
     syscall K (Fs (Openat2 AT_FDCWD p path_open_flags [RESOLVE_NO_SYMLINKS, RESOLVE_NO_MAGICLINKS])) w"

definition beneath :: "string \<Rightarrow> string" where
  "beneath logical =
     (let relative = dropWhile (\<lambda>c. c = CHR ''/'') logical in if relative = [] then ''.'' else relative)"

definition open_beneath :: "'k kernel \<Rightarrow> fd \<Rightarrow> string \<Rightarrow> 'k world \<Rightarrow> fd \<times> 'k world" where
  "open_beneath K root logical w =
     syscall K (Fs (Openat2 root (beneath logical) path_open_flags
       [RESOLVE_BENEATH, RESOLVE_NO_SYMLINKS, RESOLVE_NO_MAGICLINKS])) w"

definition value_error :: "string \<Rightarrow> error" where
  "value_error m = Error Invalid_value m"

definition identity_of ::
  "(int \<Rightarrow> string) \<Rightarrow> 'k kernel \<Rightarrow> fd \<Rightarrow> 'k world \<Rightarrow> (error + inode_identity) \<times> 'k world" where
  "identity_of strerror K fd w =
     (let (r, w) = invoke K (Fs (Fstat fd)) w in
      if ret r \<noteq> 0 then (Inl (value_error (errno_message strerror ''fstat admitted resource'' (errno w))), w)
      else if st_kind (reply_stat r) \<noteq> S_IFDIR
      then (Inl (value_error ''root views and execution resources must be directories''), w)
      else (Inr \<lparr>device = st_dev (reply_stat r), inode = st_ino (reply_stat r)\<rparr>, w))"

definition same_inode :: "'k kernel \<Rightarrow> fd \<Rightarrow> inode_identity \<Rightarrow> 'k world \<Rightarrow> bool \<times> 'k world" where
  "same_inode K fd expected w =
     (let (r, w) = invoke K (Fs (Fstat fd)) w
      in (ret r = 0 \<and> st_kind (reply_stat r) = S_IFDIR \<and>
          st_dev (reply_stat r) = device expected \<and> st_ino (reply_stat r) = inode expected, w))"

fun contains_elements :: "string list \<Rightarrow> string list \<Rightarrow> bool" where
  "contains_elements [] cs = (cs \<noteq> [])"
| "contains_elements (p # ps) [] = False"
| "contains_elements (p # ps) (c # cs) = (if p \<noteq> c then False else contains_elements ps cs)"

definition path_contains :: "path \<Rightarrow> path \<Rightarrow> bool" where
  "path_contains parent child_path =
     (let first = lexically_normal parent; second = lexically_normal child_path
      in if path_eq first second then True
         else contains_elements (path_elements first) (path_elements second))"

definition validate_role_access :: "resource_binding \<Rightarrow> error option" where
  "validate_role_access b =
     (if binding_role b \<in> {Source_tree, Build_input_tree, Check_input_tree, Package_tree} \<and>
         binding_access b \<noteq> Read_only
      then Some (value_error ''source, package, and package-input resources must be read-only'')
      else if binding_role b \<in> {Build_workspace, Package_output_root, Private_temporary_root, Managed_target_root} \<and>
         binding_access b \<noteq> Writable
      then Some (value_error ''workspace, output, temporary, and target resources must be writable'')
      else None)"

definition writable_by_current_credentials :: "'k kernel \<Rightarrow> fd \<Rightarrow> 'k world \<Rightarrow> bool \<times> 'k world" where
  "writable_by_current_credentials K fd w =
     (let (n, w) = syscall K (Fs (Faccessat2 fd [W_OK, X_OK])) w in (n = 0, w))"

partial_function (option) entries_absent :: "'k kernel \<Rightarrow> int \<Rightarrow> 'k world \<Rightarrow> (bool \<times> 'k world) option" where
  "entries_absent K directory w =
     (let (r, w) = invoke K (Dir (Readdir directory)) w in
      if ret r \<le> 0 then Some (True, w)
      else if reply_text r \<noteq> ''.'' \<and> reply_text r \<noteq> ''..'' then Some (False, w)
      else entries_absent K directory (set_errno 0 w))"

declare entries_absent.simps [code]

definition directory_is_empty ::
  "(int \<Rightarrow> string) \<Rightarrow> 'k kernel \<Rightarrow> fd \<Rightarrow> 'k world \<Rightarrow> ((error + bool) \<times> 'k world) option" where
  "directory_is_empty strerror K fd w =
     (let (readable, w) = syscall K (Fs (Openat fd ''.'' [O_RDONLY, O_DIRECTORY, O_CLOEXEC, O_NOFOLLOW])) w in
      if readable < 0
      then Some (Inl (value_error (errno_message strerror ''open resource namespace'' (errno w))), w)
      else let (i, w) = identity_of strerror K fd w in
        case i of
          Inl e \<Rightarrow> Some (Inl e, reset_fd K readable w)
        | Inr i \<Rightarrow>
            let (same, w) = same_inode K readable i w in
            if \<not> same
            then Some (Inl (value_error ''resource namespace changed before enumeration''), reset_fd K readable w)
            else let (directory, w) = syscall K (Dir (Fdopendir readable)) w in
              if directory < 0
              then Some (Inl (value_error (errno_message strerror ''open resource namespace stream'' (errno w))), w)
              else do { (absent, w) \<leftarrow> entries_absent K directory (set_errno 0 w);
                        let saved = errno w;
                        let (closed, w) = syscall K (Dir (Closedir directory)) w;
                        Some (if saved \<noteq> 0 \<or> closed \<noteq> 0
                              then Inl (value_error (errno_message strerror ''read resource namespace''
                                     (if saved \<noteq> 0 then saved else errno w)))
                              else Inr absent, w) })"

definition is_input_role :: "resource_role \<Rightarrow> bool" where
  "is_input_role r \<longleftrightarrow> r = Build_input_tree \<or> r = Check_input_tree"

section \<open>Mount operations\<close>

definition seal_namespace_mount :: "'k kernel \<Rightarrow> fd \<Rightarrow> 'k world \<Rightarrow> bool \<times> 'k world" where
  "seal_namespace_mount K fd w =
     (let (n, w) = syscall K (Mnt (Mount_setattr fd
        \<lparr>attr_set = [MOUNT_ATTR_RDONLY, MOUNT_ATTR_NOSUID, MOUNT_ATTR_NODEV, MOUNT_ATTR_NOEXEC],
         attr_clr = [], propagation = None\<rparr>)) w
      in (n = 0, w))"

definition clone_tree :: "'k kernel \<Rightarrow> fd \<Rightarrow> 'k world \<Rightarrow> fd \<times> 'k world" where
  "clone_tree K source w = syscall K (Mnt (Open_tree source)) w"

definition sealed_attributes :: "resource_access \<Rightarrow> mount_attr" where
  "sealed_attributes a =
     \<lparr>attr_set = [MOUNT_ATTR_NOSUID, MOUNT_ATTR_NODEV] @ (if a = Read_only then [MOUNT_ATTR_RDONLY] else []),
      attr_clr = [MOUNT_ATTR_NOEXEC] @ (if a = Read_only then [] else [MOUNT_ATTR_RDONLY]),
      propagation = Some MS_PRIVATE\<rparr>"

definition seal_tree :: "'k kernel \<Rightarrow> fd \<Rightarrow> resource_access \<Rightarrow> 'k world \<Rightarrow> bool \<times> 'k world" where
  "seal_tree K tree a w =
     (let (n, w) = syscall K (Mnt (Mount_setattr tree (sealed_attributes a))) w in (n = 0, w))"

definition attach_tree :: "'k kernel \<Rightarrow> fd \<Rightarrow> fd \<Rightarrow> 'k world \<Rightarrow> bool \<times> 'k world" where
  "attach_tree K tree target w = (let (n, w) = syscall K (Mnt (Move_mount tree target)) w in (n = 0, w))"

fun close_all :: "'k kernel \<Rightarrow> fd list \<Rightarrow> 'k world \<Rightarrow> 'k world" where
  "close_all K [] w = w"
| "close_all K (fd # fds) w = close_all K fds (reset_fd K fd w)"

section \<open>The private root\<close>

text \<open>A step that may fail: \<open>None\<close> is success.\<close>

type_synonym 'k mount_step = "mount_setup_failure option \<times> 'k world"

definition mount_failed :: "mount_setup_stage \<Rightarrow> 'k world \<Rightarrow> 'k mount_step" where
  "mount_failed stage w = (Some (mount_failure stage (errno w)), w)"

definition clone_sealed :: "'k kernel \<Rightarrow> fd \<Rightarrow> resource_access \<Rightarrow> 'k world \<Rightarrow> fd \<times> bool \<times> 'k world" where
  "clone_sealed K source a w =
     (let (tree, w) = clone_tree K source w in
      if tree < 0 then (tree, False, w)
      else let (sealed, w) = seal_tree K tree a w in (tree, sealed, w))"

fun realize_bindings ::
  "'k kernel \<Rightarrow> isolated_binding list \<Rightarrow> fd list \<Rightarrow> 'k world \<Rightarrow> mount_setup_failure option \<times> fd list \<times> 'k world" where
  "realize_bindings K [] trees w = (None, trees, w)"
| "realize_bindings K (b # bs) trees w =
     (let (tree, sealed, w) = clone_sealed K (source_fd b) (realized_access b) w in
      if \<not> sealed then (Some (mount_failure Resource_tree (errno w)), trees, reset_fd K tree w)
      else realize_bindings K bs (trees @ [tree]) w)"

definition make_devices :: "'k kernel \<Rightarrow> path \<Rightarrow> 'k world \<Rightarrow> 'k mount_step" where
  "make_devices K root w =
     (let device_path = path_append root ''dev'';
          (r, w) = invoke K (Fs (Lstat device_path)) w in
      if ret r \<noteq> 0 \<or> st_kind (reply_stat r) \<noteq> S_IFDIR
      then (Some (mount_failure Device_filesystem (if errno w = 0 then ENOTDIR else errno w)), w)
      else let (n, w) = syscall K (Mnt (Mount ''tmpfs'' device_path ''tmpfs'' [MS_NOSUID, MS_NOEXEC]
                          ''mode=0755,size=64k'')) w in
        if n \<noteq> 0 then mount_failed Device_filesystem w
        else let null_path = path_append device_path ''null'';
                 (n, w) = syscall K (Fs (Mknod null_path 438 1 3)) w in
          if n \<noteq> 0 then mount_failed Device_filesystem w
          else let (n, w) = syscall K (Fs (Chmod null_path 438)) w in
            if n \<noteq> 0 then mount_failed Device_filesystem w else (None, w))"

fun make_children :: "'k kernel \<Rightarrow> path \<Rightarrow> string list \<Rightarrow> 'k world \<Rightarrow> 'k mount_step" where
  "make_children K parent [] w = (None, w)"
| "make_children K parent (c # cs) w =
     (let (n, w) = syscall K (Fs (Mkdir (path_append parent c) 365)) w in
      if n \<noteq> 0 then mount_failed Input_namespace w else make_children K parent cs w)"

definition mount_namespace_at ::
  "'k kernel \<Rightarrow> path \<Rightarrow> fd \<Rightarrow> isolated_namespace \<Rightarrow> 'k world \<Rightarrow> 'k mount_step" where
  "mount_namespace_at K root attached ns w =
     (let (destination, w) = open_beneath K attached (namespace_path ns) w in
      if destination < 0 then mount_failed Input_namespace w
      else let (same, w) = same_inode K destination (namespace_identity ns) w in
        if \<not> same then (Some (mount_failure Input_namespace ESTALE), reset_fd K destination w)
        else let here = path_append root (relative_path (namespace_path ns));
                 (n, w) = syscall K (Mnt (Mount ''tmpfs'' here ''tmpfs'' [MS_NOSUID, MS_NODEV, MS_NOEXEC] ''mode=0755'')) w;
                 (f, w) = (if n \<noteq> 0 then mount_failed Input_namespace w else make_children K here (children ns) w)
             in (f, reset_fd K destination w))"

fun mount_namespaces ::
  "'k kernel \<Rightarrow> path \<Rightarrow> fd \<Rightarrow> isolated_namespace list \<Rightarrow> 'k world \<Rightarrow> 'k mount_step" where
  "mount_namespaces K root attached [] w = (None, w)"
| "mount_namespaces K root attached (ns # nss) w =
     (let (f, w) = mount_namespace_at K root attached ns w in
      if f \<noteq> None then (f, w) else mount_namespaces K root attached nss w)"

definition attach_binding :: "'k kernel \<Rightarrow> fd \<Rightarrow> isolated_binding \<Rightarrow> fd \<Rightarrow> 'k world \<Rightarrow> 'k mount_step" where
  "attach_binding K attached b tree w =
     (let (destination, w) = open_beneath K attached (logical_path b) w in
      if destination < 0 then mount_failed Resource_tree w
      else let (same, w) = (if synthetic_destination b then (True, w)
                            else same_inode K destination (target_identity b) w) in
        if \<not> same then (Some (mount_failure Resource_tree ESTALE), reset_fd K destination w)
        else let (moved, w) = attach_tree K tree destination w in
          if \<not> moved then (let (f, w) = mount_failed Resource_tree w in (f, reset_fd K destination w))
          else let (visible, w) = open_beneath K attached (logical_path b) w in
            if visible < 0 then (let (f, w) = mount_failed Resource_tree w in (f, reset_fd K destination w))
            else let (same, w) = same_inode K visible (source_identity b) w
                 in (if same then None else Some (mount_failure Resource_tree ESTALE),
                     reset_fd K destination (reset_fd K visible w)))"

fun attach_bindings ::
  "'k kernel \<Rightarrow> fd \<Rightarrow> (isolated_binding \<times> fd) list \<Rightarrow> 'k world \<Rightarrow> 'k mount_step" where
  "attach_bindings K attached [] w = (None, w)"
| "attach_bindings K attached ((b, tree) # rest) w =
     (let (f, w) = attach_binding K attached b tree w in
      if f \<noteq> None then (f, w) else attach_bindings K attached rest w)"

definition seal_namespace :: "'k kernel \<Rightarrow> fd \<Rightarrow> isolated_namespace \<Rightarrow> 'k world \<Rightarrow> 'k mount_step" where
  "seal_namespace K attached ns w =
     (let (fd, w) = open_beneath K attached (namespace_path ns) w in
      if fd < 0 then mount_failed Input_namespace w
      else let (sealed, w) = seal_namespace_mount K fd w;
               (f, w) = (if sealed then (None, w) else mount_failed Input_namespace w)
           in (f, reset_fd K fd w))"

fun seal_namespaces :: "'k kernel \<Rightarrow> fd \<Rightarrow> isolated_namespace list \<Rightarrow> 'k world \<Rightarrow> 'k mount_step" where
  "seal_namespaces K attached [] w = (None, w)"
| "seal_namespaces K attached (ns # nss) w =
     (let (f, w) = seal_namespace K attached ns w in
      if f \<noteq> None then (f, w) else seal_namespaces K attached nss w)"

definition enter_root :: "'k kernel \<Rightarrow> fd \<Rightarrow> 'k world \<Rightarrow> 'k mount_step" where
  "enter_root K attached w =
     (let (n, w) = syscall K (Mnt (Fchdir attached)) w in
      if n \<noteq> 0 then mount_failed Root_entry w
      else let (n, w) = syscall K (Mnt (Chroot ''.'')) w in
        if n \<noteq> 0 then mount_failed Root_entry w
        else let (n, w) = syscall K (Proc (Chdir ''/'')) w in
          if n \<noteq> 0 then mount_failed Root_entry w else (None, w))"

text \<open>The part that runs with the attached root open, and the part that runs in the new namespace.\<close>

definition populate_root ::
  "'k kernel \<Rightarrow> isolated_admission \<Rightarrow> path \<Rightarrow> fd list \<Rightarrow> fd \<Rightarrow> 'k world \<Rightarrow> 'k mount_step" where
  "populate_root K adm root trees attached w =
     (let (f, w) = make_devices K root w in
      if f \<noteq> None then (f, w)
      else let (f, w) = mount_namespaces K root attached (namespaces adm) w in
        if f \<noteq> None then (f, w)
        else let (f, w) = attach_bindings K attached (zip (admitted_bindings adm) trees) w in
          if f \<noteq> None then (f, w)
          else let (f, w) = seal_namespaces K attached (namespaces adm) w in
            if f \<noteq> None then (f, w) else enter_root K attached w)"

definition attach_root ::
  "'k kernel \<Rightarrow> isolated_admission \<Rightarrow> path \<Rightarrow> fd \<Rightarrow> fd list \<Rightarrow> 'k world \<Rightarrow> 'k mount_step" where
  "attach_root K adm root tree trees w =
     (let (target, w) = open_exact_path K root w in
      if target < 0 then mount_failed Root_tree w
      else let (moved, w) = attach_tree K tree target w in
        if \<not> moved then (let (f, w) = mount_failed Root_tree w in (f, reset_fd K target w))
        else let (attached, w) = open_exact_path K root w in
          if attached < 0 then (let (f, w) = mount_failed Root_tree w in (f, reset_fd K target w))
          else let (f, w) = populate_root K adm root trees attached w
               in (f, reset_fd K target (reset_fd K attached w)))"

definition realize_namespace ::
  "'k kernel \<Rightarrow> isolated_admission \<Rightarrow> fd \<Rightarrow> fd list \<Rightarrow> 'k world \<Rightarrow> 'k mount_step" where
  "realize_namespace K adm tree trees w =
     (let (n, w) = syscall K (Mnt (Unshare CLONE_NEWNS)) w in
      if n \<noteq> 0 then mount_failed Mount_namespace w
      else let (n, w) = syscall K (Mnt (Mount [] ''/'' [] [MS_REC, MS_PRIVATE] [])) w in
        if n \<noteq> 0 then mount_failed Private_propagation w
        else let (n, w) = syscall K (Mnt (Mount ''tmpfs'' (scratch_path adm) ''tmpfs'' [MS_NOSUID, MS_NODEV]
                            ''mode=0700,size=4m'')) w in
          if n \<noteq> 0 then mount_failed Scratch_mount w
          else let root = path_append (scratch_path adm) ''root'';
                   (n, w) = syscall K (Fs (Mkdir root 448)) w in
            if n \<noteq> 0 \<and> errno w \<noteq> EEXIST then mount_failed Scratch_mount w
            else attach_root K adm root tree trees w)"

definition create_private_root :: "'k kernel \<Rightarrow> isolated_admission \<Rightarrow> 'k world \<Rightarrow> 'k mount_step" where
  "create_private_root K adm w =
     (let (tree, sealed, w) = clone_sealed K (root_source_fd adm) Read_only w in
      if \<not> sealed then (let (f, w) = mount_failed Root_tree w in (f, reset_fd K tree w))
      else let (f, trees, w) = realize_bindings K (admitted_bindings adm) [] w;
               (f, w) = (if f \<noteq> None then (f, w) else realize_namespace K adm tree trees w)
           in (f, reset_fd K tree (close_all K trees w)))"

definition setup_isolated_filesystem :: "'k kernel \<Rightarrow> isolated_admission \<Rightarrow> 'k world \<Rightarrow> 'k mount_step" where
  "setup_isolated_filesystem K adm w = create_private_root K adm w"

section \<open>The scratch directory\<close>

definition make_scratch :: "(int \<Rightarrow> string) \<Rightarrow> 'k kernel \<Rightarrow> 'k world \<Rightarrow> (error + path) \<times> 'k world" where
  "make_scratch strerror K w =
     (let (r, w) = invoke K (Fs (Mkdtemp ''/tmp/libpkgexec-linux.XXXXXX'')) w in
      if ret r < 0 then (Inl (value_error (errno_message strerror ''mkdtemp isolation root'' (errno w))), w)
      else let scratch = reply_text r;
               (n, w) = syscall K (Fs (Chmod scratch 448)) w;
               (ok, w) = (if n \<noteq> 0 then (False, w)
                          else let (n, w) = syscall K (Fs (Mkdir (path_append scratch ''root'') 448)) w in (n = 0, w)) in
        if ok then (Inr scratch, w)
        else let saved = errno w;
                 (_, w) = syscall K (Fs (Rmdir (path_append scratch ''root''))) w;
                 (_, w) = syscall K (Fs (Rmdir scratch)) w
             in (Inl (value_error (errno_message strerror ''prepare isolation root'' saved)), w))"

definition remove_directory :: "'k kernel \<Rightarrow> path \<Rightarrow> 'k world \<Rightarrow> bool \<times> 'k world" where
  "remove_directory K p w = (let (n, w) = syscall K (Fs (Rmdir p)) w in (\<not> (n \<noteq> 0 \<and> errno w \<noteq> ENOENT), w))"

definition verify_parent_cleanup ::
  "'k kernel \<Rightarrow> isolated_admission \<Rightarrow> 'k world \<Rightarrow> bool \<times> isolated_admission \<times> 'k world" where
  "verify_parent_cleanup K adm w =
     (if cleanup_attempted adm then (scratch_path adm = [], adm, w)
      else let adm = adm\<lparr>cleanup_attempted := True\<rparr>;
               (ok, w) = (if scratch_path adm \<noteq> []
                          then let (inner, w) = remove_directory K (path_append (scratch_path adm) ''root'') w;
                                   (outer, w) = remove_directory K (scratch_path adm) w
                               in (inner \<and> outer, w)
                          else (True, w))
           in (ok, if ok then adm\<lparr>scratch_path := []\<rparr> else adm, w))"

text \<open>The destructor: cleanup when none was attempted, then the descriptors.\<close>

definition cleanup_best_effort ::
  "'k kernel \<Rightarrow> isolated_admission \<Rightarrow> 'k world \<Rightarrow> isolated_admission \<times> 'k world" where
  "cleanup_best_effort K adm w =
     (if \<not> cleanup_attempted adm \<and> scratch_path adm \<noteq> [] then snd (verify_parent_cleanup K adm w) else (adm, w))"

definition release_admission :: "'k kernel \<Rightarrow> isolated_admission \<Rightarrow> 'k world \<Rightarrow> 'k world" where
  "release_admission K adm w =
     (let (adm, w) = cleanup_best_effort K adm w
      in reset_fd K (root_source_fd adm) (close_all K (map source_fd (admitted_bindings adm)) w))"

section \<open>Admission\<close>

record admission_state =
  logical_paths :: "path list"
  host_paths :: "path list"
  source_identities :: "inode_identity list"
  admitted :: "isolated_binding list"
  input_namespaces :: "isolated_namespace list"

definition empty_admission :: admission_state where
  "empty_admission = \<lparr>logical_paths = [], host_paths = [], source_identities = [], admitted = [], input_namespaces = []\<rparr>"

definition overlaps :: "path \<Rightarrow> path \<Rightarrow> bool" where
  "overlaps p q \<longleftrightarrow> path_contains p q \<or> path_contains q p"

text \<open>The checks on the paths of one binding, before its source is opened.\<close>

definition check_paths :: "path \<Rightarrow> path \<Rightarrow> admission_state \<Rightarrow> resource_binding \<Rightarrow> error option" where
  "check_paths root host st b =
     (if path_eq (mount_point b) ''/'' then Some (value_error ''execution resources cannot replace the root view'')
      else if path_contains ''/dev'' (mount_point b)
      then Some (value_error ''execution resources cannot occupy backend-owned /dev'')
      else if list_ex (\<lambda>p. overlaps p (mount_point b)) (logical_paths st)
      then Some (value_error ''resource logical mount points cannot overlap'')
      else if overlaps root host
      then Some (value_error ''execution resource host paths cannot overlap the root view'')
      else if list_ex (\<lambda>p. overlaps p host) (host_paths st)
      then Some (value_error ''resource host paths cannot overlap'')
      else None)"

text \<open>Open the source and check what it is.\<close>

definition admit_source ::
  "(int \<Rightarrow> string) \<Rightarrow> 'k kernel \<Rightarrow> path \<Rightarrow> resource_binding \<Rightarrow> inode_identity list \<Rightarrow> 'k world \<Rightarrow>
   (error + fd \<times> inode_identity) \<times> 'k world" where
  "admit_source strerror K host b seen w =
     (let (source, w) = open_exact_path K host w in
      if source < 0
      then (Inl (value_error (errno_message strerror ''open exact execution resource'' (errno w))), w)
      else let (i, w) = identity_of strerror K source w in
        case i of
          Inl e \<Rightarrow> (Inl e, reset_fd K source w)
        | Inr i \<Rightarrow>
            if i \<in> set seen
            then (Inl (value_error ''multiple resources resolve to the same directory''), reset_fd K source w)
            else let (writable, w) = (if binding_access b = Writable then writable_by_current_credentials K source w
                                      else (True, w)) in
              if \<not> writable
              then (Inl (value_error ''writable execution resource is not writable by current credentials''),
                    reset_fd K source w)
              else (Inr (source, i), w))"

text \<open>The namespace of an input resource: found and extended, or added at the end.\<close>

fun join_namespace ::
  "string \<Rightarrow> inode_identity \<Rightarrow> string \<Rightarrow> isolated_namespace list \<Rightarrow> isolated_namespace list option" where
  "join_namespace parent i name [] = Some [\<lparr>namespace_path = parent, namespace_identity = i, children = [name]\<rparr>]"
| "join_namespace parent i name (ns # nss) =
     (if namespace_path ns = parent
      then (if namespace_identity ns = i then Some (ns\<lparr>children := children ns @ [name]\<rparr> # nss) else None)
      else map_option ((#) ns) (join_namespace parent i name nss))"

definition house_input ::
  "(int \<Rightarrow> string) \<Rightarrow> 'k kernel \<Rightarrow> fd \<Rightarrow> string \<Rightarrow> string \<Rightarrow> isolated_namespace list \<Rightarrow> error + bool \<Rightarrow> 'k world \<Rightarrow>
   (error + isolated_namespace list) \<times> 'k world" where
  "house_input strerror K target parent name nss emptiness w =
     (case emptiness of
        Inl e \<Rightarrow> (Inl e, w)
      | Inr absent \<Rightarrow>
          if \<not> absent then (Inl (value_error ''root input namespace must be empty''), w)
          else let (i, w) = identity_of strerror K target w in
            (case i of
               Inl e \<Rightarrow> Inl e
             | Inr i \<Rightarrow> (case join_namespace parent i name nss of
                           None \<Rightarrow> Inl (value_error ''root input namespace changed during admission'')
                         | Some nss \<Rightarrow> Inr nss), w))"

definition admit_input ::
  "(int \<Rightarrow> string) \<Rightarrow> 'k kernel \<Rightarrow> fd \<Rightarrow> path \<Rightarrow> isolated_namespace list \<Rightarrow> 'k world \<Rightarrow>
   ((error + isolated_namespace list) \<times> 'k world) option" where
  "admit_input strerror K root logical nss w =
     (let parent = parent_path logical; name = filename logical in
      if parent = [] \<or> path_eq parent ''/'' \<or> name = []
      then Some (Inl (value_error ''input resource mount point requires a dedicated parent namespace''), w)
      else let (target, w) = open_beneath K root parent w in
        if target < 0
        then Some (Inl (value_error (errno_message strerror ''open root input namespace'' (errno w))), w)
        else do {
          (emptiness, w) \<leftarrow> directory_is_empty strerror K target w;
          let (x, w) = house_input strerror K target parent name nss emptiness w;
          Some (x, reset_fd K target w) })"

definition admit_destination ::
  "(int \<Rightarrow> string) \<Rightarrow> 'k kernel \<Rightarrow> fd \<Rightarrow> path \<Rightarrow> 'k world \<Rightarrow> (error + inode_identity) \<times> 'k world" where
  "admit_destination strerror K root logical w =
     (let (target, w) = open_beneath K root logical w in
      if target < 0
      then (Inl (value_error (errno_message strerror ''open root resource destination'' (errno w))), w)
      else let (i, w) = identity_of strerror K target w in (i, reset_fd K target w))"

definition admit_target ::
  "(int \<Rightarrow> string) \<Rightarrow> 'k kernel \<Rightarrow> fd \<Rightarrow> resource_binding \<Rightarrow> isolated_namespace list \<Rightarrow> 'k world \<Rightarrow>
   ((error + inode_identity \<times> isolated_namespace list) \<times> 'k world) option" where
  "admit_target strerror K root b nss w =
     (if is_input_role (binding_role b)
      then do { (x, w) \<leftarrow> admit_input strerror K root (mount_point b) nss w;
                Some (bind_result x (\<lambda>nss. Inr (zero_identity, nss)), w) }
      else let (x, w) = admit_destination strerror K root (mount_point b) w
           in Some (bind_result x (\<lambda>t. Inr (t, nss)), w))"

definition record_binding ::
  "admission_state \<Rightarrow> resource_binding \<Rightarrow> path \<Rightarrow> fd \<Rightarrow> inode_identity \<Rightarrow> inode_identity \<Rightarrow> isolated_namespace list \<Rightarrow>
   admission_state" where
  "record_binding st b host source i target nss =
     \<lparr>logical_paths = logical_paths st @ [mount_point b], host_paths = host_paths st @ [host],
      source_identities = source_identities st @ [i],
      admitted = admitted st @ [\<lparr>source_fd = source, source_identity = i, target_identity = target,
        realized_access = binding_access b, logical_path = mount_point b,
        synthetic_destination = is_input_role (binding_role b)\<rparr>],
      input_namespaces = nss\<rparr>"

definition admit_binding ::
  "(int \<Rightarrow> string) \<Rightarrow> 'k kernel \<Rightarrow> (string \<Rightarrow> path) \<Rightarrow> path \<Rightarrow> fd \<Rightarrow> admission_state \<Rightarrow> resource_binding \<Rightarrow> 'k world \<Rightarrow>
   ((error + admission_state) \<times> 'k world) option" where
  "admit_binding strerror K materialization root_view root st b w =
     (case validate_role_access b of
        Some e \<Rightarrow> Some (Inl e, w)
      | None \<Rightarrow>
          let host = lexically_normal (materialization (binding_resource b)) in
          case check_paths root_view host st b of
            Some e \<Rightarrow> Some (Inl e, w)
          | None \<Rightarrow>
              let (s, w) = admit_source strerror K host b (source_identities st) w in
              case s of
                Inl e \<Rightarrow> Some (Inl e, w)
              | Inr (source, i) \<Rightarrow>
                  do { (x, w) \<leftarrow> admit_target strerror K root b (input_namespaces st) w;
                       Some (case x of
                               Inl e \<Rightarrow> (Inl e, reset_fd K source w)
                             | Inr (target, nss) \<Rightarrow> (Inr (record_binding st b host source i target nss), w)) })"

text \<open>The loop over the bindings; when one is refused, the sources admitted before it are closed.\<close>

fun admit_bindings ::
  "(int \<Rightarrow> string) \<Rightarrow> 'k kernel \<Rightarrow> (string \<Rightarrow> path) \<Rightarrow> path \<Rightarrow> fd \<Rightarrow> admission_state \<Rightarrow> resource_binding list \<Rightarrow> 'k world \<Rightarrow>
   ((error + admission_state) \<times> 'k world) option" where
  "admit_bindings strerror K materialization root_view root st [] w = Some (Inr st, w)"
| "admit_bindings strerror K materialization root_view root st (b # bs) w =
     do { (x, w) \<leftarrow> admit_binding strerror K materialization root_view root st b w;
          case x of
            Inl e \<Rightarrow> Some (Inl e, close_all K (map source_fd (admitted st)) w)
          | Inr st \<Rightarrow> admit_bindings strerror K materialization root_view root st bs w }"

definition order_children :: "isolated_namespace \<Rightarrow> isolated_namespace" where
  "order_children ns = ns\<lparr>children := remdups_adj (sort (children ns))\<rparr>"

definition admit_isolated_resources ::
  "(int \<Rightarrow> string) \<Rightarrow> 'k kernel \<Rightarrow> (string \<Rightarrow> path) \<Rightarrow> path \<Rightarrow> resource_binding list \<Rightarrow> 'k world \<Rightarrow>
   ((error + isolated_admission) \<times> 'k world) option" where
  "admit_isolated_resources strerror K materialization root_view_path bs w =
     (let root_view = lexically_normal root_view_path in
      if path_eq root_view ''/''
      then Some (Inl (value_error ''isolated execution requires a dedicated root-view directory''), w)
      else let (root, w) = open_exact_path K root_view w in
        if root < 0 then Some (Inl (value_error (errno_message strerror ''open exact root view'' (errno w))), w)
        else let (i, w) = identity_of strerror K root w in
          case i of
            Inl e \<Rightarrow> Some (Inl e, reset_fd K root w)
          | Inr i \<Rightarrow>
              do { (x, w) \<leftarrow> admit_bindings strerror K materialization root_view root empty_admission bs w;
                   case x of
                     Inl e \<Rightarrow> Some (Inl e, reset_fd K root w)
                   | Inr st \<Rightarrow>
                       let (s, w) = make_scratch strerror K w in
                       case s of
                         Inl e \<Rightarrow> Some (Inl e, reset_fd K root (close_all K (map source_fd (admitted st)) w))
                       | Inr scratch \<Rightarrow>
                           Some (Inr \<lparr>root_source_fd = root, admitted_bindings = admitted st,
                                      namespaces = map order_children (input_namespaces st),
                                      scratch_path = scratch, cleanup_attempted = False\<rparr>, w) })"

section \<open>The probe\<close>

definition probe_exit_code :: "u32 \<Rightarrow> int" where
  "probe_exit_code e = (if e = word_of_int EPERM \<or> e = word_of_int EACCES then 2 else 1)"

definition mount_failure_bytes :: "mount_setup_failure \<Rightarrow> byte list" where
  "mount_failure_bytes f = bytes_of_u32 (mount_stage f) @ bytes_of_u32 (mount_error f)"

definition mount_failure_of_bytes :: "byte list \<Rightarrow> mount_setup_failure" where
  "mount_failure_of_bytes bs =
     \<lparr>mount_stage = u32_of_bytes (take 4 bs), mount_error = u32_of_bytes (take 4 (drop 4 bs))\<rparr>"

text \<open>\<open>send_failure\<close>: one write, then the exit code.\<close>

definition send_failure :: "'k kernel \<Rightarrow> fd \<Rightarrow> mount_setup_failure \<Rightarrow> 'k world \<Rightarrow> int \<times> 'k world" where
  "send_failure K fd f w =
     (let f = (if mount_error f = 0 then f\<lparr>mount_error := word_of_int EIO\<rparr> else f);
          (_, w) = syscall K (Fd (Write fd (mount_failure_bytes f))) w
      in (probe_exit_code (mount_error f), w))"

definition probe_device :: "'k kernel \<Rightarrow> 'k world \<Rightarrow> 'k mount_step" where
  "probe_device K w =
     (let (r, w) = invoke K (Fs (Stat ''/dev/null'')) w in
      if ret r \<noteq> 0 \<or> st_kind (reply_stat r) \<noteq> S_IFCHR
      then (Some (mount_failure Device_filesystem (if errno w = 0 then ENODEV else errno w)), w)
      else let (fd, w) = syscall K (Fs (Open ''/dev/null'' [O_WRONLY, O_CLOEXEC])) w in
        if fd < 0 then mount_failed Device_filesystem w
        else let (n, w) = syscall K (Fd (Write fd [0])) w;
                 (ok, w) = (if n \<noteq> 1 then (False, w)
                            else let (n, w) = syscall K (Fd (Close fd)) w in (n = 0, w)) in
          if \<not> ok then (Some (mount_failure Device_filesystem (if errno w = 0 then EIO else errno w)), w)
          else (None, w))"

definition realization_child :: "'k kernel \<Rightarrow> isolated_admission \<Rightarrow> fd \<Rightarrow> fd \<Rightarrow> 'k world \<Rightarrow> int \<times> 'k world" where
  "realization_child K adm report0 report1 w =
     (let (_, w) = syscall K (Fd (Close report0)) w;
          (f, w) = setup_isolated_filesystem K adm w in
      case f of
        Some f \<Rightarrow> send_failure K report1 f w
      | None \<Rightarrow>
          let (f, w) = probe_device K w in
          case f of
            Some f \<Rightarrow> send_failure K report1 f w
          | None \<Rightarrow>
              let (dropped, w) = drop_process_capabilities K w in
              if \<not> dropped then send_failure K report1 (mount_failure Capability_drop (errno w)) w
              else (0, snd (syscall K (Fd (Close report1)) w)))"

definition realization_parent ::
  "'k kernel \<Rightarrow> pid \<Rightarrow> fd \<Rightarrow> fd \<Rightarrow> 'k world \<Rightarrow> (mount_setup_failure option \<times> 'k world) option" where
  "realization_parent K child report0 report1 w =
     do { let (_, w) = syscall K (Fd (Close report1)) w;
          let (r, w) = invoke K (Fd (Read report0 8)) w;
          let (_, w) = syscall K (Fd (Close report0)) w;
          (waited, status, w) \<leftarrow> waitpid_retry K child w;
          Some (if \<not> WIFEXITED status then Some (mount_failure Probe_preparation EIO)
                else if WEXITSTATUS status = 0 then None
                else if ret r = 8 then Some (mount_failure_of_bytes (read_data r))
                else Some (mount_failure Probe_preparation (if WEXITSTATUS status = 2 then EPERM else EIO)), w) }"

definition probe_isolated_realization ::
  "'k kernel \<Rightarrow> isolated_admission \<Rightarrow> 'k world \<Rightarrow> (mount_setup_failure option outcome \<times> 'k world) option" where
  "probe_isolated_realization K adm w =
     (let (r, w) = invoke K (Fd Pipe2) w in
      if ret r \<noteq> 0 then Some (Returned (Some (mount_failure Probe_preparation (errno w))), w)
      else let (report0, report1) = (case out r of Fd_pair a b \<Rightarrow> (a, b) | _ \<Rightarrow> (-1, -1));
               (child, w) = syscall K (Proc Fork) w in
        if child < 0
        then let f = mount_failure Probe_preparation (errno w);
                 (_, w) = syscall K (Fd (Close report0)) w;
                 (_, w) = syscall K (Fd (Close report1)) w
             in Some (Returned (Some f), w)
        else if child = 0
        then let (code, w) = realization_child K adm report0 report1 w in Some (Exited code, w)
        else do { (f, w) \<leftarrow> realization_parent K child report0 report1 w; Some (Returned f, w) })"

definition probe_openat2 :: "'k kernel \<Rightarrow> 'k world \<Rightarrow> bool \<times> 'k world" where
  "probe_openat2 K w =
     (let (fd, w) = open_exact_path K ''/'' w in
      if fd < 0 then (False, w) else (True, snd (syscall K (Fd (Close fd)) w)))"

text \<open>The directories of the fixture, in the order in which they are removed.\<close>

definition fixture_paths :: "path \<Rightarrow> (path \<times> mount_setup_stage) list" where
  "fixture_paths base =
     (let view = path_append base ''view''
      in [(path_append base ''material'', Fixture_material_cleanup),
          (path_append view ''resource'', Fixture_resource_cleanup),
          (path_append view ''dev'', Fixture_device_cleanup),
          (view, Fixture_view_cleanup),
          (base, Fixture_root_cleanup)])"

fun cleanup_fixture :: "'k kernel \<Rightarrow> (path \<times> mount_setup_stage) list \<Rightarrow> 'k world \<Rightarrow> 'k world" where
  "cleanup_fixture K [] w = w"
| "cleanup_fixture K ((p, stage) # ps) w = cleanup_fixture K ps (snd (syscall K (Fs (Rmdir p)) w))"

text \<open>\<open>remove_fixture_directory\<close> on each of them: the first failure is kept.\<close>

fun remove_fixture ::
  "'k kernel \<Rightarrow> (path \<times> mount_setup_stage) list \<Rightarrow> mount_setup_failure \<Rightarrow> bool \<Rightarrow> 'k world \<Rightarrow>
   bool \<times> mount_setup_failure \<times> 'k world" where
  "remove_fixture K [] f cleaned w = (cleaned, f, w)"
| "remove_fixture K ((p, stage) # ps) f cleaned w =
     (let (n, w) = syscall K (Fs (Rmdir p)) w in
      if n = 0 \<or> errno w = ENOENT then remove_fixture K ps f cleaned w
      else remove_fixture K ps (if mount_error f = 0 then mount_failure stage (errno w) else f) False w)"

fun make_directories :: "'k kernel \<Rightarrow> path list \<Rightarrow> 'k world \<Rightarrow> bool \<times> 'k world" where
  "make_directories K [] w = (True, w)"
| "make_directories K (p # ps) w =
     (let (n, w) = syscall K (Fs (Mkdir p 448)) w in if n \<noteq> 0 then (False, w) else make_directories K ps w)"

text \<open>
  The \<open>try\<close> block and its handler: \<open>Inr\<close> is the admission of the fixture, \<open>Inl\<close> a failure. When an
  exception is thrown, the descriptors are closed before the handler runs.
\<close>

definition admit_fixture ::
  "(int \<Rightarrow> string) \<Rightarrow> 'k kernel \<Rightarrow> path \<Rightarrow> 'k world \<Rightarrow> (mount_setup_failure + isolated_admission) \<times> 'k world" where
  "admit_fixture strerror K base w =
     (let cleanup = cleanup_fixture K (fixture_paths base);
          raised = (\<lambda>w. (Inl (mount_failure Probe_preparation (if errno w = 0 then EIO else errno w)), cleanup w));
          (root, w) = open_exact_path K (path_append base ''view'') w;
          (source, w) = open_exact_path K (path_append base ''material'') w;
          (target, w) = open_beneath K root ''/resource'' w;
          closed = (\<lambda>w. reset_fd K root (reset_fd K source (reset_fd K target w))) in
      if root < 0 \<or> source < 0 \<or> target < 0
      then (let f = mount_failure Probe_preparation (errno w) in (Inl f, closed (cleanup w)))
      else let (s, w) = identity_of strerror K source w in
        case s of
          Inl e \<Rightarrow> raised (closed w)
        | Inr s \<Rightarrow>
            let (t, w) = identity_of strerror K target w in
            case t of
              Inl e \<Rightarrow> raised (closed w)
            | Inr t \<Rightarrow>
                let (scratch, w) = make_scratch strerror K w in
                case scratch of
                  Inl e \<Rightarrow> raised (closed w)
                | Inr scratch \<Rightarrow>
                    (Inr \<lparr>root_source_fd = root,
                          admitted_bindings = [\<lparr>source_fd = source, source_identity = s, target_identity = t,
                            realized_access = Read_only, logical_path = ''/resource'', synthetic_destination = False\<rparr>],
                          namespaces = [], scratch_path = scratch, cleanup_attempted = False\<rparr>,
                     reset_fd K target w))"

text \<open>The two attempts, then the cleanup of the scratch directory and of the fixture.\<close>

fun realize_attempts ::
  "'k kernel \<Rightarrow> isolated_admission \<Rightarrow> nat \<Rightarrow> 'k world \<Rightarrow> (mount_setup_failure option outcome \<times> 'k world) option" where
  "realize_attempts K adm 0 w = Some (Returned None, w)"
| "realize_attempts K adm (Suc n) w =
     do { (x, w) \<leftarrow> probe_isolated_realization K adm w;
          if x = Returned None then realize_attempts K adm n w else Some (x, w) }"

definition finish_probe ::
  "'k kernel \<Rightarrow> path \<Rightarrow> isolated_admission \<Rightarrow> mount_setup_failure option \<Rightarrow> 'k world \<Rightarrow> 'k mount_step" where
  "finish_probe K base adm realized w =
     (let (scratch_cleaned, adm, w) = verify_parent_cleanup K adm w;
          w = release_admission K adm w;
          (cleaned, f, w) = remove_fixture K (fixture_paths base) (mount_failure Probe_preparation 0) True w
      in if \<not> scratch_cleaned then (Some (mount_failure Parent_cleanup EBUSY), w)
         else if \<not> cleaned then (Some f, w)
         else (realized, w))"

definition probe_isolated_filesystem ::
  "(int \<Rightarrow> string) \<Rightarrow> 'k kernel \<Rightarrow> 'k world \<Rightarrow> (mount_setup_failure option outcome \<times> 'k world) option" where
  "probe_isolated_filesystem strerror K w =
     (let (supported, w) = probe_openat2 K w in
      if \<not> supported then Some (Returned (Some (mount_failure Probe_preparation (errno w))), w)
      else let (r, w) = invoke K (Fs (Mkdtemp ''/tmp/libpkgexec-linux-probe.XXXXXX'')) w in
        if ret r < 0 then Some (Returned (Some (mount_failure Probe_preparation (errno w))), w)
        else let base = reply_text r; view = path_append base ''view'';
                 (made, w) = make_directories K [view, path_append view ''resource'', path_append view ''dev'',
                                path_append base ''material''] w in
          if \<not> made
          then let f = mount_failure Probe_preparation (errno w)
               in Some (Returned (Some f), cleanup_fixture K (fixture_paths base) w)
          else let (a, w) = admit_fixture strerror K base w in
            case a of
              Inl f \<Rightarrow> Some (Returned (Some f), w)
            | Inr adm \<Rightarrow>
                do { (x, w) \<leftarrow> realize_attempts K adm 2 w;
                     case x of
                       Returned f \<Rightarrow> (let (f, w) = finish_probe K base adm f w in Some (Returned f, w))
                     | Exited code \<Rightarrow> Some (Exited code, w)
                     | Blocked \<Rightarrow> Some (Blocked, w) })"

end
