(* ===== verification/Outcome.thy ===== *)
theory Outcome
  imports Supervisor_History Network_Isolation Resource_Limits Interpreter Mount_Isolation
begin

text \<open>
  The end of \<open>execute_backend\<close> in \<open>src/backend.cpp\<close>: how the state in which supervision ended is
  turned into an execution result, with the helpers that name a failed stage. The result types
  belong to libpkgexec: a result is the factory that made it with the arguments the source
  passes, without the request and the profile, which are the same everywhere.
\<close>

section \<open>Vocabulary of libpkgexec\<close>

datatype execution_failure_kind =
    Backend_unsupported | Request_rejected | Resource_admission_failed | Interpreter_unavailable
  | Isolation_setup_failed | Process_start_failed | Log_capture_failed | Cleanup_failed
  | Program_exited_nonzero | Program_terminated_by_signal

datatype execution_guarantee =
    G_closed_environment | G_root_view | G_read_only_resources | G_writable_resources | G_fixed_credentials
  | G_complete_stdout_capture | G_complete_stderr_capture | G_exact_interpreter | G_cleanup_verified
  | G_cancellation | G_resource_limits | G_address_space_limit | G_file_size_limit | G_open_files_limit
  | G_network_denied | G_loopback_isolated | G_other nat

datatype process_termination = Exited_with u32 | Signaled u32

datatype cleanup_outcome = Outcome_verified | Outcome_failed

datatype stream_policy = Capture_complete | Discard

type_synonym guarantees = "execution_guarantee list"

datatype 'i execution_result =
    Failed_before_start execution_failure_kind guarantees string
  | Cancelled_before_start guarantees string
  | Failed_after_start 'i process_termination "byte list option" "byte list option" guarantees cleanup_outcome
      execution_failure_kind string
  | Cancelled_after_start 'i "byte list option" "byte list option" guarantees cleanup_outcome string
  | Succeeded 'i "byte list option" "byte list option" guarantees

section \<open>Failures reported by the child\<close>

definition child_failure_kind :: "child_error \<Rightarrow> execution_failure_kind" where
  "child_failure_kind f =
     (case child_stage_of (failed_stage f) of
        Some Working_directory \<Rightarrow> Resource_admission_failed
      | Some Resource_limits \<Rightarrow> Resource_admission_failed
      | Some Mount_isolation \<Rightarrow> Isolation_setup_failed
      | Some Network_isolation \<Rightarrow> Isolation_setup_failed
      | Some child_stage.Capability_drop \<Rightarrow> Isolation_setup_failed
      | Some Containment \<Rightarrow> Isolation_setup_failed
      | Some Process_group \<Rightarrow> Isolation_setup_failed
      | Some Standard_streams \<Rightarrow> Process_start_failed
      | Some Execute \<Rightarrow> (if error_value f = word_of_int ENOENT then Interpreter_unavailable else Process_start_failed)
      | None \<Rightarrow> Process_start_failed)"

definition limit_stage_text :: "u32 \<Rightarrow> string" where
  "limit_stage_text code =
     (if code = 0 then resource_limit_stage_name Stage_address_space
      else if code = 1 then resource_limit_stage_name Stage_file_size
      else if code = 2 then resource_limit_stage_name Stage_open_files
      else ''resource limit'')"

definition child_failure_diagnostic :: "(int \<Rightarrow> string) \<Rightarrow> child_error \<Rightarrow> string" where
  "child_failure_diagnostic strerror f =
     errno_message strerror
       (case child_stage_of (failed_stage f) of
          Some Process_group \<Rightarrow> ''setsid''
        | Some Standard_streams \<Rightarrow> ''standard stream setup''
        | Some Mount_isolation \<Rightarrow> mount_stage_name (error_detail f)
        | Some Network_isolation \<Rightarrow> network_stage_name (error_detail f)
        | Some Working_directory \<Rightarrow> ''chdir''
        | Some child_stage.Capability_drop \<Rightarrow> ''capability drop''
        | Some Containment \<Rightarrow> ''seccomp containment''
        | Some Resource_limits \<Rightarrow> limit_stage_text (error_detail f)
        | Some Execute \<Rightarrow> ''execve''
        | None \<Rightarrow> ''child setup'')
       (sint (error_value f))"

definition without_guarantee :: "guarantees \<Rightarrow> execution_guarantee \<Rightarrow> guarantees" where
  "without_guarantee gs removed = filter (\<lambda>g. g \<noteq> removed) gs"

text \<open>
  \<open>std::binary_search\<close> on the values of the enumerators, which libpkgexec defines, as it does
  their names.
\<close>

definition binary_search :: "('a :: linorder) list \<Rightarrow> 'a \<Rightarrow> bool" where
  "binary_search xs x =
     (let found = lower_bound xs x 0 (length xs) in found \<noteq> length xs \<and> \<not> x < xs ! found)"

definition unsupported_guarantees_diagnostic ::
  "(execution_guarantee \<Rightarrow> nat) \<Rightarrow> (execution_guarantee \<Rightarrow> string) \<Rightarrow> guarantees \<Rightarrow> guarantees \<Rightarrow> string" where
  "unsupported_guarantees_diagnostic rank name offered required =
     ''Linux backend cannot establish required guarantees:'' @
     concat (map (\<lambda>g. if \<not> binary_search (map rank offered) (rank g) then CHR '' '' # name g else []) required)"

definition termination_from_siginfo :: "siginfo \<Rightarrow> process_termination" where
  "termination_from_siginfo information =
     (if si_code information = CLD_EXITED then Exited_with (word_of_int (si_status information))
      else Signaled (word_of_int (si_status information)))"

section \<open>Classification\<close>

text \<open>What the classification reads of the request and of the configured interpreter.\<close>

record 'i execution_terms =
  standard_output :: stream_policy
  standard_error :: stream_policy
  required_guarantees :: guarantees
  configured_identity :: 'i

definition scratch_note :: "bool \<Rightarrow> string \<Rightarrow> string" where
  "scratch_note mount_cleaned diagnostic =
     (if mount_cleaned then diagnostic else diagnostic @ ''; parent isolation scratch cleanup failed'')"

definition established_guarantees :: "'i execution_terms \<Rightarrow> bool \<Rightarrow> bool \<Rightarrow> guarantees" where
  "established_guarantees t failed verified =
     (let e = required_guarantees t;
          e = (if failed then without_guarantee (without_guarantee e G_complete_stdout_capture) G_complete_stderr_capture else e)
      in if verified then e else without_guarantee e G_cleanup_verified)"

definition retained :: "stream_policy \<Rightarrow> bool \<Rightarrow> byte list \<Rightarrow> byte list option" where
  "retained policy failed material = (if policy = Capture_complete \<and> \<not> failed then Some material else None)"

text \<open>After the program was confirmed to run.\<close>

definition classify_started :: "'i execution_terms \<Rightarrow> supervision \<Rightarrow> bool \<Rightarrow> 'i execution_result" where
  "classify_started t s verified =
     (let output = retained (standard_output t) (capture_failed s) (output_material s);
          errors = retained (standard_error t) (capture_failed s) (error_material s);
          established = established_guarantees t (capture_failed s) verified;
          observed = termination_from_siginfo (child_information s)
      in if capture_failed s
         then Failed_after_start (configured_identity t) observed output errors established
                (if verified then Outcome_verified else Outcome_failed) Log_capture_failed ''complete stream capture failed''
         else if \<not> verified
         then Failed_after_start (configured_identity t) observed output errors established Outcome_failed Cleanup_failed
                ''process-group or mount cleanup could not be verified''
         else if cancellation_signal_delivered s
         then Cancelled_after_start (configured_identity t) output errors established Outcome_verified
                (if forced_signal_sent s then ''cancellation required forced process-group termination''
                 else ''cancellation completed during the graceful period'')
         else if si_code (child_information s) = CLD_EXITED \<and> si_status (child_information s) = 0
         then Succeeded (configured_identity t) output errors established
         else if si_code (child_information s) = CLD_EXITED
         then Failed_after_start (configured_identity t) observed output errors established Outcome_verified
                Program_exited_nonzero []
         else Failed_after_start (configured_identity t) observed output errors established Outcome_verified
                Program_terminated_by_signal [])"

definition classify :: "(int \<Rightarrow> string) \<Rightarrow> 'i execution_terms \<Rightarrow> bool \<Rightarrow> supervision \<Rightarrow> 'i execution_result" where
  "classify strerror t mount_cleaned s =
     (let verified = (cleanup_complete s \<and> \<not> cleanup_failed s \<and> mount_cleaned) in
      if control_bytes s \<noteq> []
      then if length (control_bytes s) = sizeof_child_error
        then let f = child_error_of_bytes (control_bytes s)
             in Failed_before_start (child_failure_kind f) [] (scratch_note mount_cleaned (child_failure_diagnostic strerror f))
        else Failed_before_start Process_start_failed [] ''truncated child setup failure record''
      else if cancellation_observed s \<and> cancellation_before_start s
      then if \<not> verified
        then Failed_before_start Isolation_setup_failed [] ''pre-start cancellation cleanup could not be verified''
        else Cancelled_before_start [G_cancellation] ''cancellation was requested before the final program-start gate''
      else if \<not> exec_confirmed s
      then Failed_before_start (if verified then Process_start_failed else Isolation_setup_failed) []
             (if verified then ''child terminated before descriptor execution was confirmed''
              else ''pre-start termination cleanup could not be verified'')
      else classify_started t s verified)"

section \<open>Results and evidence\<close>

text \<open>
  C3. Every result rests on what supervision observed. Success means that a start byte was accepted, the
  leader was observed to exit with status zero, the captured streams are exactly what the pipes
  delivered up to end of file, the process group was verified to be gone and every required
  guarantee is established. A cancellation before the start means that no start byte was ever
  accepted and the group is gone; one after the start that the program had been released and the
  leader was signalled. A failure before the start is never reported for a program whose
  execution was confirmed without a setup failure.
\<close>

theorem results_rest_on_evidence:
  assumes run: "supervise K ctx (initial_supervision ofd efd cfd rfd sfd) w = Some (s, w')"
    and fds: "ofd \<noteq> efd" "0 \<le> ofd" "0 \<le> efd"
  shows "case classify strerror t mount_cleaned s of
      Succeeded i output errors gs \<Rightarrow>
        gate_opened (calls_between w w') \<and> group_verified K ctx w w' \<and> mount_cleaned \<and>
        si_code (child_information s) = CLD_EXITED \<and> si_status (child_information s) = 0 \<and>
        i = configured_identity t \<and> gs = required_guarantees t \<and>
        output = (if standard_output t = Capture_complete then Some (delivered ofd 16384 (calls_between w w')) else None) \<and>
        errors = (if standard_error t = Capture_complete then Some (delivered efd 16384 (calls_between w w')) else None) \<and>
        end_of_file ofd 16384 (calls_between w w') \<and> end_of_file efd 16384 (calls_between w w')
    | Cancelled_before_start gs m \<Rightarrow>
        cancellation_observed s \<and> \<not> gate_opened (calls_between w w') \<and> group_verified K ctx w w' \<and> mount_cleaned
    | Cancelled_after_start i output errors gs c m \<Rightarrow>
        cancellation_observed s \<and> cancellation_signal_delivered s \<and> gate_opened (calls_between w w') \<and>
        group_verified K ctx w w' \<and> c = Outcome_verified \<and> gs = required_guarantees t
    | Failed_before_start k gs m \<Rightarrow> \<not> exec_confirmed s \<and> gs = []
    | Failed_after_start i term output errors gs c k m \<Rightarrow>
        gate_opened (calls_between w w') \<and> exec_confirmed s \<and> term = termination_from_siginfo (child_information s) \<and>
        (G_cleanup_verified \<in> set gs \<longrightarrow> group_verified K ctx w w' \<and> mount_cleaned)"
proof -
  from gate.final [OF initial_invariants(1) run] have g: "gate_inv ctx s" by simp
  from gate_calls.final [OF initial_invariants(3) run] have h: "gate_history w s w'" by simp
  from cleanup_calls.final [OF initial_invariants(4) run] have v: "verified_history K ctx w s w'" by simp
  from capture_calls.final [OF initial_invariants(5) run] fds have
    c: "output_material s = delivered ofd 16384 (calls_between w w')" "error_material s = delivered efd 16384 (calls_between w w')"
      "\<not> capture_failed s \<Longrightarrow> end_of_file ofd 16384 (calls_between w w') \<and> end_of_file efd 16384 (calls_between w w')"
    by (auto simp: capturing_def capture_history_def stream_exact_def running_def)
  from h have o: "start_released s \<longleftrightarrow> gate_opened (calls_between w w')" by (simp add: gate_history_def)
  from v have gv: "cleanup_complete s \<Longrightarrow> \<not> cleanup_failed s \<Longrightarrow> group_verified K ctx w w'"
    by (simp add: verified_history_def)
  from g have e: "exec_confirmed s \<Longrightarrow> start_released s \<and> control_bytes s = []"
    and b: "cancellation_observed s \<Longrightarrow> cancellation_before_start s \<longleftrightarrow> \<not> start_released s"
    and d: "cancellation_signal_delivered s \<Longrightarrow> cancellation_observed s" by (auto simp: gate_inv_def)
  show ?thesis
  proof (cases "control_bytes s \<noteq> [] \<or> (cancellation_observed s \<and> cancellation_before_start s) \<or> \<not> exec_confirmed s")
    case True
    with e b o gv show ?thesis by (auto simp: classify_def Let_def)
  next
    case False
    with e o have go: "gate_opened (calls_between w w')" and ex: "exec_confirmed s" by auto
    have cl: "classify strerror t mount_cleaned s = classify_started t s (cleanup_complete s \<and> \<not> cleanup_failed s \<and> mount_cleaned)"
      using False by (auto simp: classify_def Let_def)
    show ?thesis
      unfolding cl using go ex gv c d
      by (auto simp: classify_started_def established_guarantees_def without_guarantee_def retained_def Let_def)
  qed
qed

section \<open>Concrete results\<close>

definition sample_terms :: "nat execution_terms" where
  "sample_terms = \<lparr>standard_output = Capture_complete, standard_error = Discard, required_guarantees = [G_exact_interpreter],
     configured_identity = 7\<rparr>"

lemma ordinary_result:
  "map_option (\<lambda>(s, w). classify (\<lambda>e. []) sample_terms True s)
     (supervise scripted ordinary_context pipes_open (start_world ordinary_script))
   = Some (Succeeded 7 (Some [104, 105, 10]) None [G_exact_interpreter])"
  by (simp add: run_simps ordinary_context_def pipes_open_def ordinary_script_def classify_def classify_started_def
      sample_terms_def retained_def established_guarantees_def termination_from_siginfo_def CLD_EXITED_def cong: run_congs)

theorem results_rest_on_evidence_witness:
  "\<exists>s w'. supervise scripted ordinary_context pipes_open (start_world ordinary_script) = Some (s, w') \<and>
     classify (\<lambda>e. []) sample_terms True s = Succeeded 7 (Some [104, 105, 10]) None [G_exact_interpreter] \<and>
     gate_opened (calls_between (start_world ordinary_script) w')"
proof -
  from ordinary_result obtain s w' where
    r: "supervise scripted ordinary_context pipes_open (start_world ordinary_script) = Some (s, w')"
    and c: "classify (\<lambda>e. []) sample_terms True s = Succeeded 7 (Some [104, 105, 10]) None [G_exact_interpreter]" by auto
  from results_rest_on_evidence [OF r [unfolded pipes_open_def], where strerror = "\<lambda>e. []" and t = sample_terms and
      mount_cleaned = True] r c show ?thesis by auto
qed

text \<open>
  A program that exits with status zero in the same round in which the cancellation signal is sent:
  the exit is observed at the beginning of the round, the signal is delivered after it.
\<close>

definition raced_script :: "reply list" where
  "raced_script =
     [ok_reply, num_reply 0, num_reply 1000, ok_reply, again, again, again, data_reply 1 (Bytes_data [1]), ok_reply, ok_reply] @
     [ok_reply, num_reply 0, num_reply 0, num_reply 1, ok_reply, num_reply 2000, ok_reply, again, again, again] @
     [ok_reply, num_reply 1, num_reply 3000, ok_reply, again, again, ok_reply, ok_reply] @
     [exited_reply 1 0] @ empty_scan @ [ok_reply, num_reply 4000, num_reply 4000, num_reply 4000] @ empty_scan @
     [num_reply 41, ok_reply] @ end_of_stream @ end_of_stream"


end
