(* ===== verification/Network_Setup.thy ===== *)
theory Network_Setup
  imports Network_Isolation
begin

text \<open>
  What the operations of \<open>Network_Isolation\<close> establish: the calls each of them makes, the
  evidence behind a successful \<open>setup_network_policy\<close>, and the agreement between the child and
  the parent of \<open>probe_network_policy\<close>. The failure record that crosses the pipe is an
  interpretation of \<open>wire_record\<close>. The last section evaluates the model on concrete replies.
\<close>

section \<open>What a successful setup has established\<close>

text \<open>The datagrams a history of calls delivered.\<close>

definition received :: "(syscall \<times> reply) list \<Rightarrow> (int \<times> byte list) list" where
  "received cs = concat (map (\<lambda>(c, r). case c of
     Net (Recv fd n) \<Rightarrow> if ret r > 0 then [(ret r, reply_bytes r)] else [] | _ \<Rightarrow> []) cs)"

lemma received_append [simp]: "received (cs @ ds) = received cs @ received ds"
  by (simp add: received_def)

lemma received_single [simp]: "ret r > 0 \<Longrightarrow> received [(Net (Recv fd n), r)] = [(ret r, reply_bytes r)]"
  by (simp add: received_def)

lemma received_interrupted:
  "\<forall>(c', r') \<in> set pre. c' = c \<and> ret r' < 0 \<Longrightarrow> received pre = []"
  by (auto simp: received_def split: syscall.splits net_call.splits)

text \<open>A dump that was received to its end, from the request to the last datagram.\<close>

definition dump_request :: "byte list" where
  "dump_request = link_message RTM_GETLINK (NLM_F_REQUEST OR NLM_F_DUMP) 1 0 0 0"

definition dumped :: "fd \<Rightarrow> (syscall \<times> reply) list \<Rightarrow> link_snapshot \<Rightarrow> bool" where
  "dumped fd cs s \<longleftrightarrow>
     (\<exists>pre r recvs. cs = pre @ (Net (Sendto_kernel fd dump_request), r) # recvs \<and>
        (\<forall>(c', r') \<in> set recvs. c' = Net (Recv fd 16384)) \<and> ret r = int (length dump_request) \<and>
        decode_dump 1 (replicate 16384 0) empty_snapshot (received recvs) = Done s)"

lemma receive_dump_post:
  assumes "receive_dump K fd sequence buffer s w = Some y" "fst y = Some s'"
  shows "extends w (snd y) \<and> (\<forall>(c', r') \<in> set (calls_between w (snd y)). c' = Net (Recv fd 16384)) \<and>
    decode_dump sequence buffer s (received (calls_between w (snd y))) = Done s'"
proof -
  have "fst y = Some s' \<longrightarrow> extends w (snd y) \<and>
      (\<forall>(c', r') \<in> set (calls_between w (snd y)). c' = Net (Recv fd 16384)) \<and>
      decode_dump sequence buffer s (received (calls_between w (snd y))) = Done s'"
  proof (rule receive_dump.raw_induct [where P = "\<lambda>K fd sequence buffer s w y. fst y = Some s' \<longrightarrow> extends w (snd y) \<and>
      (\<forall>(c', r') \<in> set (calls_between w (snd y)). c' = Net (Recv fd 16384)) \<and>
      decode_dump sequence buffer s (received (calls_between w (snd y))) = Done s'", OF _ assms(1)], goal_cases)
    case (1 f K fd sequence buffer s w y)
    from 1(2) obtain r w1 where rt: "retry_eintr K (Net (Recv fd 16384)) w = Some (r, w1)"
      by (cases "retry_eintr K (Net (Recv fd 16384)) w") auto
    from retry_eintr_calls [OF this] obtain pre where e1: "extends w w1"
      and p: "calls_between w w1 = pre @ [(Net (Recv fd 16384), r)]"
        "\<forall>(c', r') \<in> set pre. c' = Net (Recv fd 16384) \<and> ret r' < 0" by auto
    note q = received_interrupted [OF p(2)]
    show ?case
    proof (cases "ret r \<le> 0")
      case True
      with 1(2) rt have "fst y = None" by auto
      then show ?thesis by simp
    next
      case False
      then have c: "received (calls_between w w1) = [(ret r, reply_bytes r)]"
        and k: "\<forall>(c', r') \<in> set (calls_between w w1). c' = Net (Recv fd 16384)"
        using p q by auto
      show ?thesis
      proof (cases "scan_links sequence (overlay (reply_bytes r) buffer) 0 (ret r) s")
        case (More s1)
        with 1(2) rt False have "f K fd sequence (overlay (reply_bytes r) buffer) s1 w1 = Some y" by simp
        from 1(1) [OF this] More show ?thesis
          using extends_trans [OF e1, of "snd y"] calls_between_trans [OF e1, of "snd y"] c k by auto
      next
        case (Done s1)
        with 1(2) rt False have "y = (Some s1, w1)" by auto
        with e1 c k Done show ?thesis by simp
      next
        case (Dump_error e)
        with 1(2) rt False have "fst y = None" by auto
        then show ?thesis by simp
      qed
    qed
  qed
  with assms(2) show ?thesis by blast
qed

lemma send_netlink_post:
  assumes "send_netlink K fd message w = Some (True, w')"
  shows "extends w w' \<and> (\<exists>pre r. calls_between w w' = pre @ [(Net (Sendto_kernel fd message), r)] \<and>
    ret r = int (length message))"
proof -
  from assms obtain r where "retry_eintr K (Net (Sendto_kernel fd message)) w = Some (r, w')"
    "ret r = int (length message)"
    by (auto simp: send_netlink_def bind_eq_Some_conv split: if_splits)
  with retry_eintr_calls [OF this(1)] show ?thesis by auto
qed

lemma inspect_links_post:
  assumes "inspect_links K fd w = Some (Some s, w')"
  shows "extends w w' \<and> dumped fd (calls_between w w') s"
proof -
  from assms obtain w1 where s: "send_netlink K fd dump_request w = Some (True, w1)"
    and d: "receive_dump K fd 1 (replicate 16384 0) empty_snapshot w1 = Some (Some s, w')"
    by (auto simp: inspect_links_def dump_request_def bind_eq_Some_conv split: if_splits)
  from send_netlink_post [OF s] obtain pre r where e1: "extends w w1"
    and p: "calls_between w w1 = pre @ [(Net (Sendto_kernel fd dump_request), r)]" "ret r = int (length dump_request)"
    by blast
  from receive_dump_post [OF d] have e2: "extends w1 w'"
    and q: "\<forall>(c', r') \<in> set (calls_between w1 w'). c' = Net (Recv fd 16384)"
      "decode_dump 1 (replicate 16384 0) empty_snapshot (received (calls_between w1 w')) = Done s" by auto
  have "calls_between w w' = pre @ (Net (Sendto_kernel fd dump_request), r) # calls_between w1 w'"
    using calls_between_trans [OF e1 e2] p by simp
  with extends_trans [OF e1 e2] p(2) q show ?thesis unfolding dumped_def by blast
qed

lemma dumped_mono: "dumped fd cs s \<Longrightarrow> dumped fd (pre @ cs) s"
  unfolding dumped_def by (metis append_assoc)

section \<open>Which calls are made\<close>

definition network_call :: "syscall \<Rightarrow> bool" where
  "network_call c \<longleftrightarrow> (case c of Net n \<Rightarrow> True | Mnt m \<Rightarrow> m = Unshare CLONE_NEWNET | Fd f \<Rightarrow> (\<exists>fd. f = Close fd) | _ \<Rightarrow> False)"

lemma network_call_simps [simp]: "network_call (Net n)" "network_call (Mnt (Unshare CLONE_NEWNET))"
  "network_call (Fd (Close fd))" "\<not> network_call (Fd (Write fd bs))" "\<not> network_call (Fd (Read fd m))"
  by (simp_all add: network_call_def)

lemma reset_fd_network: "only_calls network_call w (reset_fd K fd w)"
  by (rule reset_fd_only) simp

lemma send_netlink_only: "send_netlink K fd m w = Some (b, w') \<Longrightarrow> only_calls network_call w w'"
  by (auto simp: send_netlink_def bind_eq_Some_conv split: if_splits dest!: retry_eintr_only [where P = network_call])

lemma receive_ack_only:
  assumes "receive_ack K fd sequence buffer w = Some y"
  shows "only_calls network_call w (snd y)"
proof (rule receive_ack.raw_induct [where P = "\<lambda>K fd sequence buffer w y. only_calls network_call w (snd y)",
    OF _ assms], goal_cases)
  case (1 f K fd sequence buffer w y)
  from 1(2) obtain r w1 where rt: "retry_eintr K (Net (Recv fd 8192)) w = Some (r, w1)"
    by (cases "retry_eintr K (Net (Recv fd 8192)) w") auto
  then have o: "only_calls network_call w w1" by (rule retry_eintr_only) simp
  from 1(2) rt have "(\<exists>b e. y = (b, set_errno e w1)) \<or> (\<exists>b. y = (b, w1)) \<or> (\<exists>b. f K fd sequence b w1 = Some y)"
    by (auto split: if_splits ack.splits)
  then show ?case using only_calls_trans [OF o 1(1)] o by (elim disjE exE) simp_all
qed

lemma receive_dump_only:
  assumes "receive_dump K fd sequence buffer s w = Some y"
  shows "only_calls network_call w (snd y)"
proof (rule receive_dump.raw_induct [where P = "\<lambda>K fd sequence buffer s w y. only_calls network_call w (snd y)",
    OF _ assms], goal_cases)
  case (1 f K fd sequence buffer s w y)
  from 1(2) obtain r w1 where rt: "retry_eintr K (Net (Recv fd 16384)) w = Some (r, w1)"
    by (cases "retry_eintr K (Net (Recv fd 16384)) w") auto
  then have o: "only_calls network_call w w1" by (rule retry_eintr_only) simp
  from 1(2) rt have "(\<exists>b e. y = (b, set_errno e w1)) \<or> (\<exists>b. y = (b, w1)) \<or> (\<exists>b s. f K fd sequence b s w1 = Some y)"
    by (auto split: if_splits dump.splits)
  then show ?case using only_calls_trans [OF o 1(1)] o by (elim disjE exE) simp_all
qed

lemma inspect_links_only: "inspect_links K fd w = Some (s, w') \<Longrightarrow> only_calls network_call w w'"
  by (auto simp: inspect_links_def bind_eq_Some_conv split: if_splits dest!: send_netlink_only receive_dump_only
      intro: only_calls_trans)

lemma set_link_up_only: "set_link_up K fd i up w = Some (b, w') \<Longrightarrow> only_calls network_call w w'"
  by (auto simp: set_link_up_def bind_eq_Some_conv split: if_splits dest!: send_netlink_only receive_ack_only
      intro: only_calls_trans)

lemma configure_links_only:
  assumes "configure_links K policy fd w = Some (f, w')"
  shows "only_calls network_call w w'"
proof -
  from assms obtain i w1 where i: "inspect_links K fd w = Some (i, w1)"
    by (auto simp: configure_links_def bind_eq_Some_conv)
  note o1 = inspect_links_only [OF i]
  show ?thesis
  proof (cases "\<exists>s. i = Some s \<and> single_loopback s")
    case False
    with assms i have "w' = w1" by (auto simp: configure_links_def split: option.splits if_splits)
    with o1 show ?thesis by simp
  next
    case True
    then obtain s where s: "i = Some s" "single_loopback s" by blast
    with assms i obtain up w2 where u: "set_link_up K fd (loopback_index s) (policy = Network_loopback_only) w1 = Some (up, w2)"
      by (auto simp: configure_links_def bind_eq_Some_conv)
    note o2 = only_calls_trans [OF o1 set_link_up_only [OF u]]
    from assms i s u have "w' = w2 \<or> (\<exists>e. inspect_links K fd w2 = Some (e, w'))"
      by (auto simp: configure_links_def bind_eq_Some_conv split: option.splits if_splits)
    then show ?thesis using o2 only_calls_trans [OF o2 inspect_links_only] by blast
  qed
qed

lemma open_route_socket_only: "open_route_socket K w = (fd, w') \<Longrightarrow> only_calls network_call w w'"
proof -
  assume h: "open_route_socket K w = (fd, w')"
  obtain a w1 where s: "syscall K (Net Socket_netlink) w = (a, w1)" by fastforce
  obtain b w2 where t: "syscall K (Net (Bind_netlink a)) w1 = (b, w2)" by fastforce
  have "only_calls network_call w w1" "only_calls network_call w1 w2"
    using s t by (auto intro: only_calls_syscall)
  with h s t reset_fd_network [of w2 K a] show ?thesis
    by (auto simp: open_route_socket_def split: if_splits intro: only_calls_trans)
qed

lemma setup_network_policy_only:
  assumes "setup_network_policy K policy w = Some (f, w')"
  shows "only_calls network_call w w'"
proof -
  obtain n w1 where u: "syscall K (Mnt (Unshare CLONE_NEWNET)) w = (n, w1)" by fastforce
  obtain route w2 where r: "open_route_socket K w1 = (route, w2)" by fastforce
  have "only_calls network_call w w1" using u by (rule only_calls_syscall) simp
  note o = this only_calls_trans [OF this open_route_socket_only [OF r]]
  have "w' = w \<or> w' = w1 \<or> w' = w2 \<or>
      (\<exists>w3. configure_links K policy route w2 = Some (f, w3) \<and> w' = reset_fd K route w3)"
    using assms u r by (auto simp: setup_network_policy_def bind_eq_Some_conv split: if_splits)
  then show ?thesis
  proof (elim disjE exE conjE)
    fix w3 assume "configure_links K policy route w2 = Some (f, w3)" "w' = reset_fd K route w3"
    with only_calls_trans [OF o(2) only_calls_trans [OF configure_links_only reset_fd_network]] show ?thesis by simp
  qed (use o in simp_all)
qed

lemma configure_links_established:
  assumes "configure_links K policy route w = Some (None, w')"
  shows "\<exists>s. dumped route (calls_between w w') s \<and> snapshot_matches s policy"
proof -
  from assms obtain i w1 where i: "inspect_links K route w = Some (Some i, w1)" "single_loopback i"
    by (auto simp: configure_links_def bind_eq_Some_conv split: if_splits option.split_asm)
  with assms obtain w2 where
    u: "set_link_up K route (loopback_index i) (policy = Network_loopback_only) w1 = Some (True, w2)"
    by (auto simp: configure_links_def bind_eq_Some_conv split: if_splits)
  with assms i obtain s where s: "inspect_links K route w2 = Some (Some s, w')" "snapshot_matches s policy"
    by (auto simp: configure_links_def bind_eq_Some_conv split: if_splits option.split_asm)
  note r = i(1) u s
  have e: "extends w w2"
    using extends_trans [OF only_calls_extends [OF inspect_links_only [OF r(1)]] only_calls_extends [OF set_link_up_only [OF r(2)]]] .
  from inspect_links_post [OF r(3)] have e2: "extends w2 w'" and d: "dumped route (calls_between w2 w') s" by blast+
  from dumped_mono [OF d, of "calls_between w w2"] have "dumped route (calls_between w w') s"
    by (simp add: calls_between_trans [OF e e2])
  with r(4) show ?thesis by blast
qed

text \<open>
  C13. A network policy other than \<open>allowed\<close> is reported as established only after the process
  entered a new network namespace and after a complete dump of that namespace's links, taken
  after the link was configured and on the same socket, that the policy accepts.
\<close>

theorem network_policy_established:
  assumes "setup_network_policy K policy w = Some (None, w')" "policy \<noteq> Network_allowed"
  shows "\<exists>r n route cs s. calls_between w w' = (Mnt (Unshare CLONE_NEWNET), r) # cs @ [(Fd (Close route), n)] \<and>
    ret r = 0 \<and> dumped route cs s \<and> snapshot_matches s policy"
proof -
  obtain r w1 where u: "invoke K (Mnt (Unshare CLONE_NEWNET)) w = (r, w1)" by fastforce
  obtain route w2 where o: "open_route_socket K w1 = (route, w2)" by fastforce
  from assms u o obtain w3 where z: "ret r = 0" "route \<ge> 0"
    and c: "configure_links K policy route w2 = Some (None, w3)" and w': "w' = reset_fd K route w3"
    by (auto simp: setup_network_policy_def syscall_def bind_eq_Some_conv split: if_splits)
  obtain n w4 where cl: "invoke K (Fd (Close route)) w3 = (n, w4)" by fastforce
  with w' z have w4: "w' = w4" by (simp add: reset_fd_def syscall_def)
  from configure_links_established [OF c] obtain s where s: "dumped route (calls_between w2 w3) s" "snapshot_matches s policy"
    by blast
  have e: "extends w w1" "extends w1 w2" "extends w2 w3" "extends w3 w4"
    using invoke_extends [OF u] invoke_extends [OF cl] only_calls_extends [OF open_route_socket_only [OF o]]
      only_calls_extends [OF configure_links_only [OF c]] by blast+
  have "calls_between w1 w3 = calls_between w1 w2 @ calls_between w2 w3" using calls_between_trans [OF e(2,3)] .
  then have d: "dumped route (calls_between w1 w3) s" using dumped_mono [OF s(1), of "calls_between w1 w2"] by simp
  have "calls_between w w' = (Mnt (Unshare CLONE_NEWNET), r) # calls_between w1 w3 @ [(Fd (Close route), n)]"
    using calls_between_trans [OF e(1) extends_trans [OF extends_trans [OF e(2,3)] e(4)]]
      calls_between_trans [OF extends_trans [OF e(2,3)] e(4)] calls_between_invoke [OF u] calls_between_invoke [OF cl] w4
    by simp
  with z(1) d s(2) show ?thesis by blast
qed

section \<open>The probe\<close>

interpretation network_pipe: wire_record network_failure_bytes network_failure_of_bytes sizeof_network_failure
  by unfold_locales (simp_all add: network_failure_bytes_def network_failure_of_bytes_def sizeof_network_failure_def)

lemma loopback_exchange_only: "loopback_exchange K a b w = (ok, w') \<Longrightarrow> only_calls network_call w w'"
proof -
  assume h: "loopback_exchange K a b w = (ok, w')"
  obtain n w1 where s: "syscall K (Net (Send_byte a 110)) w = (n, w1)" by fastforce
  obtain r w2 where t: "invoke K (Net (Recv_byte b)) w1 = (r, w2)" by fastforce
  have "only_calls network_call w w1" "only_calls network_call w1 w2"
    using s t by (auto intro: only_calls_syscall only_calls_invoke)
  with h s t show ?thesis
    by (auto simp: loopback_exchange_def split: if_splits intro: only_calls_trans)
qed

lemma loopback_connect_only: "loopback_connect K l w = (ok, w') \<Longrightarrow> only_calls network_call w w'"
proof -
  assume h: "loopback_connect K l w = (ok, w')"
  obtain a w1 where s: "syscall K (Net Socket_stream) w = (a, w1)" by fastforce
  obtain b w2 where t: "syscall K (Net (Connect a)) w1 = (b, w2)" by fastforce
  obtain c w3 where u: "syscall K (Net (Accept4 l)) w2 = (c, w3)" by fastforce
  obtain d w4 where v: "loopback_exchange K a c w3 = (d, w4)" by fastforce
  have o: "only_calls network_call w w1" "only_calls network_call w1 w2" "only_calls network_call w2 w3"
    using s t u by (auto intro: only_calls_syscall)
  note o2 = only_calls_trans [OF o(1,2)] and o3 = only_calls_trans [OF only_calls_trans [OF o(1,2)] o(3)]
  note o4 = only_calls_trans [OF o3 loopback_exchange_only [OF v]]
  have "w' = w1 \<or> w' = reset_fd K a w2 \<or> w' = reset_fd K a w3 \<or> w' = reset_fd K a (reset_fd K c w4)"
    using h s t u v by (auto simp: loopback_connect_def split: if_splits)
  then show ?thesis
    using o o2 o3 only_calls_trans [OF o2 reset_fd_network] only_calls_trans [OF o3 reset_fd_network]
      only_calls_trans [OF only_calls_trans [OF o4 reset_fd_network] reset_fd_network] by (elim disjE) simp_all
qed

lemma loopback_roundtrip_only: "loopback_roundtrip K w = (ok, w') \<Longrightarrow> only_calls network_call w w'"
proof -
  assume h: "loopback_roundtrip K w = (ok, w')"
  obtain l w1 where s: "syscall K (Net Socket_stream) w = (l, w1)" by fastforce
  obtain b w2 where t: "syscall K (Net (Bind_loopback l)) w1 = (b, w2)" by fastforce
  obtain c w3 where u: "syscall K (Net (Listen l)) w2 = (c, w3)" by fastforce
  obtain d w4 where v: "syscall K (Net (Getsockname l)) w3 = (d, w4)" by fastforce
  obtain e w5 where x: "loopback_connect K l w4 = (e, w5)" by fastforce
  have o: "only_calls network_call w w1" "only_calls network_call w1 w2" "only_calls network_call w2 w3"
    "only_calls network_call w3 w4"
    using s t u v by (auto intro: only_calls_syscall)
  note o2 = only_calls_trans [OF o(1,2)] and o3 = only_calls_trans [OF only_calls_trans [OF o(1,2)] o(3)]
  note o4 = only_calls_trans [OF o3 o(4)]
  note o5 = only_calls_trans [OF o4 loopback_connect_only [OF x]]
  have "w' = w1 \<or> w' = reset_fd K l w2 \<or> w' = reset_fd K l w3 \<or> w' = reset_fd K l w4 \<or> w' = reset_fd K l w5"
    using h s t u v x by (auto simp: loopback_roundtrip_def split: if_splits)
  then show ?thesis
    using o only_calls_trans [OF o2 reset_fd_network] only_calls_trans [OF o3 reset_fd_network]
      only_calls_trans [OF o4 reset_fd_network] only_calls_trans [OF o5 reset_fd_network] by (elim disjE) simp_all
qed

lemma network_calls_accept_nothing: "only_calls network_call w w' \<Longrightarrow> accepted (calls_between w w') = []"
  by (rule accepted_none) (auto dest: only_calls_member)

definition writes_accepted :: "(syscall \<times> reply) list \<Rightarrow> bool" where
  "writes_accepted cs \<longleftrightarrow>
     list_all (\<lambda>(c, r). case c of Fd (Write fd bs) \<Rightarrow> ret r > 0 \<or> ret r < 0 \<and> err r = EINTR | _ \<Rightarrow> True) cs"

lemma writes_accepted_all:
  assumes "only_calls (\<lambda>c. \<exists>bs. c = Fd (Write fd bs)) w w'" "writes_accepted (pre @ calls_between w w')"
  shows "all_accepted (calls_between w w')"
proof -
  have "ret r > 0 \<or> ret r < 0 \<and> err r = EINTR" if m: "(c, r) \<in> set (calls_between w w')" for c r
    using assms(2) only_calls_member [OF assms(1) m] m by (force simp: writes_accepted_def list_all_iff)
  then show ?thesis by (auto simp: all_accepted_def list_all_iff)
qed

text \<open>What the child of the probe puts into the pipe.\<close>

lemma reported_failure:
  assumes "only_calls network_call w w1" "write_failure K fd failure w1 = Some w'"
    and "writes_accepted (calls_between w w')"
  shows "network_failure_of_bytes (accepted (calls_between w w')) = failure \<and>
    length (accepted (calls_between w w')) = sizeof_network_failure"
proof -
  note wr = assms(2) [unfolded write_failure_def]
  note o = write_record_only [OF wr]
  have c: "calls_between w w' = calls_between w w1 @ calls_between w1 w'"
    using calls_between_trans [OF only_calls_extends [OF assms(1)] only_calls_extends [OF o]] .
  from writes_accepted_all [OF o] assms(3) c have "all_accepted (calls_between w1 w')" by simp
  from network_pipe.sent_decodes [OF wr this] network_calls_accept_nothing [OF assms(1)] c show ?thesis by simp
qed

lemma network_probe_child_post:
  assumes "network_probe_child K policy r0 r1 w = Some (code, w')"
  obtains f w1 where "setup_network_policy K policy (snd (syscall K (Fd (Close r0)) w)) = Some (f, w1)"
    and "code = 0 \<and> f = None \<and> accepted (calls_between w w') = [] \<or>
      code = 1 \<and> (\<exists>g. (f = None \<or> f = Some g) \<and> (writes_accepted (calls_between w w') \<longrightarrow>
         network_failure_of_bytes (accepted (calls_between w w')) = g \<and>
         length (accepted (calls_between w w')) = sizeof_network_failure))"
proof -
  obtain n w0 where cl: "syscall K (Fd (Close r0)) w = (n, w0)" by fastforce
  then have o0: "only_calls network_call w w0" by (rule only_calls_syscall) simp
  from assms cl obtain f w1 where s: "setup_network_policy K policy w0 = Some (f, w1)"
    by (auto simp: network_probe_child_def bind_eq_Some_conv)
  note o1 = only_calls_trans [OF o0 setup_network_policy_only [OF s]]
  obtain ok w2 where l: "(if policy = Network_loopback_only then loopback_roundtrip K w1 else (True, w1)) = (ok, w2)"
    by fastforce
  have o2: "only_calls network_call w w2"
    using l only_calls_trans [OF o1 loopback_roundtrip_only] o1 by (auto split: if_splits)
  obtain m w3 where cl1: "syscall K (Fd (Close r1)) w2 = (m, w3)" by fastforce
  then have o3: "only_calls network_call w w3"
    using only_calls_trans [OF o2 only_calls_syscall [OF cl1]] by simp
  have "(code = 0 \<and> f = None \<and> w' = w3) \<or> (\<exists>g. code = 1 \<and> f = Some g \<and> write_failure K r1 g w1 = Some w') \<or>
      (\<exists>g. code = 1 \<and> f = None \<and> write_failure K r1 g w2 = Some w')"
    using assms cl s l cl1
    by (cases f) (auto simp: network_probe_child_def bind_eq_Some_conv split: if_splits)
  then have "code = 0 \<and> f = None \<and> accepted (calls_between w w') = [] \<or>
      code = 1 \<and> (\<exists>g. (f = None \<or> f = Some g) \<and> (writes_accepted (calls_between w w') \<longrightarrow>
         network_failure_of_bytes (accepted (calls_between w w')) = g \<and>
         length (accepted (calls_between w w')) = sizeof_network_failure))"
    using network_calls_accept_nothing [OF o3] reported_failure [OF o1] reported_failure [OF o2] by (elim disjE exE) blast+
  then show ?thesis using that [of f w1] s cl by simp
qed


text \<open>What the parent of the probe reads from the pipe and from \<open>waitpid\<close>.\<close>

definition exits_with :: "pid \<Rightarrow> int \<Rightarrow> (syscall \<times> reply) list \<Rightarrow> bool" where
  "exits_with child code cs \<longleftrightarrow>
     list_all (\<lambda>(c, r). c = Proc (Waitpid child) \<longrightarrow>
       ret r = child \<and> out r = Status_data (code * 256) \<or> ret r < 0 \<and> err r = EINTR) cs"

lemma network_probe_parent_post:
  assumes run: "network_probe_parent K child r0 r1 w = Some (f, w')"
    and exits: "exits_with child code (calls_between w w')" and "child > 0" "0 \<le> code" "code < 256"
  shows "f = (let bytes = bytes_read (calls_between w w') in
    if code = 0 \<and> bytes = [] then None
    else if length bytes = sizeof_network_failure then Some (network_failure_of_bytes bytes)
    else Some (network_failure Policy_validation EIO))"
proof -
  obtain n w1 where c1: "syscall K (Fd (Close r1)) w = (n, w1)" by fastforce
  from run c1 obtain bytes w2 where rd: "read_record K r0 sizeof_network_failure [] w1 = Some (bytes, w2)"
    by (auto simp: network_probe_parent_def bind_eq_Some_conv)
  obtain m w3 where c2: "syscall K (Fd (Close r0)) w2 = (m, w3)" by fastforce
  from run c1 rd c2 obtain r where rt: "retry_eintr K (Proc (Waitpid child)) w3 = Some (r, w')"
    by (auto simp: network_probe_parent_def waitpid_retry_def bind_eq_Some_conv)
  from retry_eintr_calls [OF rt] obtain pre where e4: "extends w3 w'"
    and p: "calls_between w3 w' = pre @ [(Proc (Waitpid child), r)]"
      "\<forall>(c', r') \<in> set pre. c' = Proc (Waitpid child) \<and> ret r' < 0" by auto
  have e1: "extends w w1" and e3: "extends w2 w3" using c1 c2 syscall_extends by blast+
  from read_record_post [OF rd] have e2: "extends w1 w2" and b: "bytes = bytes_read (calls_between w1 w2)"
    by (auto dest: only_calls_extends)
  have "calls_between w w' = calls_between w w1 @ calls_between w1 w2 @ calls_between w2 w3 @ calls_between w3 w'"
    using calls_between_trans [OF e1 extends_trans [OF e2 extends_trans [OF e3 e4]]]
      calls_between_trans [OF e2 extends_trans [OF e3 e4]] calls_between_trans [OF e3 e4] by simp
  note c = this
  have "bytes_read (calls_between w w1) = []" "bytes_read (calls_between w2 w3) = []"
    using c1 c2 by (auto elim!: syscallD simp: calls_between_append bytes_read_def)
  moreover have "bytes_read (calls_between w3 w') = []"
    unfolding p(1) using p(2) by (intro bytes_read_none) auto
  ultimately have d: "bytes_read (calls_between w w') = bytes" by (simp add: c b)
  have last: "ret r = child" "out r = Status_data (code * 256)"
    using exits retry_eintr_last [OF rt] by (auto simp: c p(1) exits_with_def list_all_iff)
  then have st: "WIFEXITED (reply_status r)" "WEXITSTATUS (reply_status r) = code"
    using exit_status_decodes [OF assms(4,5)] assms(3) by (simp_all add: reply_status_def)
  from run c1 rd c2 rt show ?thesis
    by (auto simp: network_probe_parent_def waitpid_retry_def d last st Let_def)
qed

text \<open>
  C37. The probe tells the parent what happened in the child: when every byte the child's writes
  put into the pipe is what the parent reads, and the status from \<open>waitpid\<close> is the child's
  exit code, the parent reports success exactly when the child exited with zero, a reported
  success means that the policy was set up in the child, and a failure of that setup is the
  failure the parent reports, stage and error number included.
\<close>

theorem network_probe_reports_child:
  assumes "network_probe_child K policy r0 r1 wc = Some (code, wc')"
    and "network_probe_parent K child r0 r1 wp = Some (f, wp')"
    and "bytes_read (calls_between wp wp') = accepted (calls_between wc wc')"
    and "writes_accepted (calls_between wc wc')"
    and "exits_with child code (calls_between wp wp')" "child > 0"
  shows "(f = None \<longleftrightarrow> code = 0) \<and>
    (\<exists>s w1. setup_network_policy K policy (snd (syscall K (Fd (Close r0)) wc)) = Some (s, w1) \<and>
       (f = None \<longrightarrow> s = None) \<and> (s \<noteq> None \<longrightarrow> f = s))"
proof -
  from network_probe_child_post [OF assms(1)] obtain s w1 where
    s: "setup_network_policy K policy (snd (syscall K (Fd (Close r0)) wc)) = Some (s, w1)"
    and c: "code = 0 \<and> s = None \<and> accepted (calls_between wc wc') = [] \<or>
      code = 1 \<and> (\<exists>g. (s = None \<or> s = Some g) \<and>
         network_failure_of_bytes (accepted (calls_between wc wc')) = g \<and>
         length (accepted (calls_between wc wc')) = sizeof_network_failure)"
    using assms(4) by blast
  then have "0 \<le> code" "code < 256" by auto
  from network_probe_parent_post [OF assms(2,5,6) this] c s assms(3) show ?thesis by auto
qed

section \<open>Concrete runs\<close>

definition ack_message :: "u32 \<Rightarrow> u32 \<Rightarrow> byte list" where
  "ack_message sequence e =
     bytes_of_u32 36 @ bytes_of_u16 (ucast NLMSG_ERROR) @ bytes_of_u16 0 @ bytes_of_u32 sequence @
     bytes_of_u32 0 @ bytes_of_u32 e @ replicate 16 0"

lemma scan_ack_message:
  "scan_ack sequence (ack_message sequence e @ t) 0 36 = (if e = 0 then Acknowledged else Refused (- sint e))"
proof -
  have f: "nlmsg_len (ack_message sequence e @ t) 0 = 36" "nlmsg_seq (ack_message sequence e @ t) 0 = sequence"
    "nlmsg_type (ack_message sequence e @ t) 0 = NLMSG_ERROR" "nlmsgerr_error (ack_message sequence e @ t) 0 = sint e"
    by (simp_all add: ack_message_def nlmsg_len_def nlmsg_type_def nlmsg_seq_def nlmsgerr_error_def u32_at_def
        u16_at_def NLMSG_ERROR_def)
  have "sint e = 0 \<longleftrightarrow> e = 0" by (metis signed_eq_0_iff)
  then show ?thesis
    by (subst scan_ack.simps) (simp add: valid_netlink_message_def f netlink_defs NLMSG_LENGTH_def)
qed

definition dump_reply :: "link list \<Rightarrow> reply" where
  "dump_reply links =
     (let d = link_datagram 1 links @ dump_done 1 in data_reply (int (length d)) (Bytes_data d))"

lemma length_dump_done [simp]: "length (dump_done sequence) = 20"
  by (simp add: dump_done_def)

lemma scan_dump_reply:
  assumes "well_sized links"
  shows "scan_links 1 (overlay (reply_bytes (dump_reply links)) buffer) 0 (ret (dump_reply links)) s =
    Done (fold add_link links s)"
  using scan_link_datagram [OF assms, of 20 1 "dump_done 1 @ drop (length (link_datagram 1 links) + 20) buffer" s]
  by (simp add: dump_reply_def data_reply_def reply_bytes_def overlay_def scan_dump_done Let_def)

lemma receive_dump_reply:
  assumes "well_sized links" "kern w = dump_reply links # ks"
  shows "receive_dump scripted fd 1 buffer s w =
    Some (Some (fold add_link links s), snd (invoke scripted (Net (Recv fd 16384)) w))"
proof -
  have i: "invoke scripted (Net (Recv fd 16384)) w = (dump_reply links, snd (invoke scripted (Net (Recv fd 16384)) w))"
    using assms(2) by (simp add: invoke_def)
  have "ret (dump_reply links) > 0" by (simp add: dump_reply_def data_reply_def Let_def)
  then show ?thesis
    by (subst receive_dump.simps) (simp add: retry_eintr_unfold [OF i] scan_dump_reply [OF assms(1)])
qed

lemma receive_ack_reply:
  assumes "kern w = data_reply 36 (Bytes_data (ack_message 2 0)) # ks"
  shows "receive_ack scripted fd 2 buffer w = Some (True, snd (invoke scripted (Net (Recv fd 8192)) w))"
proof -
  let ?r = "data_reply 36 (Bytes_data (ack_message 2 0))"
  have i: "invoke scripted (Net (Recv fd 8192)) w = (?r, snd (invoke scripted (Net (Recv fd 8192)) w))"
    using assms by (simp add: invoke_def)
  show ?thesis
    by (subst receive_ack.simps)
      (simp add: retry_eintr_unfold [OF i] overlay_def scan_ack_message, simp add: data_reply_def reply_bytes_def
        overlay_def scan_ack_message)
qed

definition loopback_script :: "reply list" where
  "loopback_script = [ok_reply, num_reply 7, ok_reply, num_reply 32, dump_reply [(1, 8, [])],
     num_reply 32, data_reply 36 (Bytes_data (ack_message 2 0)), num_reply 32, dump_reply [(1, 9, [])], ok_reply]"

lemma loopback_run:
  "\<exists>w'. setup_network_policy scripted Network_loopback_only (start_world loopback_script) = Some (None, w')"
proof -
  have w: "well_sized [(1, 8, [])]" "well_sized [(1, 9, [])]" by (simp_all add: well_sized_def)
  have m: "length (link_message a b c d e f) = 32" for a b c d e f by (simp add: link_message_def)
  show ?thesis
    by (simp add: setup_network_policy_def open_route_socket_def configure_links_def inspect_links_def set_link_up_def
        send_netlink_def receive_dump_reply [OF w(1)] receive_dump_reply [OF w(2)] receive_ack_reply m
        retry_eintr.simps loopback_script_def invoke_def syscall_def start_world_def ok_reply_def num_reply_def
        single_loopback_def snapshot_matches_def empty_snapshot_def Let_def IFF_LOOPBACK_def IFF_UP_def)
qed

theorem network_policy_established_witness:
  "\<exists>w' r n route cs s. setup_network_policy scripted Network_loopback_only (start_world loopback_script) = Some (None, w') \<and>
    calls_between (start_world loopback_script) w' = (Mnt (Unshare CLONE_NEWNET), r) # cs @ [(Fd (Close route), n)] \<and>
    ret r = 0 \<and> dumped route cs s \<and> snapshot_matches s Network_loopback_only"
  using loopback_run network_policy_established [where policy = Network_loopback_only and K = scripted] by blast

definition refused_failure :: network_setup_failure where
  "refused_failure = network_failure Network_namespace EPERM"

definition refused_child :: "reply list" where
  "refused_child = [ok_reply, err_reply EPERM, num_reply 8]"

definition refused_parent :: "reply list" where
  "refused_parent = [ok_reply, data_reply 8 (Bytes_data (network_failure_bytes refused_failure)), ok_reply,
     data_reply 77 (Status_data 256)]"


lemma refused_child_run:
  "\<exists>w'. network_probe_child scripted Network_denied 3 4 (start_world refused_child) = Some (1, w') \<and>
     history w' = [(Fd (Close 3), ok_reply), (Mnt (Unshare CLONE_NEWNET), err_reply EPERM),
       (Fd (Write 4 (network_failure_bytes refused_failure)), num_reply 8)]"
  by (simp add: network_probe_child_def setup_network_policy_def refused_child_def scripted_simps write_failure_def
      write_record.simps refused_failure_def network_failure_bytes_def length_0_conv [symmetric] del: length_0_conv)

lemma refused_parent_run:
  "\<exists>w'. network_probe_parent scripted 77 3 4 (start_world refused_parent) = Some (Some refused_failure, w') \<and>
     history w' = [(Fd (Close 4), ok_reply), (Fd (Read 3 8), data_reply 8 (Bytes_data (network_failure_bytes refused_failure))),
       (Fd (Close 3), ok_reply), (Proc (Waitpid 77), data_reply 77 (Status_data 256))]"
proof -
  have "network_failure_bytes refused_failure \<noteq> []"
    using network_pipe.length_encode [of refused_failure] by (auto simp: sizeof_network_failure_def)
  then show ?thesis
    by (simp add: network_probe_parent_def refused_parent_def scripted_simps read_record.simps waitpid_retry_def
      retry_eintr.simps reply_status_def WIFEXITED_def WEXITSTATUS_def read_data_def reply_bytes_def
      network_pipe.decode_encode network_pipe.length_encode sizeof_network_failure_def
      network_pipe.length_encode [unfolded sizeof_network_failure_def])
qed

theorem network_probe_reports_child_witness:
  "\<exists>wc' wp'. network_probe_child scripted Network_denied 3 4 (start_world refused_child) = Some (1, wc') \<and>
     network_probe_parent scripted 77 3 4 (start_world refused_parent) = Some (Some refused_failure, wp') \<and>
     (\<exists>s w1. setup_network_policy scripted Network_denied
        (snd (syscall scripted (Fd (Close 3)) (start_world refused_child))) = Some (s, w1) \<and>
        (s \<noteq> None \<longrightarrow> s = Some refused_failure))"
proof -
  from refused_child_run obtain wc' where c: "network_probe_child scripted Network_denied 3 4 (start_world refused_child) = Some (1, wc')"
    and hc: "history wc' = [(Fd (Close 3), ok_reply), (Mnt (Unshare CLONE_NEWNET), err_reply EPERM),
       (Fd (Write 4 (network_failure_bytes refused_failure)), num_reply 8)]" by blast
  from refused_parent_run obtain wp' where p: "network_probe_parent scripted 77 3 4 (start_world refused_parent) = Some (Some refused_failure, wp')"
    and hp: "history wp' = [(Fd (Close 4), ok_reply), (Fd (Read 3 8), data_reply 8 (Bytes_data (network_failure_bytes refused_failure))),
       (Fd (Close 3), ok_reply), (Proc (Waitpid 77), data_reply 77 (Status_data 256))]" by blast
  have b: "calls_between (start_world k) w = history w" for k :: "reply list" and w
    by (simp add: calls_between_def start_world_def)
  note l = network_pipe.length_encode [of refused_failure, unfolded sizeof_network_failure_def]
  have "bytes_read (calls_between (start_world refused_parent) wp') = accepted (calls_between (start_world refused_child) wc')"
    using l by (simp add: b hc hp bytes_read_def accepted_def num_reply_def data_reply_def read_data_def reply_bytes_def)
  moreover have "writes_accepted (calls_between (start_world refused_child) wc')"
    by (simp add: b hc writes_accepted_def num_reply_def)
  moreover have "exits_with 77 1 (calls_between (start_world refused_parent) wp')"
    by (simp add: b hp exits_with_def data_reply_def)
  ultimately show ?thesis
    using network_probe_reports_child [OF c p] c p by auto
qed

end
