(* ===== verification/Mount_Setup.thy ===== *)
theory Mount_Setup
  imports Mount_Isolation
begin

text \<open>
  What the operations of \<open>Mount_Isolation\<close> establish: containment of paths, the single cleanup of the
  scratch directory, the order of mount operations in the child and the evidence behind a
  successful setup, and the disjointness of an admission. The last section evaluates the model on
  concrete replies.
\<close>

section \<open>Containment of paths\<close>

lemma contains_elements_prefix: "contains_elements ps cs \<longleftrightarrow> strict_prefix ps cs"
  by (induction ps cs rule: contains_elements.induct) (auto simp: strict_prefix_def)

lemma path_contains_prefix:
  "path_contains p c \<longleftrightarrow> prefix (path_elements (lexically_normal p)) (path_elements (lexically_normal c))"
  by (auto simp: path_contains_def path_eq_def contains_elements_prefix strict_prefix_def Let_def)

text \<open>
  C36. Two canonical paths are in the containment relation exactly when the names of the first are the
  first names of the second.
\<close>

theorem path_contains_canonical:
  assumes "list_all (\<lambda>n. plain n \<and> n \<noteq> ''.'' \<and> n \<noteq> ''..'') ns" "list_all (\<lambda>n. plain n \<and> n \<noteq> ''.'' \<and> n \<noteq> ''..'') ms"
  shows "path_contains (CHR ''/'' # join_slash ns) (CHR ''/'' # join_slash ms) \<longleftrightarrow> prefix ns ms"
proof -
  have "list_all plain ns" "list_all plain ms" using assms by (simp_all add: list_all_iff)
  moreover have "canonical_path (CHR ''/'' # join_slash ns)" "canonical_path (CHR ''/'' # join_slash ms)"
    using assms by (auto simp: canonical_path_def)
  ultimately show ?thesis
    by (simp add: path_contains_prefix lexically_normal_canonical canonical_elements)
qed

theorem path_contains_canonical_witness:
  "path_contains ''/srv'' ''/srv/view'' \<and> \<not> path_contains ''/srv'' ''/srv2''"
  using path_contains_canonical [of "[''srv'']" "[''srv'', ''view'']"] path_contains_canonical [of "[''srv'']" "[''srv2'']"]
  by (simp add: plain_def)

text \<open>
  A trailing separator hides containment: normalisation keeps it, its empty last element matches no
  name, and a resource directly inside the root view is admitted as if it were disjoint from it.
\<close>

theorem trailing_separator_hides_overlap:
  "\<not> path_contains ''/srv/view/'' ''/srv/view/material'' \<and> \<not> path_contains ''/srv/view/material'' ''/srv/view/'' \<and>
   path_contains ''/srv/view'' ''/srv/view/material''"
  by (simp add: path_contains_prefix lexically_normal_def is_absolute_def filenames_def relative_elements_def
      path_elements_def normal_step_def root_path_def)

section \<open>Cleanup by the parent\<close>

text \<open>
  C35. Removal of the scratch directory is attempted once and its verdict is stable: a success means that
  each of the two directories was removed or was not there, and asking again, whatever happens in
  between, makes no call and gives the same answer.
\<close>

theorem parent_cleanup_stable:
  assumes "verify_parent_cleanup K adm w = (ok, adm', w')"
  shows "verify_parent_cleanup K' adm' v = (ok, adm', v) \<and>
    (ok \<and> \<not> cleanup_attempted adm \<and> scratch_path adm \<noteq> [] \<longrightarrow>
      (\<exists>r1 r2. calls_between w w' = [(Fs (Rmdir (path_append (scratch_path adm) ''root'')), r1), (Fs (Rmdir (scratch_path adm)), r2)] \<and>
         (ret r1 < 0 \<longrightarrow> err r1 = ENOENT) \<and> (ret r2 < 0 \<longrightarrow> err r2 = ENOENT)))"
proof -
  obtain n w1 where a: "syscall K (Fs (Rmdir (path_append (scratch_path adm) ''root''))) w = (n, w1)" by fastforce
  obtain m w2 where b: "syscall K (Fs (Rmdir (scratch_path adm))) w1 = (m, w2)" by fastforce
  from a obtain r1 where r1: "ret r1 = n" "history w1 = history w @ [(Fs (Rmdir (path_append (scratch_path adm) ''root'')), r1)]"
    "errno w1 = (if n < 0 then err r1 else errno w)" by (rule syscallD)
  from b obtain r2 where r2: "ret r2 = m" "history w2 = history w1 @ [(Fs (Rmdir (scratch_path adm)), r2)]"
    "errno w2 = (if m < 0 then err r2 else errno w1)" by (rule syscallD)
  have c: "calls_between w w2 = [(Fs (Rmdir (path_append (scratch_path adm) ''root'')), r1), (Fs (Rmdir (scratch_path adm)), r2)]"
    by (rule calls_between_append) (simp add: r1 r2)
  show ?thesis
    using assms a b c r1(1,3) r2(1,3)
    by (auto simp: verify_parent_cleanup_def remove_directory_def Let_def split: if_splits)
qed

definition sample_admission :: isolated_admission where
  "sample_admission = \<lparr>root_source_fd = 3, admitted_bindings = [], namespaces = [], scratch_path = ''/tmp/x'',
     cleanup_attempted = False\<rparr>"

theorem parent_cleanup_stable_witness:
  "\<exists>adm' w'. verify_parent_cleanup scripted sample_admission (start_world [err_reply ENOENT, ok_reply]) = (True, adm', w') \<and>
     verify_parent_cleanup scripted adm' (start_world []) = (True, adm', start_world [])"
proof -
  have "\<exists>adm' w'. verify_parent_cleanup scripted sample_admission (start_world [err_reply ENOENT, ok_reply]) = (True, adm', w')"
    by (simp add: verify_parent_cleanup_def remove_directory_def sample_admission_def scripted_simps)
  then obtain adm' w' where
    r: "verify_parent_cleanup scripted sample_admission (start_world [err_reply ENOENT, ok_reply]) = (True, adm', w')" by blast
  with parent_cleanup_stable [OF r, of scripted "start_world []"] show ?thesis by blast
qed

section \<open>What the child mounts\<close>

text \<open>The mount namespace is private, and a tree was sealed with the attributes of an access.\<close>

definition private_namespace :: "(syscall \<times> reply) list \<Rightarrow> bool" where
  "private_namespace cs \<longleftrightarrow>
     (\<exists>r. (Mnt (Unshare CLONE_NEWNS), r) \<in> set cs \<and> ret r = 0) \<and>
     (\<exists>r. (Mnt (Mount [] ''/'' [] [MS_REC, MS_PRIVATE] []), r) \<in> set cs \<and> ret r = 0)"

definition tree_sealed :: "(syscall \<times> reply) list \<Rightarrow> fd \<Rightarrow> resource_access \<Rightarrow> bool" where
  "tree_sealed cs tree a \<longleftrightarrow> (\<exists>r. (Mnt (Mount_setattr tree (sealed_attributes a)), r) \<in> set cs \<and> ret r = 0)"

lemma private_namespace_mono: "private_namespace cs \<Longrightarrow> set cs \<subseteq> set ds \<Longrightarrow> private_namespace ds"
  unfolding private_namespace_def by blast

lemma tree_sealed_mono: "tree_sealed cs t a \<Longrightarrow> set cs \<subseteq> set ds \<Longrightarrow> tree_sealed ds t a"
  unfolding tree_sealed_def by blast

text \<open>A tree is attached, and the root is changed, only in a private namespace; the tree is sealed.\<close>

definition mount_guard :: call_guard_pred where
  "mount_guard pre x \<longleftrightarrow>
     (case fst x of
        Mnt (Move_mount tree target) \<Rightarrow> private_namespace pre \<and> (\<exists>a. tree_sealed pre tree a)
      | Mnt (Chroot p) \<Rightarrow> private_namespace pre
      | _ \<Rightarrow> True)"

lemma mount_guard_mono: "mount_guard pre x \<Longrightarrow> set pre \<subseteq> set pre' \<Longrightarrow> mount_guard pre' x"
  unfolding mount_guard_def
  by (auto split: syscall.splits mount_call.splits intro: private_namespace_mono tree_sealed_mono)

interpretation mounts: call_guard mount_guard
  by unfold_locales (erule mount_guard_mono, simp)

definition mount_calls :: "fd set \<Rightarrow> bool \<Rightarrow> syscall \<Rightarrow> bool" where
  "mount_calls T rooted c \<longleftrightarrow>
     (case c of Mnt (Move_mount tree target) \<Rightarrow> tree \<in> T | Mnt (Chroot p) \<Rightarrow> rooted | Mnt m \<Rightarrow> True
      | Fs f \<Rightarrow> True | Fd (Close fd) \<Rightarrow> True | Proc (Chdir p) \<Rightarrow> True | _ \<Rightarrow> False)"

lemma mount_calls_simps [simp]:
  "mount_calls T b (Fs f)" "mount_calls T b (Fd (Close fd))" "mount_calls T b (Proc (Chdir p))"
  "mount_calls T b (Mnt (Open_tree fd))" "mount_calls T b (Mnt (Mount_setattr fd a))" "mount_calls T b (Mnt (Unshare n))"
  "mount_calls T b (Mnt (Mount s t u fl d))" "mount_calls T b (Mnt (Fchdir fd))"
  "mount_calls T b (Mnt (Move_mount tree target)) \<longleftrightarrow> tree \<in> T" "mount_calls T b (Mnt (Chroot q)) \<longleftrightarrow> b"
  by (simp_all add: mount_calls_def)

lemma mount_calls_mono: "only_calls (mount_calls T b) w w' \<Longrightarrow> T \<subseteq> T' \<Longrightarrow> only_calls (mount_calls T' (b \<or> c)) w w'"
  by (erule only_calls_mono) (auto simp: mount_calls_def split: syscall.splits mount_call.splits)

lemma reset_fd_mounts: "only_calls (mount_calls T b) w (reset_fd K fd w)"
  by (rule reset_fd_only) simp

lemma syscall_mounts: "syscall K c w = (n, w') \<Longrightarrow> mount_calls T b c \<Longrightarrow> only_calls (mount_calls T b) w w'"
  by (rule only_calls_syscall)

lemma then_reset: "only_calls (mount_calls T b) w w' \<Longrightarrow> only_calls (mount_calls T b) w (reset_fd K fd w')"
  by (rule only_calls_trans [OF _ reset_fd_mounts])

lemma then_syscall:
  "only_calls (mount_calls T b) w w0 \<Longrightarrow> syscall K c w0 = (n, w') \<Longrightarrow> mount_calls T b c \<Longrightarrow> only_calls (mount_calls T b) w w'"
  by (rule only_calls_trans [OF _ only_calls_syscall])

lemma then_invoke:
  "only_calls (mount_calls T b) w w0 \<Longrightarrow> invoke K c w0 = (r, w') \<Longrightarrow> mount_calls T b c \<Longrightarrow> only_calls (mount_calls T b) w w'"
  by (rule only_calls_trans [OF _ only_calls_invoke])

lemma close_all_mounts: "only_calls (mount_calls T b) w (close_all K fds w)"
proof (induction fds arbitrary: w)
  case (Cons fd fds)
  show ?case using only_calls_trans [OF reset_fd_mounts Cons] by simp
qed simp

lemma same_inode_mounts: "same_inode K fd i w = (ok, w') \<Longrightarrow> only_calls (mount_calls T b) w w'"
  by (cases "invoke K (Fs (Fstat fd)) w") (auto simp: same_inode_def intro: only_calls_invoke)

lemma open_beneath_mounts: "open_beneath K root p w = (fd, w') \<Longrightarrow> only_calls (mount_calls T b) w w'"
  by (auto simp: open_beneath_def intro: syscall_mounts)

lemma open_exact_mounts: "open_exact_path K p w = (fd, w') \<Longrightarrow> only_calls (mount_calls T b) w w'"
  by (auto simp: open_exact_path_def intro: syscall_mounts)

lemma attach_tree_mounts: "attach_tree K tree target w = (ok, w') \<Longrightarrow> tree \<in> T \<Longrightarrow> only_calls (mount_calls T b) w w'"
  by (cases "syscall K (Mnt (Move_mount tree target)) w") (auto simp: attach_tree_def intro: syscall_mounts)

lemma mount_failed_world [simp]: "snd (mount_failed stage w) = w" "fst (mount_failed stage w) = Some (mount_failure stage (errno w))"
  by (simp_all add: mount_failed_def)

lemma make_devices_mounts: "make_devices K root w = (f, w') \<Longrightarrow> only_calls (mount_calls T b) w w'"
proof -
  assume h: "make_devices K root w = (f, w')"
  let ?d = "path_append root ''dev''"
  obtain r w1 where a: "invoke K (Fs (Lstat ?d)) w = (r, w1)" by fastforce
  obtain n w2 where c: "syscall K (Mnt (Mount ''tmpfs'' ?d ''tmpfs'' [MS_NOSUID, MS_NOEXEC] ''mode=0755,size=64k'')) w1 = (n, w2)" by fastforce
  obtain m w3 where d: "syscall K (Fs (Mknod (path_append ?d ''null'') 438 1 3)) w2 = (m, w3)" by fastforce
  obtain q w4 where e: "syscall K (Fs (Chmod (path_append ?d ''null'') 438)) w3 = (q, w4)" by fastforce
  have o: "only_calls (mount_calls T b) w w1" using a by (auto intro: only_calls_invoke)
  note o2 = then_syscall [OF o c] note o3 = then_syscall [OF _ d] note o4 = then_syscall [OF _ e]
  have "w' \<in> {w1, w2, w3, w4}"
    using h a c d e by (auto simp: make_devices_def mount_failed_def Let_def split: if_splits)
  then show ?thesis using o o2 o3 [OF o2] o4 [OF o3 [OF o2]] by auto
qed

lemma make_children_mounts: "make_children K p cs w = (f, w') \<Longrightarrow> only_calls (mount_calls T b) w w'"
proof (induction cs arbitrary: w)
  case (Cons c cs)
  obtain n w1 where a: "syscall K (Fs (Mkdir (path_append p c) 365)) w = (n, w1)" by fastforce
  have o: "only_calls (mount_calls T b) w w1" using a by (auto intro: syscall_mounts)
  show ?case
  proof (cases "n = 0")
    case True
    with Cons.prems a have "make_children K p cs w1 = (f, w')" by simp
    from only_calls_trans [OF o Cons.IH [OF this]] show ?thesis .
  next
    case False
    with Cons.prems a o show ?thesis by (auto simp: mount_failed_def)
  qed
qed simp

lemma mount_namespace_at_mounts: "mount_namespace_at K root attached ns w = (f, w') \<Longrightarrow> only_calls (mount_calls T b) w w'"
proof -
  assume h: "mount_namespace_at K root attached ns w = (f, w')"
  obtain fd w1 where a: "open_beneath K attached (namespace_path ns) w = (fd, w1)" by fastforce
  obtain same w2 where c: "same_inode K fd (namespace_identity ns) w1 = (same, w2)" by fastforce
  define here where "here = path_append root (relative_path (namespace_path ns))"
  obtain n w3 where d: "syscall K (Mnt (Mount ''tmpfs'' here ''tmpfs'' [MS_NOSUID, MS_NODEV, MS_NOEXEC] ''mode=0755'')) w2 = (n, w3)" by fastforce
  obtain g w4 where e: "make_children K here (children ns) w3 = (g, w4)" by fastforce
  note o1 = open_beneath_mounts [OF a] note o2 = only_calls_trans [OF o1 same_inode_mounts [OF c]]
  note o3 = then_syscall [OF o2 d]
  have "w' \<in> {w1, reset_fd K fd w2, reset_fd K fd w3, reset_fd K fd w4}"
    using h a c d e by (auto simp: mount_namespace_at_def mount_failed_def Let_def here_def split: if_splits)
  then show ?thesis
    using o1 then_reset [OF o2] then_reset [OF o3] then_reset [OF only_calls_trans [OF o3 make_children_mounts [OF e]]] by auto
qed

text \<open>A loop over a list of steps that stops at the first failure keeps what each step keeps.\<close>

lemma mount_namespaces_mounts: "mount_namespaces K root attached nss w = (f, w') \<Longrightarrow> only_calls (mount_calls T b) w w'"
proof (induction nss arbitrary: w)
  case (Cons ns nss)
  obtain g w1 where a: "mount_namespace_at K root attached ns w = (g, w1)" by fastforce
  note o = mount_namespace_at_mounts [OF a, of T b]
  from Cons.prems a have "w' = w1 \<or> mount_namespaces K root attached nss w1 = (f, w')" by (auto split: if_splits)
  then show ?case using o only_calls_trans [OF o Cons.IH] by auto
qed simp

lemma seal_namespace_mounts: "seal_namespace K attached ns w = (f, w') \<Longrightarrow> only_calls (mount_calls T b) w w'"
proof -
  assume h: "seal_namespace K attached ns w = (f, w')"
  obtain fd w1 where a: "open_beneath K attached (namespace_path ns) w = (fd, w1)" by fastforce
  obtain sealed w2 where c: "seal_namespace_mount K fd w1 = (sealed, w2)" by fastforce
  note o1 = open_beneath_mounts [OF a, of T b]
  have "only_calls (mount_calls T b) w1 w2"
    using c by (auto simp: seal_namespace_mount_def Let_def case_prod_beta intro: only_calls_syscall prod.collapse [symmetric])
  note o2 = then_reset [OF only_calls_trans [OF o1 this]]
  have "w' \<in> {w1, reset_fd K fd w2}"
    using h a c by (auto simp: seal_namespace_def mount_failed_def split: if_splits)
  then show ?thesis using o1 o2 by auto
qed

lemma seal_namespaces_mounts: "seal_namespaces K attached nss w = (f, w') \<Longrightarrow> only_calls (mount_calls T b) w w'"
proof (induction nss arbitrary: w)
  case (Cons ns nss)
  obtain g w1 where a: "seal_namespace K attached ns w = (g, w1)" by fastforce
  note o = seal_namespace_mounts [OF a, of T b]
  from Cons.prems a have "w' = w1 \<or> seal_namespaces K attached nss w1 = (f, w')" by (auto split: if_splits)
  then show ?case using o only_calls_trans [OF o Cons.IH] by auto
qed simp

text \<open>
  A binding is attached: its tree was moved onto a destination, and the directory that is then
  visible at its logical path, opened beneath the new root, is the admitted source.
\<close>

definition binding_attached :: "(syscall \<times> reply) list \<Rightarrow> fd \<Rightarrow> isolated_binding \<Rightarrow> fd \<Rightarrow> bool" where
  "binding_attached cs attached b tree \<longleftrightarrow>
     (\<exists>pre target r ro rs post. cs = pre @ [(Mnt (Move_mount tree target), r),
        (Fs (Openat2 attached (beneath (logical_path b)) path_open_flags
           [RESOLVE_BENEATH, RESOLVE_NO_SYMLINKS, RESOLVE_NO_MAGICLINKS]), ro),
        (Fs (Fstat (ret ro)), rs)] @ post \<and>
      ret r = 0 \<and> ret rs = 0 \<and> st_kind (reply_stat rs) = S_IFDIR \<and>
      st_dev (reply_stat rs) = device (source_identity b) \<and> st_ino (reply_stat rs) = inode (source_identity b))"

lemma binding_attached_mono: "binding_attached cs at b t \<Longrightarrow> binding_attached (cs0 @ cs @ cs1) at b t"
  unfolding binding_attached_def by (metis append_assoc)

lemma attach_binding_mounts:
  assumes "attach_binding K attached b tree w = (f, w')" "tree \<in> T"
  shows "only_calls (mount_calls T rooted) w w' \<and> (f = None \<longrightarrow> binding_attached (calls_between w w') attached b tree)"
proof -
  obtain fd w1 where a: "open_beneath K attached (logical_path b) w = (fd, w1)" by fastforce
  obtain same w2 where c: "(if synthetic_destination b then (True, w1) else same_inode K fd (target_identity b) w1) = (same, w2)" by fastforce
  obtain r w3 where d: "invoke K (Mnt (Move_mount tree fd)) w2 = (r, w3)" by fastforce
  obtain ro w4 where e: "invoke K (Fs (Openat2 attached (beneath (logical_path b)) path_open_flags
           [RESOLVE_BENEATH, RESOLVE_NO_SYMLINKS, RESOLVE_NO_MAGICLINKS])) w3 = (ro, w4)" by fastforce
  obtain rs w5 where g: "invoke K (Fs (Fstat (ret ro))) w4 = (rs, w5)" by fastforce
  have o1: "only_calls (mount_calls T rooted) w w1" using open_beneath_mounts [OF a] .
  have "only_calls (mount_calls T rooted) w1 w2" using c same_inode_mounts by (auto split: if_splits)
  note o2 = only_calls_trans [OF o1 this]
  have o3: "only_calls (mount_calls T rooted) w w3" using then_invoke [OF o2 d] assms(2) by simp
  have o4: "only_calls (mount_calls T rooted) w w4" using then_invoke [OF o3 e] by simp
  have o5: "only_calls (mount_calls T rooted) w w5" using then_invoke [OF o4 g] by simp
  have cases: "w' = w1 \<and> f \<noteq> None \<or> w' = reset_fd K fd w2 \<and> f \<noteq> None \<or> w' = reset_fd K fd w3 \<and> f \<noteq> None \<or>
      w' = reset_fd K fd w4 \<and> f \<noteq> None \<or>
      w' = reset_fd K fd (reset_fd K (ret ro) w5) \<and> (f = None \<longrightarrow> ret r = 0 \<and> ret rs = 0 \<and> st_kind (reply_stat rs) = S_IFDIR \<and>
        st_dev (reply_stat rs) = device (source_identity b) \<and> st_ino (reply_stat rs) = inode (source_identity b))"
    using assms(1) a c d e g
    by (auto simp: attach_binding_def attach_tree_def open_beneath_def same_inode_def syscall_def mount_failed_def Let_def
        split: if_splits)
  have "binding_attached (calls_between w w') attached b tree" if "f = None"
  proof -
    from cases that have w': "w' = reset_fd K fd (reset_fd K (ret ro) w5)"
      and ok: "ret r = 0 \<and> ret rs = 0 \<and> st_kind (reply_stat rs) = S_IFDIR \<and>
        st_dev (reply_stat rs) = device (source_identity b) \<and> st_ino (reply_stat rs) = inode (source_identity b)" by auto
    have e5: "extends w5 w'" unfolding w' using only_calls_extends [OF then_reset [OF reset_fd_mounts]] .
    have "history w5 = history w2 @ [(Mnt (Move_mount tree fd), r),
        (Fs (Openat2 attached (beneath (logical_path b)) path_open_flags
           [RESOLVE_BENEATH, RESOLVE_NO_SYMLINKS, RESOLVE_NO_MAGICLINKS]), ro), (Fs (Fstat (ret ro)), rs)]"
      using invokeD(2) [OF d] invokeD(2) [OF e] invokeD(2) [OF g] by simp
    from calls_between_append [OF this] have k: "calls_between w2 w5 = [(Mnt (Move_mount tree fd), r),
        (Fs (Openat2 attached (beneath (logical_path b)) path_open_flags
           [RESOLVE_BENEATH, RESOLVE_NO_SYMLINKS, RESOLVE_NO_MAGICLINKS]), ro), (Fs (Fstat (ret ro)), rs)]" .
    have x: "extends w2 w5" using d e g invoke_extends extends_trans by metis
    have "calls_between w w' = calls_between w w2 @ calls_between w2 w5 @ calls_between w5 w'"
      using calls_between_trans [OF only_calls_extends [OF o2] extends_trans [OF x e5]] calls_between_trans [OF x e5] by simp
    with ok show ?thesis unfolding binding_attached_def k by blast
  qed
  moreover have "only_calls (mount_calls T rooted) w w'"
    using cases o1 then_reset [OF o2] then_reset [OF o3] then_reset [OF o4] then_reset [OF then_reset [OF o5]] by auto
  ultimately show ?thesis by blast
qed

lemma attach_bindings_mounts:
  assumes "attach_bindings K attached bts w = (f, w')" "snd ` set bts \<subseteq> T"
  shows "only_calls (mount_calls T rooted) w w' \<and>
    (f = None \<longrightarrow> (\<forall>(b, tree) \<in> set bts. binding_attached (calls_between w w') attached b tree))"
  using assms
proof (induction bts arbitrary: w)
  case (Cons bt bts)
  obtain b tree where bt: "bt = (b, tree)" by fastforce
  obtain g w1 where a: "attach_binding K attached b tree w = (g, w1)" by fastforce
  have "tree \<in> T" "snd ` set bts \<subseteq> T" using Cons.prems(2) bt by auto
  note m = attach_binding_mounts [OF a this(1), of rooted] and IH = Cons.IH [OF _ this(2)]
  show ?case
  proof (cases "g = None")
    case False
    with Cons.prems(1) a bt m show ?thesis by auto
  next
    case True
    with Cons.prems(1) a bt have r: "attach_bindings K attached bts w1 = (f, w')" by simp
    from m have o: "only_calls (mount_calls T rooted) w w1" by blast
    from IH [OF r] have o': "only_calls (mount_calls T rooted) w1 w'" by blast
    have c: "calls_between w w' = calls_between w w1 @ calls_between w1 w'"
      using calls_between_trans [OF only_calls_extends [OF o] only_calls_extends [OF o']] .
    have "binding_attached (calls_between w w') attached b tree"
      using binding_attached_mono [of "calls_between w w1" attached b tree "[]" "calls_between w1 w'"] m True by (simp add: c)
    moreover have "binding_attached (calls_between w w') attached b' t'" if "f = None" "(b', t') \<in> set bts" for b' t'
      using binding_attached_mono [of "calls_between w1 w'" attached b' t' "calls_between w w1" "[]"] IH [OF r] that
      by (auto simp: c)
    ultimately show ?thesis using only_calls_trans [OF o o'] bt by auto
  qed
qed simp

lemma enter_root_mounts: "enter_root K attached w = (f, w') \<Longrightarrow> only_calls (mount_calls T True) w w'"
proof -
  assume h: "enter_root K attached w = (f, w')"
  obtain n w1 where a: "syscall K (Mnt (Fchdir attached)) w = (n, w1)" by fastforce
  obtain m w2 where c: "syscall K (Mnt (Chroot ''.'')) w1 = (m, w2)" by fastforce
  obtain q w3 where d: "syscall K (Proc (Chdir ''/'')) w2 = (q, w3)" by fastforce
  have o: "only_calls (mount_calls T True) w w1" using a by (auto intro: syscall_mounts)
  have "w' \<in> {w1, w2, w3}" using h a c d by (auto simp: enter_root_def mount_failed_def split: if_splits)
  then show ?thesis using o then_syscall [OF o c] then_syscall [OF then_syscall [OF o c] d] by auto
qed

text \<open>The root of the process was changed to the current directory.\<close>

definition root_entered :: "(syscall \<times> reply) list \<Rightarrow> bool" where
  "root_entered cs \<longleftrightarrow> (\<exists>r. (Mnt (Chroot ''.''), r) \<in> set cs \<and> ret r = 0)"

definition all_attached :: "(syscall \<times> reply) list \<Rightarrow> fd \<Rightarrow> isolated_binding list \<Rightarrow> fd list \<Rightarrow> bool" where
  "all_attached cs attached bs trees \<longleftrightarrow>
     (\<forall>(b, tree) \<in> set (zip bs trees). binding_attached cs attached b tree) \<and> root_entered cs"

lemma all_attached_mono: "all_attached cs at bs ts \<Longrightarrow> all_attached (cs0 @ cs @ cs1) at bs ts"
  unfolding all_attached_def root_entered_def by (auto intro: binding_attached_mono)

lemma all_attached_between:
  assumes "all_attached (calls_between a b) at bs ts" "extends w a" "extends a b" "extends b w'"
  shows "all_attached (calls_between w w') at bs ts"
  using all_attached_mono [OF assms(1), of "calls_between w a" "calls_between b w'"]
    calls_between_trans [OF assms(2) extends_trans [OF assms(3,4)]] calls_between_trans [OF assms(3,4)] by simp

lemma enter_root_entered:
  assumes "enter_root K attached w = (f, w')"
  shows "f = None \<longrightarrow> root_entered (calls_between w w')"
proof -
  obtain r1 w1 where a: "invoke K (Mnt (Fchdir attached)) w = (r1, w1)" by fastforce
  obtain r2 w2 where c: "invoke K (Mnt (Chroot ''.'')) w1 = (r2, w2)" by fastforce
  obtain r3 w3 where d: "invoke K (Proc (Chdir ''/'')) w2 = (r3, w3)" by fastforce
  have "history w3 = history w @ [(Mnt (Fchdir attached), r1), (Mnt (Chroot ''.''), r2), (Proc (Chdir ''/''), r3)]"
    using invokeD(2) [OF a] invokeD(2) [OF c] invokeD(2) [OF d] by simp
  from calls_between_append [OF this] assms a c d show ?thesis
    by (auto simp: enter_root_def syscall_def mount_failed_def root_entered_def split: if_splits)
qed

lemma populate_root_mounts:
  assumes "populate_root K adm root trees attached w = (f, w')" "set trees \<subseteq> T"
  shows "only_calls (mount_calls T True) w w' \<and> (f = None \<longrightarrow> all_attached (calls_between w w') attached (admitted_bindings adm) trees)"
proof -
  obtain f1 w1 where a: "make_devices K root w = (f1, w1)" by fastforce
  obtain f2 w2 where c: "mount_namespaces K root attached (namespaces adm) w1 = (f2, w2)" by fastforce
  obtain f3 w3 where d: "attach_bindings K attached (zip (admitted_bindings adm) trees) w2 = (f3, w3)" by fastforce
  obtain f4 w4 where e: "seal_namespaces K attached (namespaces adm) w3 = (f4, w4)" by fastforce
  obtain f5 w5 where g: "enter_root K attached w4 = (f5, w5)" by fastforce
  have z: "snd ` set (zip (admitted_bindings adm) trees) \<subseteq> T" using assms(2) by (auto dest: set_zip_rightD)
  note at = attach_bindings_mounts [OF d z, of True]
  have o1: "only_calls (mount_calls T True) w w1" by (rule make_devices_mounts [OF a])
  have o2: "only_calls (mount_calls T True) w w2" by (rule only_calls_trans [OF o1 mount_namespaces_mounts [OF c]])
  have o23: "only_calls (mount_calls T True) w2 w3" using at by blast
  have o3: "only_calls (mount_calls T True) w w3" by (rule only_calls_trans [OF o2 o23])
  have o34: "only_calls (mount_calls T True) w3 w4" by (rule seal_namespaces_mounts [OF e])
  have o45: "only_calls (mount_calls T True) w4 w5" by (rule enter_root_mounts [OF g])
  have o4: "only_calls (mount_calls T True) w w4" by (rule only_calls_trans [OF o3 o34])
  have o5: "only_calls (mount_calls T True) w w5" by (rule only_calls_trans [OF o4 o45])
  have cases: "f \<noteq> None \<and> w' \<in> {w1, w2, w3, w4} \<or> f = f5 \<and> f3 = None \<and> w' = w5"
    using assms(1) a c d e g by (auto simp: populate_root_def split: if_splits)
  have "all_attached (calls_between w w') attached (admitted_bindings adm) trees" if "f = None"
  proof -
    from cases that have w': "w' = w5" "f3 = None" "f5 = None" by auto
    note e25 = calls_between_trans [OF only_calls_extends [OF o23] only_calls_extends [OF only_calls_trans [OF o34 o45]]]
      calls_between_trans [OF only_calls_extends [OF o34] only_calls_extends [OF o45]]
    have "binding_attached (calls_between w2 w5) attached bd t" if "(bd, t) \<in> set (zip (admitted_bindings adm) trees)" for bd t
      using binding_attached_mono [of "calls_between w2 w3" attached bd t "[]" "calls_between w3 w5"] at w'(2) that by (auto simp: e25)
    moreover have "root_entered (calls_between w2 w5)"
      using enter_root_entered [OF g] w'(3) by (auto simp: e25 root_entered_def)
    ultimately have "all_attached (calls_between w2 w5) attached (admitted_bindings adm) trees" by (auto simp: all_attached_def)
    from all_attached_between [OF this only_calls_extends [OF o2] _ extends_refl]
      only_calls_extends [OF only_calls_trans [OF o23 only_calls_trans [OF o34 o45]]] w'(1) show ?thesis by simp
  qed
  with cases o1 o2 o3 o4 o5 show ?thesis by auto
qed

lemma attach_root_mounts:
  assumes "attach_root K adm root tree trees w = (f, w')" "insert tree (set trees) \<subseteq> T"
  shows "only_calls (mount_calls T True) w w' \<and>
    (f = None \<longrightarrow> (\<exists>attached. all_attached (calls_between w w') attached (admitted_bindings adm) trees))"
proof -
  obtain target w1 where a: "open_exact_path K root w = (target, w1)" by fastforce
  obtain moved w2 where c: "attach_tree K tree target w1 = (moved, w2)" by fastforce
  obtain attached w3 where d: "open_exact_path K root w2 = (attached, w3)" by fastforce
  obtain g w4 where e: "populate_root K adm root trees attached w3 = (g, w4)" by fastforce
  have t: "set trees \<subseteq> T" "tree \<in> T" using assms(2) by auto
  note p = populate_root_mounts [OF e t(1)]
  have o1: "only_calls (mount_calls T True) w w1" by (rule open_exact_mounts [OF a])
  have o2: "only_calls (mount_calls T True) w w2" by (rule only_calls_trans [OF o1 attach_tree_mounts [OF c t(2)]])
  have o3: "only_calls (mount_calls T True) w w3" by (rule only_calls_trans [OF o2 open_exact_mounts [OF d]])
  have o34: "only_calls (mount_calls T True) w3 w4" using p by blast
  have o4: "only_calls (mount_calls T True) w w4" by (rule only_calls_trans [OF o3 o34])
  have cases: "f \<noteq> None \<and> w' \<in> {w1, reset_fd K target w2, reset_fd K target w3} \<or>
      f = g \<and> w' = reset_fd K target (reset_fd K attached w4)"
    using assms(1) a c d e by (auto simp: attach_root_def mount_failed_def split: if_splits)
  have "\<exists>attached. all_attached (calls_between w w') attached (admitted_bindings adm) trees" if "f = None"
  proof -
    from cases that p have w': "w' = reset_fd K target (reset_fd K attached w4)"
      and x: "all_attached (calls_between w3 w4) attached (admitted_bindings adm) trees" by auto
    have "extends w4 w'" unfolding w' using only_calls_extends [OF then_reset [OF reset_fd_mounts]] .
    from all_attached_between [OF x only_calls_extends [OF o3] only_calls_extends [OF o34] this] show ?thesis by blast
  qed
  then show ?thesis
    using cases o1 then_reset [OF o2] then_reset [OF o3] then_reset [OF then_reset [OF o4]] by auto
qed

text \<open>Realization in the new namespace: nothing is attached before it is private.\<close>

lemma realize_namespace_mounts:
  assumes "realize_namespace K adm tree trees w = (f, w')"
  shows "f \<noteq> None \<and> only_calls (mount_calls {} False) w w' \<or>
    (\<exists>w3. only_calls (mount_calls {} False) w w3 \<and> private_namespace (calls_between w w3) \<and>
       only_calls (mount_calls (insert tree (set trees)) True) w3 w' \<and>
       (f = None \<longrightarrow> (\<exists>attached. all_attached (calls_between w3 w') attached (admitted_bindings adm) trees)))"
proof -
  let ?priv = "Mnt (Mount [] ''/'' [] [MS_REC, MS_PRIVATE] [])"
  let ?scratch = "Mnt (Mount ''tmpfs'' (scratch_path adm) ''tmpfs'' [MS_NOSUID, MS_NODEV] ''mode=0700,size=4m'')"
  let ?root = "path_append (scratch_path adm) ''root''"
  obtain r1 w1 where a: "invoke K (Mnt (Unshare CLONE_NEWNS)) w = (r1, w1)" by fastforce
  obtain r2 w2 where c: "invoke K ?priv w1 = (r2, w2)" by fastforce
  obtain r3 w3 where d: "invoke K ?scratch w2 = (r3, w3)" by fastforce
  obtain r4 w4 where e: "invoke K (Fs (Mkdir ?root 448)) w3 = (r4, w4)" by fastforce
  have o1: "only_calls (mount_calls T b) w w1" for T b using a by (auto intro: only_calls_invoke)
  have o2: "only_calls (mount_calls T b) w w2" for T b using then_invoke [OF o1 c] by simp
  have o3: "only_calls (mount_calls T b) w w3" for T b using then_invoke [OF o2 d] by simp
  have o4: "only_calls (mount_calls T b) w w4" for T b using then_invoke [OF o3 e] by simp
  have cases: "f \<noteq> None \<and> w' \<in> {w1, w2, w3, w4} \<or>
      ret r1 = 0 \<and> ret r2 = 0 \<and> attach_root K adm ?root tree trees w4 = (f, w')"
    using assms a c d e by (auto simp: realize_namespace_def syscall_def mount_failed_def Let_def split: if_splits)
  show ?thesis
  proof (cases "ret r1 = 0 \<and> ret r2 = 0 \<and> attach_root K adm ?root tree trees w4 = (f, w')")
    case True
    have "history w4 = history w @ [(Mnt (Unshare CLONE_NEWNS), r1), (?priv, r2), (?scratch, r3), (Fs (Mkdir ?root 448), r4)]"
      using invokeD(2) [OF a] invokeD(2) [OF c] invokeD(2) [OF d] invokeD(2) [OF e] by simp
    from calls_between_append [OF this] True have "private_namespace (calls_between w w4)"
      by (auto simp: private_namespace_def)
    with o4 attach_root_mounts [of K adm ?root tree trees w4 f w' "insert tree (set trees)"] True show ?thesis by blast
  next
    case False
    with cases o1 o2 o3 o4 show ?thesis by auto
  qed
qed

lemma clone_sealed_mounts:
  assumes "clone_sealed K source a w = (tree, sealed, w')"
  shows "only_calls (mount_calls T b) w w' \<and> (sealed \<longrightarrow> tree_sealed (calls_between w w') tree a)"
proof -
  obtain r w1 where x: "invoke K (Mnt (Open_tree source)) w = (r, w1)" by fastforce
  obtain s w2 where y: "invoke K (Mnt (Mount_setattr (ret r) (sealed_attributes a))) w1 = (s, w2)" by fastforce
  have o1: "only_calls (mount_calls T b) w w1" using x by (auto intro: only_calls_invoke)
  have o2: "only_calls (mount_calls T b) w w2" using then_invoke [OF o1 y] by simp
  have "history w2 = history w @ [(Mnt (Open_tree source), r), (Mnt (Mount_setattr (ret r) (sealed_attributes a)), s)]"
    using invokeD(2) [OF x] invokeD(2) [OF y] by simp
  from calls_between_append [OF this] assms x y o1 o2 show ?thesis
    by (auto simp: clone_sealed_def clone_tree_def seal_tree_def syscall_def tree_sealed_def split: if_splits)
qed

lemma tree_sealed_between:
  assumes "tree_sealed (calls_between a b) t x" "extends w a" "extends a b" "extends b w'"
  shows "tree_sealed (calls_between w w') t x"
  by (rule tree_sealed_mono [OF assms(1)])
    (auto simp: calls_between_trans [OF assms(2) extends_trans [OF assms(3,4)]] calls_between_trans [OF assms(3,4)])

lemma realize_bindings_mounts:
  assumes "realize_bindings K bs trees w = (f, trees', w')"
  shows "only_calls (mount_calls T b) w w' \<and>
    (\<exists>new. trees' = trees @ new \<and> (\<forall>t \<in> set new. \<exists>a. tree_sealed (calls_between w w') t a) \<and>
      (f = None \<longrightarrow> list_all2 (\<lambda>bd t. tree_sealed (calls_between w w') t (realized_access bd)) bs new))"
  using assms
proof (induction bs arbitrary: trees w)
  case (Cons bd bs)
  obtain tree sealed w1 where c: "clone_sealed K (source_fd bd) (realized_access bd) w = (tree, sealed, w1)"
    by (metis prod_cases3)
  note m = clone_sealed_mounts [OF c, of T b]
  then have o: "only_calls (mount_calls T b) w w1" by blast
  show ?case
  proof (cases sealed)
    case False
    with Cons.prems c then_reset [OF o] show ?thesis by auto
  next
    case True
    with Cons.prems c have r: "realize_bindings K bs (trees @ [tree]) w1 = (f, trees', w')" by simp
    from Cons.IH [OF r] obtain new where o': "only_calls (mount_calls T b) w1 w'" and
      n: "trees' = (trees @ [tree]) @ new" "\<forall>t \<in> set new. \<exists>a. tree_sealed (calls_between w1 w') t a"
      "f = None \<longrightarrow> list_all2 (\<lambda>bd t. tree_sealed (calls_between w1 w') t (realized_access bd)) bs new" by blast
    note e = only_calls_extends [OF o] only_calls_extends [OF o']
    have up: "tree_sealed (calls_between w1 w') t a \<Longrightarrow> tree_sealed (calls_between w w') t a" for t a
      using tree_sealed_between [OF _ e extends_refl] .
    have t: "tree_sealed (calls_between w w') tree (realized_access bd)"
      using tree_sealed_between [OF _ extends_refl e(1) e(2)] m True by blast
    have "list_all2 (\<lambda>bd t. tree_sealed (calls_between w w') t (realized_access bd)) bs new" if "f = None"
      using n(3) that up by (auto elim: list_all2_mono)
    moreover have "\<exists>a. tree_sealed (calls_between w w') t' a" if "t' \<in> set (tree # new)" for t'
      using that t n(2) up unfolding set_simps by blast
    ultimately show ?thesis
      using t n(1) only_calls_trans [OF o o'] by (intro conjI exI [of _ "tree # new"]) auto
  qed
qed simp


lemma guarded_phase:
  assumes "guarded mount_guard cs" "\<And>x. x \<in> set ds \<Longrightarrow> mount_guard cs x"
  shows "guarded mount_guard (cs @ ds)"
  by (rule guarded_extend [OF assms(1)]) (use assms(2) mount_guard_mono in fastforce)

lemma mount_calls_guard:
  assumes "only_calls (mount_calls T rooted) w w'" "x \<in> set (calls_between w w')"
    and "\<And>t. t \<in> T \<Longrightarrow> \<exists>a. tree_sealed cs t a" "T \<noteq> {} \<or> rooted \<Longrightarrow> private_namespace cs"
  shows "mount_guard cs x"
proof -
  obtain c r where x: "x = (c, r)" by fastforce
  with only_calls_member [OF assms(1)] assms(2) have "mount_calls T rooted c" by simp
  then show ?thesis using assms(3,4)
    by (auto simp: mount_guard_def x mount_calls_def split: syscall.splits mount_call.splits)
qed

text \<open>The two results on \<open>create_private_root\<close>, in one proof.\<close>

lemma create_private_root_mounts:
  assumes "create_private_root K adm w = (f, w')"
  shows "guarded mount_guard (calls_between w w') \<and>
    (f = None \<longrightarrow> (\<exists>tree trees attached. tree_sealed (calls_between w w') tree Read_only \<and>
       list_all2 (\<lambda>b t. tree_sealed (calls_between w w') t (realized_access b)) (admitted_bindings adm) trees \<and>
       all_attached (calls_between w w') attached (admitted_bindings adm) trees))"
proof -
  obtain tree sealed w1 where c: "clone_sealed K (root_source_fd adm) Read_only w = (tree, sealed, w1)" by (metis prod_cases3)
  obtain g trees w2 where r: "realize_bindings K (admitted_bindings adm) [] w1 = (g, trees, w2)" by (metis prod_cases3)
  obtain h w3 where n: "(if g \<noteq> None then (g, w2) else realize_namespace K adm tree trees w2) = (h, w3)" by fastforce
  have o1: "only_calls (mount_calls T b) w w1" for T b using clone_sealed_mounts [OF c] by blast
  have o12: "only_calls (mount_calls T b) w1 w2" for T b using realize_bindings_mounts [OF r] by blast
  have o2: "only_calls (mount_calls T b) w w2" for T b by (rule only_calls_trans [OF o1 o12])
  have quiet: "guarded mount_guard (calls_between w v)" if "only_calls (mount_calls {} False) w v" for v
    using mounts.guarded_all mount_calls_guard [OF that, of _ "[]"] by blast
  show ?thesis
  proof (cases sealed)
    case False
    with assms c then_reset [OF o1] show ?thesis
      by (auto simp: create_private_root_def mount_failed_def intro: quiet)
  next
    case True
    then have w': "f = h" "w' = reset_fd K tree (close_all K trees w3)"
      using assms c r n by (auto simp: create_private_root_def split: if_splits)
    have o3: "only_calls (mount_calls T b) w3 w'" for T b
      unfolding w'(2) by (rule then_reset [OF close_all_mounts])
    have ts: "tree_sealed (calls_between w w2) tree Read_only"
      using tree_sealed_between [OF _ extends_refl only_calls_extends [OF o1] only_calls_extends [OF o12]]
        clone_sealed_mounts [OF c] True by blast
    from realize_bindings_mounts [OF r] have bs: "\<forall>t \<in> set trees. \<exists>a. tree_sealed (calls_between w1 w2) t a"
      "g = None \<longrightarrow> list_all2 (\<lambda>bd t. tree_sealed (calls_between w1 w2) t (realized_access bd)) (admitted_bindings adm) trees" by auto
    have up: "tree_sealed (calls_between w1 w2) t a \<Longrightarrow> tree_sealed (calls_between w w2) t a" for t a
      using tree_sealed_between [OF _ only_calls_extends [OF o1] only_calls_extends [OF o12] extends_refl] .
    have all: "\<exists>a. tree_sealed (calls_between w w2) t a" if "t \<in> insert tree (set trees)" for t
      using that ts bs(1) up by blast
    have "f \<noteq> None \<and> only_calls (mount_calls {} False) w2 w3 \<or>
      (\<exists>v. only_calls (mount_calls {} False) w2 v \<and> private_namespace (calls_between w2 v) \<and>
        only_calls (mount_calls (insert tree (set trees)) True) v w3 \<and> g = None \<and>
        (f = None \<longrightarrow> (\<exists>attached. all_attached (calls_between v w3) attached (admitted_bindings adm) trees)))"
      using n realize_namespace_mounts [of K adm tree trees w2 h w3] w'(1) by (cases g) auto
    then show ?thesis
    proof (elim disjE exE conjE)
      assume "f \<noteq> None" and "only_calls (mount_calls {} False) w2 w3"
      then show ?thesis using quiet [OF only_calls_trans [OF only_calls_trans [OF o2] o3]] by blast
    next
      fix v
      assume v: "only_calls (mount_calls {} False) w2 v" "private_namespace (calls_between w2 v)"
        "only_calls (mount_calls (insert tree (set trees)) True) v w3" "g = None"
        and at: "f = None \<longrightarrow> (\<exists>attached. all_attached (calls_between v w3) attached (admitted_bindings adm) trees)"
      have ov: "only_calls (mount_calls {} False) w v" by (rule only_calls_trans [OF o2 v(1)])
      have o: "only_calls (mount_calls (insert tree (set trees)) True) v w'" by (rule only_calls_trans [OF v(3) o3])
      note ev = only_calls_extends [OF ov] and e2 = only_calls_extends [OF o2] and e2v = only_calls_extends [OF v(1)]
        and e' = only_calls_extends [OF o]
      have cs: "calls_between w w' = calls_between w v @ calls_between v w'" using calls_between_trans [OF ev e'] .
      have priv: "private_namespace (calls_between w v)"
        by (rule private_namespace_mono [OF v(2)]) (simp add: calls_between_trans [OF e2 e2v])
      have sealed_v: "\<exists>a. tree_sealed (calls_between w v) t a" if "t \<in> insert tree (set trees)" for t
        using all [OF that] tree_sealed_between [OF _ extends_refl e2 e2v] by blast
      have "guarded mount_guard (calls_between w w')"
        unfolding cs using quiet [OF ov] mount_calls_guard [OF o _ sealed_v priv] by (rule guarded_phase)
      moreover have fin: "tree_sealed (calls_between w w2) t a \<Longrightarrow> tree_sealed (calls_between w w') t a" for t a
        using tree_sealed_between [OF _ extends_refl e2 extends_trans [OF e2v e']] .
      moreover have "list_all2 (\<lambda>b t. tree_sealed (calls_between w w') t (realized_access b)) (admitted_bindings adm) trees"
        using bs(2) v(4) up fin by (auto elim: list_all2_mono)
      moreover have "\<exists>attached. all_attached (calls_between w w') attached (admitted_bindings adm) trees" if "f = None"
        using at that all_attached_between [OF _ ev only_calls_extends [OF v(3)] only_calls_extends [OF o3]] by blast
      ultimately show ?thesis using ts by blast
    qed
  qed
qed

text \<open>
  C12. Whatever the kernel answers, the child attaches a mount tree or changes its root only after it
  entered a mount namespace of its own and made all propagation private, and it attaches only
  trees whose attributes it has sealed before.
\<close>

theorem mounts_private_and_sealed:
  assumes "setup_isolated_filesystem K adm w = (f, w')"
  shows "guarded mount_guard (calls_between w w')"
  using create_private_root_mounts [OF assms [unfolded setup_isolated_filesystem_def]] by blast


section \<open>What is admitted\<close>

text \<open>What holds of the state of the admission loop after the bindings \<open>bs\<close>.\<close>

definition disjoint_paths :: "path list \<Rightarrow> bool" where
  "disjoint_paths ps = sorted_wrt (\<lambda>p q. \<not> overlaps p q) ps"

definition admitted_shape :: "(string \<Rightarrow> path) \<Rightarrow> resource_binding list \<Rightarrow> admission_state \<Rightarrow> bool" where
  "admitted_shape materialization bs st \<longleftrightarrow>
     logical_paths st = map mount_point bs \<and>
     host_paths st = map (\<lambda>b. lexically_normal (materialization (binding_resource b))) bs \<and>
     source_identities st = map source_identity (admitted st) \<and>
     map logical_path (admitted st) = map mount_point bs \<and>
     map realized_access (admitted st) = map binding_access bs \<and>
     map synthetic_destination (admitted st) = map (\<lambda>b. is_input_role (binding_role b)) bs"

definition admitted_checks :: "path \<Rightarrow> resource_binding list \<Rightarrow> admission_state \<Rightarrow> bool" where
  "admitted_checks root_view bs st \<longleftrightarrow>
     list_all (\<lambda>b. validate_role_access b = None) bs \<and>
     list_all (\<lambda>p. \<not> path_eq p ''/'' \<and> \<not> path_contains ''/dev'' p) (logical_paths st) \<and>
     disjoint_paths (logical_paths st) \<and>
     list_all (\<lambda>p. \<not> overlaps root_view p) (host_paths st) \<and> disjoint_paths (host_paths st) \<and>
     distinct (source_identities st)"

definition inputs_housed :: "resource_binding list \<Rightarrow> isolated_namespace list \<Rightarrow> bool" where
  "inputs_housed bs nss \<longleftrightarrow>
     distinct (map namespace_path nss) \<and>
     list_all (\<lambda>b. is_input_role (binding_role b) \<longrightarrow>
       list_ex (\<lambda>ns. namespace_path ns = parent_path (mount_point b) \<and> filename (mount_point b) \<in> set (children ns)) nss) bs"

lemma disjoint_paths_snoc: "disjoint_paths (ps @ [p]) \<longleftrightarrow> disjoint_paths ps \<and> \<not> list_ex (\<lambda>q. overlaps q p) ps"
  by (auto simp: disjoint_paths_def sorted_wrt_append list_ex_iff)

lemma check_paths_None:
  "check_paths root host st b = None \<longleftrightarrow>
     \<not> path_eq (mount_point b) ''/'' \<and> \<not> path_contains ''/dev'' (mount_point b) \<and>
     \<not> list_ex (\<lambda>p. overlaps p (mount_point b)) (logical_paths st) \<and> \<not> overlaps root host \<and>
     \<not> list_ex (\<lambda>p. overlaps p host) (host_paths st)"
  by (simp add: check_paths_def)

lemma join_namespace_houses:
  assumes "join_namespace parent i name nss = Some nss'"
  shows "list_ex (\<lambda>ns. namespace_path ns = parent \<and> name \<in> set (children ns)) nss' \<and>
    (distinct (map namespace_path nss) \<longrightarrow> distinct (map namespace_path nss')) \<and>
    set (map namespace_path nss') = insert parent (set (map namespace_path nss)) \<and>
    (\<forall>q n. list_ex (\<lambda>ns. namespace_path ns = q \<and> n \<in> set (children ns)) nss \<longrightarrow>
       list_ex (\<lambda>ns. namespace_path ns = q \<and> n \<in> set (children ns)) nss')"
  using assms
proof (induction nss arbitrary: nss')
  case (Cons ns nss)
  show ?case
  proof (cases "namespace_path ns = parent")
    case True
    with Cons.prems show ?thesis by (auto split: if_splits)
  next
    case False
    with Cons.prems obtain ms where ms: "join_namespace parent i name nss = Some ms" "nss' = ns # ms" by auto
    from Cons.IH [OF ms(1)] ms(2) False show ?thesis by auto
  qed
qed auto

lemma inputs_housed_join:
  assumes "inputs_housed bs nss" "join_namespace (parent_path (mount_point b)) i (filename (mount_point b)) nss = Some nss'"
  shows "inputs_housed (bs @ [b]) nss'"
  using join_namespace_houses [OF assms(2)] assms(1) by (auto simp: inputs_housed_def list_all_iff)

lemma admit_source_fresh:
  assumes "admit_source strerror K host b seen w = (Inr (source, i), w')"
  shows "i \<notin> set seen"
  using assms by (auto simp: admit_source_def Let_def case_prod_beta split: if_split_asm sum.split_asm)

lemma admit_input_joins:
  assumes "admit_input strerror K root logical nss w = Some (Inr nss', w')"
  shows "\<exists>i. join_namespace (parent_path logical) i (filename logical) nss = Some nss'"
proof -
  obtain target w1 where o: "open_beneath K root (parent_path logical) w = (target, w1)" by fastforce
  with assms obtain emptiness w2 where "directory_is_empty strerror K target w1 = Some (emptiness, w2)"
    and h: "fst (house_input strerror K target (parent_path logical) (filename logical) nss emptiness w2) = Inr nss'"
    by (auto simp: admit_input_def Let_def bind_eq_Some_conv case_prod_beta split: if_split_asm)
  obtain i w3 where i: "identity_of strerror K target w2 = (i, w3)" by fastforce
  from h i show ?thesis
    by (cases emptiness; cases i) (auto simp: house_input_def split: if_split_asm option.split_asm)
qed

lemma admit_binding_inv:
  assumes run: "admit_binding strerror K materialization root_view root st b w = Some (Inr st', w')"
    and inv: "admitted_shape materialization bs st" "admitted_checks root_view bs st" "inputs_housed bs (input_namespaces st)"
  shows "admitted_shape materialization (bs @ [b]) st' \<and> admitted_checks root_view (bs @ [b]) st' \<and>
    inputs_housed (bs @ [b]) (input_namespaces st')"
proof -
  let ?host = "lexically_normal (materialization (binding_resource b))"
  from run have v: "validate_role_access b = None" and p: "check_paths root_view ?host st b = None"
    by (auto simp: admit_binding_def Let_def split: option.splits)
  obtain s w1 where s: "admit_source strerror K ?host b (source_identities st) w = (s, w1)" by fastforce
  from run v p s obtain source i where si: "s = Inr (source, i)"
    by (cases s) (auto simp: admit_binding_def Let_def)
  note fresh = admit_source_fresh [OF s [unfolded si]]
  from run v p s si obtain x w2 where x: "admit_target strerror K root b (input_namespaces st) w1 = Some (x, w2)"
    and xs: "(case x of Inl e \<Rightarrow> (Inl e, reset_fd K source w2)
      | Inr (target, nss) \<Rightarrow> (Inr (record_binding st b ?host source i target nss), w2)) = (Inr st', w')"
    by (auto simp: admit_binding_def Let_def bind_eq_Some_conv)
  then obtain t nss where st': "x = Inr (t, nss)" "st' = record_binding st b ?host source i t nss"
    by (cases x) auto
  have "inputs_housed (bs @ [b]) nss"
  proof (cases "is_input_role (binding_role b)")
    case True
    with x st'(1) obtain y w3 where "admit_input strerror K root (mount_point b) (input_namespaces st) w1 = Some (y, w3)"
      "bind_result y (\<lambda>nss. Inr (zero_identity, nss)) = Inr (t, nss)" by (auto simp: admit_target_def bind_eq_Some_conv)
    then have "admit_input strerror K root (mount_point b) (input_namespaces st) w1 = Some (Inr nss, w3)"
      by (cases y) (auto simp: bind_result_def)
    from admit_input_joins [OF this] inputs_housed_join [OF inv(3)] show ?thesis by blast
  next
    case False
    obtain y w3 where "admit_destination strerror K root (mount_point b) w1 = (y, w3)" by fastforce
    with x st'(1) False have "nss = input_namespaces st" by (cases y) (auto simp: admit_target_def bind_result_def)
    with False inv(3) show ?thesis by (simp add: inputs_housed_def)
  qed
  moreover have "admitted_shape materialization (bs @ [b]) st'"
    using inv(1) by (simp add: admitted_shape_def st'(2) record_binding_def)
  moreover have "admitted_checks root_view (bs @ [b]) st'"
    using inv(2) v p fresh by (simp add: admitted_checks_def st'(2) record_binding_def disjoint_paths_snoc check_paths_None)
  ultimately show ?thesis by (simp add: st'(2) record_binding_def)
qed

lemma admit_bindings_inv:
  assumes "admit_bindings strerror K materialization root_view root st bs w = Some (Inr st', w')"
    and "admitted_shape materialization ds st" "admitted_checks root_view ds st" "inputs_housed ds (input_namespaces st)"
  shows "admitted_shape materialization (ds @ bs) st' \<and> admitted_checks root_view (ds @ bs) st' \<and>
    inputs_housed (ds @ bs) (input_namespaces st')"
  using assms
proof (induction bs arbitrary: ds st w)
  case (Cons b bs)
  from Cons.prems(1) obtain x w1 where x: "admit_binding strerror K materialization root_view root st b w = Some (x, w1)"
    and c: "(case x of Inl e \<Rightarrow> Some (Inl e, close_all K (map source_fd (admitted st)) w1)
      | Inr st \<Rightarrow> admit_bindings strerror K materialization root_view root st bs w1) = Some (Inr st', w')"
    by (auto simp: bind_eq_Some_conv)
  from c obtain st1 where "x = Inr st1" by (cases x) auto
  with x c have b: "admit_binding strerror K materialization root_view root st b w = Some (Inr st1, w1)"
    and r: "admit_bindings strerror K materialization root_view root st1 bs w1 = Some (Inr st', w')" by simp_all
  from Cons.IH [OF r, of "ds @ [b]"] admit_binding_inv [OF b Cons.prems(2-4)] show ?case by simp
qed simp

lemma inputs_housed_ordered: "inputs_housed bs nss \<Longrightarrow> inputs_housed bs (map order_children nss)"
  by (auto simp: inputs_housed_def order_children_def list_all_iff list_ex_iff comp_def)


section \<open>Concrete runs\<close>

definition directory_reply :: "u64 \<Rightarrow> reply" where
  "directory_reply n = data_reply 0 (Stat_data \<lparr>st_kind = S_IFDIR, st_dev = 1, st_ino = n\<rparr>)"

definition build_binding :: isolated_binding where
  "build_binding = \<lparr>source_fd = 4, source_identity = \<lparr>device = 1, inode = 5\<rparr>, target_identity = \<lparr>device = 1, inode = 6\<rparr>,
     realized_access = Writable, logical_path = ''/build'', synthetic_destination = False\<rparr>"

definition build_admission :: isolated_admission where
  "build_admission = \<lparr>root_source_fd = 3, admitted_bindings = [build_binding], namespaces = [], scratch_path = ''/tmp/x'',
     cleanup_attempted = False\<rparr>"

definition mount_script :: "reply list" where
  "mount_script = [num_reply 5, ok_reply, num_reply 6, ok_reply, ok_reply, ok_reply, ok_reply, ok_reply,
     num_reply 7, ok_reply, num_reply 8, directory_reply 9, ok_reply, ok_reply, ok_reply,
     num_reply 9, directory_reply 6, ok_reply, num_reply 10, directory_reply 5]"

lemmas mount_run_simps = setup_isolated_filesystem_def create_private_root_def clone_sealed_def clone_tree_def seal_tree_def
  realize_namespace_def attach_root_def open_exact_path_def attach_tree_def populate_root_def make_devices_def
  attach_binding_def open_beneath_def same_inode_def enter_root_def mount_failed_def reset_fd_def reply_stat_def

lemma mount_run:
  "\<exists>w'. setup_isolated_filesystem scripted build_admission (start_world mount_script) = (None, w')"
  by (simp add: mount_run_simps build_admission_def build_binding_def mount_script_def directory_reply_def scripted_simps
      Let_def)

theorem mounts_private_and_sealed_witness:
  "\<exists>w'. setup_isolated_filesystem scripted build_admission (start_world mount_script) = (None, w') \<and>
     guarded mount_guard (calls_between (start_world mount_script) w')"
  using mount_run mounts_private_and_sealed by blast


definition build_request :: "resource_binding list" where
  "build_request = [\<lparr>binding_role = Build_workspace, binding_access = Writable, mount_point = ''/build'', binding_resource = ''b''\<rparr>]"

definition admission_script :: "reply list" where
  "admission_script = [num_reply 3, directory_reply 2, num_reply 4, directory_reply 5, ok_reply, num_reply 5, directory_reply 6,
     ok_reply, data_reply 0 (Text_data ''/tmp/x''), ok_reply, ok_reply]"

lemma admission_run:
  "\<exists>adm w'. admit_isolated_resources (\<lambda>e. []) scripted (\<lambda>r. ''/host'') ''/view'' build_request (start_world admission_script) =
     Some (Inr adm, w')"
proof -
  have "canonical_path ''/view''" "canonical_path ''/host''" "canonical_path ''/build''" "canonical_path ''/dev''"
    unfolding canonical_path_def
    by (rule exI [of _ "[''view'']"], simp add: plain_def, rule exI [of _ "[''host'']"], simp add: plain_def,
        rule exI [of _ "[''build'']"], simp add: plain_def, rule exI [of _ "[''dev'']"], simp add: plain_def)
  note n = this [THEN lexically_normal_canonical]
  show ?thesis
    by (simp add: admit_isolated_resources_def admit_binding_def admit_source_def admit_target_def admit_destination_def
        validate_role_access_def check_paths_def overlaps_def path_contains_prefix n path_eq_def path_elements_def
        relative_elements_def filenames_def is_absolute_def open_exact_path_def open_beneath_def identity_of_def
        writable_by_current_credentials_def is_input_role_def record_binding_def empty_admission_def make_scratch_def
        bind_result_def reset_fd_def reply_stat_def build_request_def admission_script_def directory_reply_def
        scripted_simps Let_def)
qed


end
