(* ===== verification/Child.thy ===== *)
theory Child
  imports Outcome Network_Setup Mount_Setup
begin

text \<open>
  The child between \<open>fork\<close> and the program, \<open>child_main\<close> in \<open>src/backend.cpp\<close>: session, standard
  streams, isolation, working directory, capabilities, limits and containment in this order, then
  the two bytes of the start gate, and the program. A step that fails is reported through the
  control pipe as stage, error number and detail, and the child leaves with status 125.
\<close>

section \<open>Configuration\<close>

datatype stdin_policy = Stdin_closed | Stdin_null_device

record child_configuration =
  stdin_policy_of :: stdin_policy
  stdout_policy :: stream_policy
  stderr_policy :: stream_policy
  file_creation_mask :: u32
  working_directory :: string
  isolation :: "isolated_admission option"
  network :: network_policy
  limits :: resource_limits
  interpreter_fd :: fd
  arguments :: "string list"
  environment :: "string list"

text \<open>\<open>pipe_pair\<close>.\<close>

record pipe_pair =
  read_end :: fd
  write_end :: fd

text \<open>What a failed step reports: stage, error number and detail.\<close>

type_synonym child_report = "child_stage \<times> int \<times> u32"
type_synonym 'k child_step = "child_report option \<times> 'k world"

datatype child_end = Program_started | Child_exit int

section \<open>Steps\<close>

definition enter_session :: "'k kernel \<Rightarrow> 'k world \<Rightarrow> 'k child_step" where
  "enter_session K w =
     (let (n, w) = syscall K (Proc Setsid) w in
      if n < 0 then (Some (Process_group, errno w, 0), w) else (None, w))"

definition redirect :: "'k kernel \<Rightarrow> fd \<Rightarrow> fd \<Rightarrow> stream_policy \<Rightarrow> 'k world \<Rightarrow> bool \<times> 'k world" where
  "redirect K target write_fd policy w =
     (if policy = Capture_complete
      then let (n, w) = syscall K (Fd (Dup2 write_fd target)) w in (n \<ge> 0, w)
      else let (null_fd, w) = syscall K (Fs (Open ''/dev/null'' [O_WRONLY, O_CLOEXEC])) w in
        if null_fd < 0 then (False, w)
        else let (n, w) = syscall K (Fd (Dup2 null_fd target)) w;
                 (m, w) = syscall K (Fd (Close null_fd)) w
             in (n \<ge> 0, w))"

definition setup_stdin :: "'k kernel \<Rightarrow> stdin_policy \<Rightarrow> 'k world \<Rightarrow> 'k child_step" where
  "setup_stdin K policy w =
     (if policy = Stdin_closed then (None, snd (syscall K (Fd (Close 0)) w))
      else let (null_fd, w) = syscall K (Fs (Open ''/dev/null'' [O_RDONLY, O_CLOEXEC])) w in
        if null_fd < 0 then (Some (Standard_streams, errno w, 0), w)
        else let (n, w) = syscall K (Fd (Dup2 null_fd 0)) w;
                 saved = errno w;
                 (m, w) = syscall K (Fd (Close null_fd)) w
             in if n < 0 then (Some (Standard_streams, saved, 0), w) else (None, w))"

definition setup_streams ::
  "'k kernel \<Rightarrow> child_configuration \<Rightarrow> fd \<Rightarrow> fd \<Rightarrow> 'k world \<Rightarrow> 'k child_step" where
  "setup_streams K c out_w err_w w =
     (let (f, w) = setup_stdin K (stdin_policy_of c) w in
      if f \<noteq> None then (f, w)
      else let (okay, w) = redirect K 1 out_w (stdout_policy c) w in
        if \<not> okay then (Some (Standard_streams, errno w, 0), w)
        else let (okay, w) = redirect K 2 err_w (stderr_policy c) w in
          if \<not> okay then (Some (Standard_streams, errno w, 0), w) else (None, w))"

definition isolate ::
  "'k kernel \<Rightarrow> isolated_admission \<Rightarrow> network_policy \<Rightarrow> 'k world \<Rightarrow> 'k child_step option" where
  "isolate K adm policy w =
     (let (f, w) = setup_isolated_filesystem K adm w in
      if f \<noteq> None
      then Some (map_option (\<lambda>f. (Mount_isolation, sint (mount_error f), mount_stage f)) f, w)
      else do { (g, w) \<leftarrow> setup_network_policy K policy w;
                Some (map_option (\<lambda>g. (Network_isolation, sint (network_error g), network_stage g)) g, w) })"

definition enter_directory :: "'k kernel \<Rightarrow> child_configuration \<Rightarrow> 'k world \<Rightarrow> 'k child_step" where
  "enter_directory K c w =
     (let (n, w) = syscall K (Proc (Umask (file_creation_mask c))) w;
          (n, w) = syscall K (Proc (Chdir (working_directory c))) w
      in if n \<noteq> 0 then (Some (Working_directory, errno w, 0), w) else (None, w))"

definition drop_capabilities :: "'k kernel \<Rightarrow> child_configuration \<Rightarrow> 'k world \<Rightarrow> 'k child_step" where
  "drop_capabilities K c w =
     (if isolation c = None then (None, w)
      else let (okay, w) = drop_process_capabilities K w in
        if \<not> okay then (Some (child_stage.Capability_drop, errno w, 0), w) else (None, w))"

definition limit_stage_code :: "resource_limit_setup_stage \<Rightarrow> u32" where
  "limit_stage_code s = (case s of Stage_address_space \<Rightarrow> 0 | Stage_file_size \<Rightarrow> 1 | Stage_open_files \<Rightarrow> 2)"

definition install_limits :: "'k kernel \<Rightarrow> child_configuration \<Rightarrow> 'k world \<Rightarrow> 'k child_step" where
  "install_limits K c w =
     (let (f, w) = setup_resource_limits K (limits c) w
      in (map_option (\<lambda>f. (Resource_limits, limit_error f, limit_stage_code (limit_stage f))) f, w))"

definition contain :: "'k kernel \<Rightarrow> bool \<Rightarrow> child_configuration \<Rightarrow> 'k world \<Rightarrow> 'k child_step" where
  "contain K supported c w =
     (let (okay, w) = install_process_group_containment K supported (\<not> limits_empty (limits c)) w in
      if \<not> okay then (Some (Containment, errno w, 0), w) else (None, w))"

section \<open>The child\<close>

text \<open>The steps after isolation.\<close>

definition confine :: "'k kernel \<Rightarrow> bool \<Rightarrow> child_configuration \<Rightarrow> 'k world \<Rightarrow> 'k child_step" where
  "confine K supported c w =
     (let (f, w) = enter_directory K c w in
      if f \<noteq> None then (f, w)
      else let (f, w) = drop_capabilities K c w in
        if f \<noteq> None then (f, w)
        else let (f, w) = install_limits K c w in
          if f \<noteq> None then (f, w) else contain K supported c w)"

definition child_setup ::
  "'k kernel \<Rightarrow> bool \<Rightarrow> child_configuration \<Rightarrow> fd \<Rightarrow> fd \<Rightarrow> 'k world \<Rightarrow> 'k child_step option" where
  "child_setup K supported c out_w err_w w =
     (let (f, w) = enter_session K w in
      if f \<noteq> None then Some (f, w)
      else let (f, w) = setup_streams K c out_w err_w w in
        if f \<noteq> None then Some (f, w)
        else do { (f, w) \<leftarrow> (case isolation c of None \<Rightarrow> Some (None, w) | Some adm \<Rightarrow> isolate K adm (network c) w);
                  if f \<noteq> None then Some (f, w) else Some (confine K supported c w) })"

text \<open>The program: \<open>execveat\<close> returns only when it fails.\<close>

definition run_program :: "'k kernel \<Rightarrow> child_configuration \<Rightarrow> fd \<Rightarrow> 'k world \<Rightarrow> (child_end \<times> 'k world) option" where
  "run_program K c ctl_w w =
     (let w = close_fds_except K ctl_w (interpreter_fd c) w;
          (n, w) = syscall K (Proc (Execveat (interpreter_fd c) (arguments c) (environment c))) w
      in if n \<ge> 0 then Some (Program_started, w)
         else do { w \<leftarrow> report_child_error K ctl_w Execute (errno w) 0 w; Some (Child_exit 127, w) })"

definition start_gate ::
  "'k kernel \<Rightarrow> child_configuration \<Rightarrow> fd \<Rightarrow> fd \<Rightarrow> fd \<Rightarrow> 'k world \<Rightarrow> (child_end \<times> 'k world) option" where
  "start_gate K c ctl_w rdy_w sta_r w =
     do { (r, w) \<leftarrow> retry_eintr K (Fd (Write rdy_w [1])) w;
          let w = reset_fd K rdy_w w;
          if ret r \<noteq> 1 then Some (Child_exit 125, w)
          else do { (r, w) \<leftarrow> retry_eintr K (Fd (Read sta_r 1)) w;
                    let w = reset_fd K sta_r w;
                    if ret r \<noteq> 1 \<or> read_data r \<noteq> [1] then Some (Child_exit 125, w)
                    else run_program K c ctl_w w } }"

definition child_main ::
  "'k kernel \<Rightarrow> bool \<Rightarrow> child_configuration \<Rightarrow> pipe_pair \<Rightarrow> pipe_pair \<Rightarrow> pipe_pair \<Rightarrow> pipe_pair \<Rightarrow> pipe_pair \<Rightarrow>
     'k world \<Rightarrow> (child_end \<times> 'k world) option" where
  "child_main K supported c standard_out standard_err control ready start w =
     do { (f, w) \<leftarrow> child_setup K supported c (write_end standard_out) (write_end standard_err) w;
          case f of
            Some (stage, e, detail) \<Rightarrow>
              do { w \<leftarrow> report_child_error K (write_end control) stage e detail w; Some (Child_exit 125, w) }
          | None \<Rightarrow> start_gate K c (write_end control) (write_end ready) (read_end start) w }"

section \<open>Evidence of containment\<close>

text \<open>A call was made and succeeded.\<close>

definition performed :: "syscall \<Rightarrow> (syscall \<times> reply) list \<Rightarrow> bool" where
  "performed c cs \<longleftrightarrow> (\<exists>r. (c, r) \<in> set cs \<and> ret r = 0)"

definition session_entered :: "(syscall \<times> reply) list \<Rightarrow> bool" where
  "session_entered cs \<longleftrightarrow> (\<exists>r. (Proc Setsid, r) \<in> set cs \<and> 0 \<le> ret r)"

definition limits_set :: "resource_limits \<Rightarrow> (syscall \<times> reply) list \<Rightarrow> bool" where
  "limits_set l cs \<longleftrightarrow>
     (\<forall>resource v. requested_limit l resource = Some v \<longrightarrow>
        performed (Ctl (Setrlimit resource \<lparr>rlim_cur = v, rlim_max = v\<rparr>)) cs)"

definition isolated_evidence :: "network_policy \<Rightarrow> (syscall \<times> reply) list \<Rightarrow> bool" where
  "isolated_evidence policy cs \<longleftrightarrow>
     root_entered cs \<and> (policy \<noteq> Network_allowed \<longrightarrow> performed (Mnt (Unshare CLONE_NEWNET)) cs)"

definition confined :: "child_configuration \<Rightarrow> (syscall \<times> reply) list \<Rightarrow> bool" where
  "confined c cs \<longleftrightarrow>
     performed (Proc (Chdir (working_directory c))) cs \<and> (isolation c \<noteq> None \<longrightarrow> performed (Ctl Capset) cs) \<and>
     limits_set (limits c) cs \<and> performed (Ctl Prctl_set_no_new_privs) cs \<and>
     performed (Ctl (Prctl_set_seccomp (containment_filter (\<not> limits_empty (limits c))))) cs"

definition contained :: "child_configuration \<Rightarrow> (syscall \<times> reply) list \<Rightarrow> bool" where
  "contained c cs \<longleftrightarrow>
     session_entered cs \<and> (isolation c \<noteq> None \<longrightarrow> isolated_evidence (network c) cs) \<and> confined c cs"

text \<open>The start byte was read from the start pipe.\<close>

definition start_received :: "fd \<Rightarrow> (syscall \<times> reply) list \<Rightarrow> bool" where
  "start_received fd cs \<longleftrightarrow> (\<exists>r. (Fd (Read fd 1), r) \<in> set cs \<and> ret r = 1 \<and> read_data r = [1])"

definition child_guard :: "child_configuration \<Rightarrow> fd \<Rightarrow> fd \<Rightarrow> call_guard_pred" where
  "child_guard c ready start pre x \<longleftrightarrow>
     (case fst x of
        Fd (Write fd bs) \<Rightarrow> fd = ready \<longrightarrow> contained c pre
      | Proc (Execveat fd as es) \<Rightarrow> contained c pre \<and> start_received start pre
      | _ \<Rightarrow> True)"

lemma evidence_mono:
  assumes "set cs \<subseteq> set ds"
  shows "performed a cs \<Longrightarrow> performed a ds" "session_entered cs \<Longrightarrow> session_entered ds"
    "root_entered cs \<Longrightarrow> root_entered ds" "start_received fd cs \<Longrightarrow> start_received fd ds"
  using assms unfolding performed_def session_entered_def root_entered_def start_received_def by blast+

lemma contained_mono:
  assumes "set cs \<subseteq> set ds"
  shows "limits_set l cs \<Longrightarrow> limits_set l ds" "isolated_evidence p cs \<Longrightarrow> isolated_evidence p ds"
    "confined c cs \<Longrightarrow> confined c ds" "contained c cs \<Longrightarrow> contained c ds"
  using evidence_mono [OF assms]
  unfolding limits_set_def isolated_evidence_def confined_def contained_def by blast+

text \<open>Calls the guard does not restrict.\<close>

definition setup_call :: "fd \<Rightarrow> syscall \<Rightarrow> bool" where
  "setup_call ready c \<longleftrightarrow> (\<forall>bs. c \<noteq> Fd (Write ready bs)) \<and> (\<forall>fd as es. c \<noteq> Proc (Execveat fd as es))"

lemma setup_call_guard: "setup_call ready (fst x) \<Longrightarrow> child_guard c ready start pre x"
  by (auto simp: setup_call_def child_guard_def split: syscall.split fd_call.split proc_call.split)

lemma setup_call_simps [simp]:
  "setup_call ready (Fd (Dup2 a b))" "setup_call ready (Fd (Close a))" "setup_call ready (Fd (Read a n))"
  "setup_call ready (Fs f)" "setup_call ready (Ctl x)" "setup_call ready (Mnt m)" "setup_call ready (Net k)"
  "setup_call ready (Proc Setsid)" "setup_call ready (Proc (Chdir p))" "setup_call ready (Proc (Umask bits))"
  "setup_call ready (Fd (Close_range lo hi))" "setup_call ready (Fd (Write fd bs)) \<longleftrightarrow> fd \<noteq> ready"
  by (auto simp: setup_call_def)

lemma network_setup_call: "network_call c \<Longrightarrow> setup_call ready c"
  by (cases c) (auto simp: network_call_def)

lemma mount_setup_call: "mount_calls T b c \<Longrightarrow> setup_call ready c"
  by (auto simp: mount_calls_def setup_call_def)

abbreviation sets_up :: "fd \<Rightarrow> 'k world \<Rightarrow> 'k world \<Rightarrow> bool" where
  "sets_up ready \<equiv> only_calls (setup_call ready)"

text \<open>Evidence of a part of a run is evidence of the whole.\<close>

lemma calls_of_part:
  assumes "extends a b" "extends b c" "extends c d"
  shows "set (calls_between b c) \<subseteq> set (calls_between a d)"
  using calls_between_trans [OF assms(1) extends_trans [OF assms(2,3)]] calls_between_trans [OF assms(2,3)] by auto

section \<open>The steps\<close>

lemma enter_session_calls:
  assumes "enter_session K w = (f, w')"
  shows "sets_up ready w w' \<and> (f = None \<longrightarrow> session_entered (calls_between w w'))"
proof -
  obtain r w1 where i: "invoke K (Proc Setsid) w = (r, w1)" by fastforce
  have "sets_up ready w w1" using i by (rule only_calls_invoke) simp
  with assms i calls_between_invoke [OF i] show ?thesis
    by (auto simp: enter_session_def syscall_def session_entered_def split: if_splits)
qed

lemma redirect_calls [makes_intros]:
  "sets_up ready w w0 \<Longrightarrow> makes (setup_call ready) w (redirect K target fd policy w0)"
  unfolding redirect_def Let_def by (intro makes_intros | simp)+

lemma setup_stdin_calls [makes_intros]:
  "sets_up ready w w0 \<Longrightarrow> makes (setup_call ready) w (setup_stdin K policy w0)"
  unfolding setup_stdin_def Let_def by (intro makes_intros | simp)+

lemma setup_streams_calls [makes_intros]:
  "sets_up ready w w0 \<Longrightarrow> makes (setup_call ready) w (setup_streams K c a b w0)"
  unfolding setup_streams_def Let_def by (intro makes_intros | simp)+

lemma create_private_root_only:
  assumes "create_private_root K adm w = (f, w')"
  shows "only_calls (mount_calls UNIV True) w w'"
proof -
  let ?M = "mount_calls UNIV True"
  obtain tree sealed w1 where c: "clone_sealed K (root_source_fd adm) Read_only w = (tree, sealed, w1)" by (metis prod_cases3)
  obtain g trees w2 where r: "realize_bindings K (admitted_bindings adm) [] w1 = (g, trees, w2)" by (metis prod_cases3)
  obtain h w3 where n: "realize_namespace K adm tree trees w2 = (h, w3)" by fastforce
  have o1: "only_calls ?M w w1" using clone_sealed_mounts [OF c] by blast
  have "only_calls ?M w1 w2" using realize_bindings_mounts [OF r] by blast
  with o1 have o2: "only_calls ?M w w2" by (rule only_calls_trans)
  have up: "only_calls (mount_calls T b) x y \<Longrightarrow> only_calls ?M x y" for T b x y
    using mount_calls_mono [of T b x y UNIV True] by simp
  have "only_calls ?M w2 w3" using realize_namespace_mounts [OF n] up only_calls_trans by blast
  with o2 have o3: "only_calls ?M w w3" by (rule only_calls_trans)
  have "w' = reset_fd K tree w1 \<or> w' = reset_fd K tree (close_all K trees w2) \<or> w' = reset_fd K tree (close_all K trees w3)"
    using assms c r n by (auto simp: create_private_root_def mount_failed_def split: if_splits)
  then show ?thesis
    using then_reset [OF o1] then_reset [OF only_calls_trans [OF o2 close_all_mounts]]
      then_reset [OF only_calls_trans [OF o3 close_all_mounts]] by auto
qed

lemma setup_network_policy_unshares:
  assumes "setup_network_policy K policy w = Some (None, w')" "policy \<noteq> Network_allowed"
  shows "performed (Mnt (Unshare CLONE_NEWNET)) (calls_between w w')"
proof -
  obtain r w1 where u: "invoke K (Mnt (Unshare CLONE_NEWNET)) w = (r, w1)" by fastforce
  obtain route w2 where o: "open_route_socket K w1 = (route, w2)" by fastforce
  from assms u o obtain w3 where z: "ret r = 0"
    and c: "configure_links K policy route w2 = Some (None, w3)" and w': "w' = reset_fd K route w3"
    by (auto simp: setup_network_policy_def syscall_def bind_eq_Some_conv split: if_splits)
  have "only_calls network_call w1 w'"
    unfolding w' using only_calls_trans [OF only_calls_trans [OF open_route_socket_only [OF o] configure_links_only [OF c]]
      reset_fd_network] .
  then show ?thesis
    using calls_between_trans [OF invoke_extends [OF u] only_calls_extends] calls_between_invoke [OF u] z
    by (auto simp: performed_def)
qed

lemma isolate_calls:
  assumes "isolate K adm policy w = Some (f, w')"
  shows "sets_up ready w w' \<and> (f = None \<longrightarrow> isolated_evidence policy (calls_between w w'))"
proof -
  obtain g w1 where m: "setup_isolated_filesystem K adm w = (g, w1)" by fastforce
  note m' = m [unfolded setup_isolated_filesystem_def]
  have o1: "sets_up ready w w1"
    using create_private_root_only [OF m'] by (rule only_calls_mono) (rule mount_setup_call)
  have root: "root_entered (calls_between w w1)" if "g = None"
    using create_private_root_mounts [OF m'] that by (auto simp: all_attached_def)
  show ?thesis
  proof (cases g)
    case (Some a)
    with assms m o1 show ?thesis by (auto simp: isolate_def)
  next
    case None
    with assms m obtain h where n: "setup_network_policy K policy w1 = Some (h, w')"
      and f: "f = map_option (\<lambda>g. (Network_isolation, sint (network_error g), network_stage g)) h"
      by (auto simp: isolate_def bind_eq_Some_conv)
    have o2: "sets_up ready w1 w'"
      using setup_network_policy_only [OF n] by (rule only_calls_mono) (rule network_setup_call)
    have cs: "calls_between w w' = calls_between w w1 @ calls_between w1 w'"
      using calls_between_trans [OF only_calls_extends [OF o1] only_calls_extends [OF o2]] .
    have "performed (Mnt (Unshare CLONE_NEWNET)) (calls_between w1 w')" if "h = None" "policy \<noteq> Network_allowed"
      using setup_network_policy_unshares [of K policy w1 w'] n that by simp
    then show ?thesis
      using only_calls_trans [OF o1 o2] root [OF None] f evidence_mono [of "calls_between w w1" "calls_between w w'"]
        evidence_mono [of "calls_between w1 w'" "calls_between w w'"]
      by (auto simp: isolated_evidence_def cs)
  qed
qed

lemma enter_directory_calls:
  assumes "enter_directory K c w = (f, w')"
  shows "sets_up ready w w' \<and> (f = None \<longrightarrow> performed (Proc (Chdir (working_directory c))) (calls_between w w'))"
proof -
  obtain r1 w1 where a: "invoke K (Proc (Umask (file_creation_mask c))) w = (r1, w1)" by fastforce
  obtain r2 w2 where b: "invoke K (Proc (Chdir (working_directory c))) w1 = (r2, w2)" by fastforce
  from assms a b have w': "w' = w2" and f: "f = None \<longrightarrow> ret r2 = 0"
    by (auto simp: enter_directory_def syscall_def split: if_splits)
  have o: "sets_up ready w w1" "sets_up ready w1 w2"
    using only_calls_invoke [OF a] only_calls_invoke [OF b] by simp_all
  then have "calls_between w w2 = [(Proc (Umask (file_creation_mask c)), r1), (Proc (Chdir (working_directory c)), r2)]"
    using calls_between_trans [OF invoke_extends [OF a] invoke_extends [OF b]] calls_between_invoke [OF a]
      calls_between_invoke [OF b] by simp
  with f o w' only_calls_trans show ?thesis by (auto simp: performed_def)
qed

lemma drop_capabilities_calls:
  assumes "drop_capabilities K c w = (f, w')"
  shows "sets_up ready w w' \<and> (f = None \<longrightarrow> isolation c \<noteq> None \<longrightarrow> performed (Ctl Capset) (calls_between w w'))"
proof -
  obtain r1 w1 where a: "invoke K (Ctl Capset) w = (r1, w1)" by fastforce
  obtain r2 w2 where b: "invoke K (Ctl Prctl_cap_ambient_clear) w1 = (r2, w2)" by fastforce
  have o: "sets_up ready w w1" "sets_up ready w1 w2"
    using only_calls_invoke [OF a] only_calls_invoke [OF b] by simp_all
  have cs: "calls_between w w2 = [(Ctl Capset, r1), (Ctl Prctl_cap_ambient_clear, r2)]"
    using calls_between_trans [OF invoke_extends [OF a] invoke_extends [OF b]] calls_between_invoke [OF a]
      calls_between_invoke [OF b] by simp
  from assms a b have "isolation c = None \<and> w' = w \<or> f \<noteq> None \<and> w' = w1 \<or> f \<noteq> None \<and> w' = w2 \<or> w' = w2 \<and> ret r1 = 0"
    by (auto simp: drop_capabilities_def drop_process_capabilities_def syscall_def split: if_splits)
  then show ?thesis using o(1) only_calls_trans [OF o] cs by (auto simp: performed_def)
qed

lemma setup_optional_calls:
  assumes "setup_optional K resource limit stage w = (f, w')"
  shows "sets_up ready w w' \<and> (\<forall>v. f = None \<longrightarrow> limit = Some v \<longrightarrow>
    performed (Ctl (Setrlimit resource \<lparr>rlim_cur = v, rlim_max = v\<rparr>)) (calls_between w w'))"
proof (cases limit)
  case None
  with assms show ?thesis by (simp add: setup_optional_def)
next
  case (Some v)
  with assms have "setup_one K resource v stage w = (f, w')" by (simp add: setup_optional_def)
  then show ?thesis
    by (cases rule: setup_one_cases) (auto simp: Some performed_def only_calls_def limit_failure_def)
qed

lemma setup_resource_limits_calls:
  assumes "setup_resource_limits K l w = (f, w')"
  shows "sets_up ready w w' \<and> (f = None \<longrightarrow> limits_set l (calls_between w w'))"
  using assms
proof (cases rule: setup_resource_limits_steps)
  case (1 f1 w1 f2 w2)
  note a = setup_optional_calls [OF 1(1), of ready] and b = setup_optional_calls [OF 1(2), of ready]
  from a b have o1: "sets_up ready w w1" and o2: "sets_up ready w1 w2" by blast+
  note o12 = only_calls_trans [OF o1 o2]
  from 1(3) consider "f \<noteq> None" "w' = w1 \<or> w' = w2" | "f1 = None" "f2 = None"
    "setup_optional K RLIMIT_NOFILE (open_files l) Stage_open_files w2 = (f, w')" by auto
  then show ?thesis
  proof cases
    case 1
    then show ?thesis using o1 o12 by auto
  next
    case 2
    note c = setup_optional_calls [OF 2(3), of ready]
    then have o3: "sets_up ready w2 w'" by blast
    note e = only_calls_extends [OF o1] only_calls_extends [OF o2] only_calls_extends [OF o3]
    have sub: "set (calls_between w w1) \<subseteq> set (calls_between w w')" "set (calls_between w1 w2) \<subseteq> set (calls_between w w')"
      "set (calls_between w2 w') \<subseteq> set (calls_between w w')"
      using calls_of_part [OF extends_refl e(1) extends_trans [OF e(2,3)]] calls_of_part [OF e(1,2,3)]
        calls_of_part [OF extends_trans [OF e(1,2)] e(3) extends_refl] by blast+
    have "limits_set l (calls_between w w')" if "f = None"
      unfolding limits_set_def
    proof (intro allI impI)
      fix resource v assume q: "requested_limit l resource = Some v"
      show "performed (Ctl (Setrlimit resource \<lparr>rlim_cur = v, rlim_max = v\<rparr>)) (calls_between w w')"
        using a b c 2 that q evidence_mono(1) [OF sub(1)] evidence_mono(1) [OF sub(2)] evidence_mono(1) [OF sub(3)]
        by (cases resource) (simp_all add: requested_limit_def)
    qed
    then show ?thesis using only_calls_trans [OF o12 o3] by blast
  qed
qed

lemma contain_calls:
  assumes "contain K supported c w = (f, w')"
  shows "sets_up ready w w' \<and> (f = None \<longrightarrow> performed (Ctl Prctl_set_no_new_privs) (calls_between w w') \<and>
    performed (Ctl (Prctl_set_seccomp (containment_filter (\<not> limits_empty (limits c))))) (calls_between w w'))"
proof -
  let ?set = "Ctl (Prctl_set_seccomp (containment_filter (\<not> limits_empty (limits c))))"
  obtain r1 w1 where a: "invoke K (Ctl Prctl_set_no_new_privs) w = (r1, w1)" by fastforce
  obtain r2 w2 where b: "invoke K ?set w1 = (r2, w2)" by fastforce
  have o: "sets_up ready w w1" "sets_up ready w1 w2"
    using only_calls_invoke [OF a] only_calls_invoke [OF b] by simp_all
  have cs: "calls_between w w2 = [(Ctl Prctl_set_no_new_privs, r1), (?set, r2)]"
    using calls_between_trans [OF invoke_extends [OF a] invoke_extends [OF b]] calls_between_invoke [OF a]
      calls_between_invoke [OF b] by simp
  from assms a b have "f \<noteq> None \<and> w' \<in> {w, w1, w2} \<or> w' = w2 \<and> ret r1 = 0 \<and> ret r2 = 0"
    by (auto simp: contain_def install_process_group_containment_def syscall_def split: if_splits)
  then show ?thesis using o(1) only_calls_trans [OF o] cs by (auto simp: performed_def)
qed

lemma confine_calls:
  assumes "confine K supported c w = (f, w')"
  shows "sets_up ready w w' \<and> (f = None \<longrightarrow> confined c (calls_between w w'))"
proof -
  obtain f1 w1 where s1: "enter_directory K c w = (f1, w1)" by fastforce
  obtain f2 w2 where s2: "drop_capabilities K c w1 = (f2, w2)" by fastforce
  obtain f3 w3 where s3: "setup_resource_limits K (limits c) w2 = (f3, w3)" by fastforce
  obtain f4 w4 where s4: "contain K supported c w3 = (f4, w4)" by fastforce
  note c1 = enter_directory_calls [OF s1, of ready] and c2 = drop_capabilities_calls [OF s2, of ready]
    and c3 = setup_resource_limits_calls [OF s3, of ready] and c4 = contain_calls [OF s4, of ready]
  then have o1: "sets_up ready w w1" and o2: "sets_up ready w1 w2" and o3: "sets_up ready w2 w3" and o4: "sets_up ready w3 w4"
    by blast+
  note o12 = only_calls_trans [OF o1 o2]
  note o13 = only_calls_trans [OF o12 o3]
  note o14 = only_calls_trans [OF o13 o4]
  note e = only_calls_extends [OF o1] only_calls_extends [OF o2] only_calls_extends [OF o3] only_calls_extends [OF o4]
  have sub: "set (calls_between w w1) \<subseteq> set (calls_between w w4)" "set (calls_between w1 w2) \<subseteq> set (calls_between w w4)"
    "set (calls_between w2 w3) \<subseteq> set (calls_between w w4)" "set (calls_between w3 w4) \<subseteq> set (calls_between w w4)"
    using calls_of_part [OF extends_refl e(1) extends_trans [OF e(2) extends_trans [OF e(3,4)]]]
      calls_of_part [OF e(1,2) extends_trans [OF e(3,4)]] calls_of_part [OF extends_trans [OF e(1,2)] e(3,4)]
      calls_of_part [OF extends_trans [OF extends_trans [OF e(1,2)] e(3)] e(4) extends_refl] by blast+
  have "f \<noteq> None \<and> w' \<in> {w1, w2, w3, w4} \<or> f = None \<and> w' = w4 \<and> f1 = None \<and> f2 = None \<and> f3 = None \<and> f4 = None"
    using assms s1 s2 s3 s4 by (auto simp: confine_def install_limits_def simp del: not_None_eq split: if_splits)
  moreover have "confined c (calls_between w w4)" if "f1 = None" "f2 = None" "f3 = None" "f4 = None"
    unfolding confined_def
    using c1 c2 c3 c4 that evidence_mono(1) [OF sub(1)] evidence_mono(1) [OF sub(2)] contained_mono(1) [OF sub(3)]
      evidence_mono(1) [OF sub(4)] by blast
  ultimately show ?thesis using o1 o12 o13 o14 by auto
qed

lemma child_setup_calls:
  assumes "child_setup K supported c a b w = Some (f, w')"
  shows "sets_up ready w w' \<and> (f = None \<longrightarrow> contained c (calls_between w w'))"
proof -
  obtain f1 w1 where s1: "enter_session K w = (f1, w1)" by fastforce
  obtain f2 w2 where s2: "setup_streams K c a b w1 = (f2, w2)" by fastforce
  note c1 = enter_session_calls [OF s1, of ready] and o2 = makes_only [OF setup_streams_calls [OF only_calls_refl] s2, of ready]
  then have o1: "sets_up ready w w1" by blast
  note o12 = only_calls_trans [OF o1 o2]
  show ?thesis
  proof (cases "f1 = None \<and> f2 = None")
    case False
    with assms s1 s2 have "f \<noteq> None" "w' = w1 \<or> w' = w2" by (auto simp: child_setup_def split: if_splits)
    with o1 o12 show ?thesis by auto
  next
    case True
    let ?iso = "case isolation c of None \<Rightarrow> Some (None, w2) | Some adm \<Rightarrow> isolate K adm (network c) w2"
    from True assms s1 s2 obtain f3 w3 where s3: "?iso = Some (f3, w3)"
      and rest: "f3 \<noteq> None \<and> f = f3 \<and> w' = w3 \<or> f3 = None \<and> confine K supported c w3 = (f, w')"
      by (auto simp: child_setup_def bind_eq_Some_conv simp del: not_None_eq split: if_splits)
    have c3: "sets_up ready w2 w3 \<and> (f3 = None \<longrightarrow> isolation c \<noteq> None \<longrightarrow> isolated_evidence (network c) (calls_between w2 w3))"
    proof (cases "isolation c")
      case (Some adm)
      with s3 have "isolate K adm (network c) w2 = Some (f3, w3)" by simp
      from isolate_calls [OF this, of ready] show ?thesis by blast
    qed (use s3 in simp)
    then have o3: "sets_up ready w2 w3" by blast
    note o13 = only_calls_trans [OF o12 o3]
    from rest show ?thesis
    proof (elim disjE conjE)
      assume "f3 \<noteq> None" "f = f3" "w' = w3"
      with o13 show ?thesis by auto
    next
      assume n: "f3 = None" and s4: "confine K supported c w3 = (f, w')"
      from confine_calls [OF s4, of ready] have o4: "sets_up ready w3 w'"
        and c4: "f = None \<longrightarrow> confined c (calls_between w3 w')" by blast+
      note e = only_calls_extends [OF o1] only_calls_extends [OF o2] only_calls_extends [OF o3] only_calls_extends [OF o4]
      have sub: "set (calls_between w w1) \<subseteq> set (calls_between w w')" "set (calls_between w2 w3) \<subseteq> set (calls_between w w')"
        "set (calls_between w3 w') \<subseteq> set (calls_between w w')"
        using calls_of_part [OF extends_refl e(1) extends_trans [OF e(2) extends_trans [OF e(3,4)]]]
          calls_of_part [OF extends_trans [OF e(1,2)] e(3,4)]
          calls_of_part [OF extends_trans [OF extends_trans [OF e(1,2)] e(3)] e(4) extends_refl] by blast+
      have "contained c (calls_between w w')" if "f = None"
        unfolding contained_def
        using c1 True c3 n c4 that evidence_mono(2) [OF sub(1)] contained_mono(2) [OF sub(2)] contained_mono(3) [OF sub(3)]
        by blast
      then show ?thesis using only_calls_trans [OF o13 o4] by blast
    qed
  qed
qed

section \<open>The start gate\<close>

lemma close_each_only: "(\<And>fd. P (Fd (Close fd))) \<Longrightarrow> only_calls P w (close_each K a b fds w)"
proof (induction fds arbitrary: w)
  case (Cons fd fds)
  obtain n w1 where s: "syscall K (Fd (Close fd)) w = (n, w1)" by fastforce
  have "only_calls P w w1" using s Cons.prems by (rule only_calls_syscall)
  with Cons s show ?case by (auto intro: only_calls_trans)
qed simp

lemma close_range_if_only:
  "close_range_if K e lo hi (c, w) = (c', w') \<Longrightarrow> (\<And>x y. P (Fd (Close_range x y))) \<Longrightarrow> only_calls P w w'"
  by (auto simp: close_range_if_def split: if_splits prod.splits intro: only_calls_syscall)

lemma close_fds_except_only: "sets_up ready w (close_fds_except K a b w)"
proof -
  obtain x y where xy: "(if b < a then (b, a) else (a, b)) = (x, y)" by fastforce
  obtain c1 w1 where s1: "close_range_if K (x > 3) 3 (x - 1) (True, w) = (c1, w1)" by fastforce
  obtain c2 w2 where s2: "close_range_if K (y > x + 1) (x + 1) (y - 1) (c1, w1) = (c2, w2)" by fastforce
  obtain c3 w3 where s3: "close_range_if K True (y + 1) UINT_MAX (c2, w2) = (c3, w3)" by fastforce
  obtain m w4 where s4: "syscall K (Ctl Sysconf_open_max) w3 = (m, w4)" by fastforce
  have o: "sets_up ready w w1" "sets_up ready w1 w2" "sets_up ready w2 w3" "sets_up ready w3 w4"
    using close_range_if_only [OF s1] close_range_if_only [OF s2] close_range_if_only [OF s3] only_calls_syscall [OF s4] by auto
  note o3 = only_calls_trans [OF only_calls_trans [OF o(1,2)] o(3)]
  have "sets_up ready w4 (close_each K x y [3..fallback_bound m - 1] w4)" by (rule close_each_only) simp
  with o3 only_calls_trans [OF only_calls_trans [OF o3 o(4)]] show ?thesis
    unfolding close_fds_except_def xy using s1 s2 s3 s4 by (simp add: Let_def)
qed

lemma report_child_error_only:
  "report_child_error K fd stage e d w = Some w' \<Longrightarrow> fd \<noteq> ready \<Longrightarrow> sets_up ready w w'"
  unfolding report_child_error_def by (drule write_record_only) (auto elim: only_calls_mono)

text \<open>
  What \<open>start_gate\<close> does: the ready byte, the start byte, and after it the program or a report. A
  program is executed only with the start byte read.
\<close>

definition gate_call :: "child_configuration \<Rightarrow> fd \<Rightarrow> syscall \<Rightarrow> bool" where
  "gate_call c ready x \<longleftrightarrow> setup_call ready x \<or> x = Fd (Write ready [1])"

definition program_call :: "child_configuration \<Rightarrow> fd \<Rightarrow> syscall \<Rightarrow> bool" where
  "program_call c ready x \<longleftrightarrow> setup_call ready x \<or> x = Proc (Execveat (interpreter_fd c) (arguments c) (environment c))"

lemma run_program_calls:
  assumes "run_program K c ctl w = Some (e, w')" "ctl \<noteq> ready"
  shows "only_calls (program_call c ready) w w' \<and>
    (case e of Program_started \<Rightarrow> (\<exists>cs r. calls_between w w' = cs @ [(Proc (Execveat (interpreter_fd c) (arguments c) (environment c)), r)] \<and> 0 \<le> ret r)
     | Child_exit code \<Rightarrow> code = 127)"
proof -
  let ?exec = "Proc (Execveat (interpreter_fd c) (arguments c) (environment c))"
  let ?w1 = "close_fds_except K ctl (interpreter_fd c) w"
  obtain r w2 where i: "invoke K ?exec ?w1 = (r, w2)" by fastforce
  have up: "sets_up ready a b \<Longrightarrow> only_calls (program_call c ready) a b" for a b :: "'a world"
    by (erule only_calls_mono) (simp add: program_call_def)
  have o1: "only_calls (program_call c ready) w ?w1" by (rule up [OF close_fds_except_only])
  have "only_calls (program_call c ready) ?w1 w2" using i by (rule only_calls_invoke) (simp add: program_call_def)
  with o1 have o2: "only_calls (program_call c ready) w w2" by (rule only_calls_trans)
  have cs: "calls_between w w2 = calls_between w ?w1 @ [(?exec, r)]"
    using calls_between_trans [OF only_calls_extends [OF o1] invoke_extends [OF i]] calls_between_invoke [OF i] by simp
  from assms(1) i consider "e = Program_started" "w' = w2" "0 \<le> ret r"
    | "e = Child_exit 127" "report_child_error K ctl Execute (errno w2) 0 w2 = Some w'"
    by (auto simp: run_program_def syscall_def bind_eq_Some_conv split: if_splits)
  then show ?thesis
  proof cases
    case 1
    with o2 cs show ?thesis by auto
  next
    case 2
    with only_calls_trans [OF o2 up [OF report_child_error_only [OF 2(2) assms(2)]]] show ?thesis by simp
  qed
qed

lemma start_gate_calls:
  assumes "start_gate K c ctl ready start w = Some (e, w')" "ctl \<noteq> ready"
  shows "only_calls (gate_call c ready) w w' \<and> e = Child_exit 125 \<or>
    (\<exists>w2. only_calls (gate_call c ready) w w2 \<and> start_received start (calls_between w w2) \<and>
       run_program K c ctl w2 = Some (e, w'))"
proof -
  let ?G = "gate_call c ready"
  from assms(1) obtain r w1 where a: "retry_eintr K (Fd (Write ready [1])) w = Some (r, w1)"
    by (auto simp: start_gate_def bind_eq_Some_conv)
  have up: "sets_up ready a b \<Longrightarrow> only_calls ?G a b" for a b :: "'a world"
    by (erule only_calls_mono) (simp add: gate_call_def)
  have "only_calls ?G w w1" using a by (rule retry_eintr_only) (simp add: gate_call_def)
  then have o1: "only_calls ?G w (reset_fd K ready w1)" by (rule only_calls_trans [OF _ up [OF reset_fd_only]]) simp
  show ?thesis
  proof (cases "ret r = 1")
    case False
    with assms(1) a o1 show ?thesis by (simp add: start_gate_def)
  next
    case True
    with assms(1) a obtain q w2 where b: "retry_eintr K (Fd (Read start 1)) (reset_fd K ready w1) = Some (q, w2)"
      by (auto simp: start_gate_def bind_eq_Some_conv)
    have s2: "sets_up ready (reset_fd K ready w1) w2" using b by (rule retry_eintr_only) simp
    have s3: "sets_up ready w2 (reset_fd K start w2)" by (rule reset_fd_only) simp
    have o3: "only_calls ?G w (reset_fd K start w2)" using only_calls_trans [OF only_calls_trans [OF o1 up [OF s2]] up [OF s3]] .
    show ?thesis
    proof (cases "ret q = 1 \<and> read_data q = [1]")
      case False
      with True assms(1) a b o3 show ?thesis by (auto simp: start_gate_def)
    next
      case r2: True
      from retry_eintr_calls [OF b] have "(Fd (Read start 1), q) \<in> set (calls_between (reset_fd K ready w1) w2)" by auto
      then have "(Fd (Read start 1), q) \<in> set (calls_between w (reset_fd K start w2))"
        using calls_of_part [OF only_calls_extends [OF o1] only_calls_extends [OF s2] only_calls_extends [OF s3]] by blast
      with r2 have "start_received start (calls_between w (reset_fd K start w2))" by (auto simp: start_received_def)
      moreover have "run_program K c ctl (reset_fd K start w2) = Some (e, w')"
        using True r2 assms(1) a b by (simp add: start_gate_def)
      ultimately show ?thesis using o3 by blast
    qed
  qed
qed

section \<open>Program and containment\<close>

lemma gate_call_guard: "gate_call c ready (fst x) \<Longrightarrow> contained c pre \<Longrightarrow> child_guard c ready start (pre @ us) x"
  using setup_call_guard contained_mono(4) [of pre "pre @ us" c] by (auto simp: gate_call_def child_guard_def)

lemma program_call_guard:
  "program_call c ready (fst x) \<Longrightarrow> contained c pre \<Longrightarrow> start_received start pre \<Longrightarrow> child_guard c ready start (pre @ us) x"
  using setup_call_guard contained_mono(4) [of pre "pre @ us" c] evidence_mono(4) [of pre "pre @ us" start]
  by (auto simp: program_call_def child_guard_def)

lemma child_guard_mono:
  assumes "child_guard c ready start pre x" "set pre \<subseteq> set ds"
  shows "child_guard c ready start ds x"
  using assms(1) contained_mono(4) [OF assms(2)] evidence_mono(4) [OF assms(2)] unfolding child_guard_def
  by (cases "fst x") (auto split: fd_call.splits proc_call.splits)

interpretation child_calls: call_guard "child_guard c ready start" for c ready start
  by unfold_locales (erule child_guard_mono, simp)

lemma quiet_setup_guarded: "sets_up ready w w' \<Longrightarrow> guarded (child_guard c ready start) (calls_between w w')"
  by (rule child_calls.guarded_all) (metis only_calls_member prod.collapse setup_call_guard)

definition ended_well :: "child_configuration \<Rightarrow> fd \<Rightarrow> child_end \<Rightarrow> (syscall \<times> reply) list \<Rightarrow> bool" where
  "ended_well c start e cs \<longleftrightarrow>
     (case e of
        Program_started \<Rightarrow> contained c cs \<and> start_received start cs \<and>
          (\<exists>r. last cs = (Proc (Execveat (interpreter_fd c) (arguments c) (environment c)), r) \<and> 0 \<le> ret r)
      | Child_exit code \<Rightarrow> code \<in> {125, 127})"

lemma start_gate_contained:
  assumes g: "start_gate K c ctl ready start v = Some (e, w')" "ctl \<noteq> ready"
    and s: "sets_up ready w v" and k: "contained c (calls_between w v)"
  shows "guarded (child_guard c ready start) (calls_between w w') \<and> ended_well c start e (calls_between w w')"
proof -
  let ?P = "child_guard c ready start"
  note e0 = only_calls_extends [OF s] and g0 = quiet_setup_guarded [OF s, of c start]
  have phase: "guarded ?P (calls_between w u)" if o: "only_calls (gate_call c ready) v u" for u
    unfolding calls_between_trans [OF e0 only_calls_extends [OF o]]
    by (rule guarded_extend [OF g0]) (metis gate_call_guard k o only_calls_member prod.collapse)
  from start_gate_calls [OF g] show ?thesis
  proof (elim disjE exE conjE)
    assume "only_calls (gate_call c ready) v w'" "e = Child_exit 125"
    with phase show ?thesis by (simp add: ended_well_def)
  next
    fix u assume o: "only_calls (gate_call c ready) v u" and sr: "start_received start (calls_between v u)"
      and r: "run_program K c ctl u = Some (e, w')"
    from run_program_calls [OF r g(2)] have p: "only_calls (program_call c ready) u w'" by blast
    note e1 = only_calls_extends [OF o] and e2 = only_calls_extends [OF p]
    have cs: "calls_between w w' = calls_between w u @ calls_between u w'" and
      cu: "calls_between w u = calls_between w v @ calls_between v u"
      using calls_between_trans [OF extends_trans [OF e0 e1] e2] calls_between_trans [OF e0 e1] by simp_all
    have ku: "contained c (calls_between w u)" and su: "start_received start (calls_between w u)"
      using contained_mono(4) [OF _ k] evidence_mono(4) [OF _ sr] by (simp_all add: cu)
    have "guarded ?P (calls_between w w')"
      unfolding cs by (rule guarded_extend [OF phase [OF o]])
        (metis program_call_guard ku su p only_calls_member prod.collapse)
    moreover have "contained c (calls_between w w')" "start_received start (calls_between w w')"
      using contained_mono(4) [OF _ ku] evidence_mono(4) [OF _ su] by (simp_all add: cs)
    ultimately show ?thesis
      using run_program_calls [OF r g(2)] by (cases e) (auto simp: ended_well_def cs)
  qed
qed


section \<open>A concrete child\<close>

definition sample_child :: child_configuration where
  "sample_child = \<lparr>stdin_policy_of = Stdin_null_device, stdout_policy = Capture_complete, stderr_policy = Discard,
     file_creation_mask = 18, working_directory = ''/build'', isolation = None, network = Network_allowed,
     limits = \<lparr>cpu_time_milliseconds = None, address_space_bytes = None, file_size_bytes = Some 4096, open_files = None,
       process_count = None\<rparr>,
     interpreter_fd = 4, arguments = [''/bin/sh'', ''-c'', ''make'', ''pkgexec''], environment = [''TZ=UTC'']\<rparr>"

definition child_script :: "reply list" where
  "child_script =
     [num_reply 77, num_reply 9, ok_reply, ok_reply, num_reply 1, num_reply 9, num_reply 2, ok_reply, num_reply 18, ok_reply,
      data_reply 0 (Rlimit_data \<lparr>rlim_cur = RLIM_INFINITY, rlim_max = RLIM_INFINITY\<rparr>), ok_reply,
      data_reply 0 (Rlimit_data \<lparr>rlim_cur = 4096, rlim_max = 4096\<rparr>), ok_reply, ok_reply,
      err_reply EINTR, num_reply 1, ok_reply, data_reply 1 (Bytes_data [1]), ok_reply]"

lemmas child_run_simps = child_main_def child_setup_def enter_session_def setup_streams_def setup_stdin_def redirect_def
  confine_def enter_directory_def drop_capabilities_def install_limits_def setup_resource_limits_def setup_optional_def
  setup_one_def exact_value_def getrlimit_def setrlimit_def contain_def install_process_group_containment_def
  start_gate_def run_program_def close_fds_except_def close_range_if_def retry_eintr.simps reset_fd_def read_data_def reply_bytes_def
  EINTR_def

lemma child_run:
  "\<exists>w'. child_main scripted True sample_child \<lparr>read_end = 10, write_end = 11\<rparr> \<lparr>read_end = 12, write_end = 13\<rparr>
     \<lparr>read_end = 14, write_end = 15\<rparr> \<lparr>read_end = 16, write_end = 17\<rparr> \<lparr>read_end = 18, write_end = 19\<rparr>
     (start_world child_script) = Some (Program_started, w')"
  by (simp add: child_run_simps sample_child_def child_script_def RLIM_INFINITY_def scripted_simps cong: run_congs)


end
