(* ===== verification/Backend.thy ===== *)
theory Backend
  imports Child
begin

text \<open>
  The execution itself, \<open>execute_backend\<close> in \<open>src/backend.cpp\<close>: shape of the request, admission of
  resources and interpreter, pipes, \<open>fork\<close>, and then the child (theory \<open>Child\<close>) in one process
  and supervision and classification (theories \<open>Supervisor\<close> and \<open>Outcome\<close>) in the other. Objects
  that own descriptors or the scratch directory are released where the source leaves their scope.
\<close>

section \<open>Requests\<close>

text \<open>What the source reads of the request, the resources and libraries that are not in the repository.\<close>

record environment_policy =
  executable_search_path :: "string list"
  home_directory :: string
  temporary_directory :: string
  parallelism :: int
  source_date_epoch :: "int option"
  additional_variables :: "(string \<times> string) list"
  creation_mask :: u32
  network_of :: network_policy
  input_policy :: stdin_policy
  output_policy :: stream_policy
  error_policy :: stream_policy

record credentials =
  no_new_privileges :: bool
  user_id :: u64
  group_id :: u64
  supplementary_groups :: "u64 list"

record 'i execution_request =
  request_environment :: environment_policy
  request_credentials :: credentials
  request_bindings :: "resource_binding list"
  working_binding :: resource_binding
  request_interpreter :: 'i
  program_material :: string
  request_limits :: resource_limits
  grace_period :: u64
  request_guarantees :: guarantees

record execution_resources =
  root_view_path :: path
  materialization :: "string \<Rightarrow> path"

text \<open>
  libpkgexec's \<open>profile.supports(request)\<close>, values and names of guarantees and identities, OpenSSL, and
  \<open>strerror\<close>; \<open>supported\<close> is the compile-time test of the architecture.
\<close>

record ('c, 'i) runtime =
  strerror :: "int \<Rightarrow> string"
  digests :: "'c evp"
  from_sha256 :: "string \<Rightarrow> 'i"
  supports :: "guarantees \<Rightarrow> 'i execution_request \<Rightarrow> bool"
  guarantee_rank :: "execution_guarantee \<Rightarrow> nat"
  guarantee_name :: "execution_guarantee \<Rightarrow> string"
  supported :: bool

section \<open>Environment and arguments\<close>

fun join_path :: "string list \<Rightarrow> string \<Rightarrow> string" where
  "join_path [] result = result"
| "join_path (v # vs) result = join_path vs ((if result \<noteq> [] then result @ '':'' else result) @ v)"

definition make_environment :: "environment_policy \<Rightarrow> string list" where
  "make_environment p =
     [''PATH='' @ join_path (executable_search_path p) [], ''HOME='' @ home_directory p, ''LANG=C.UTF-8'', ''LC_ALL=C.UTF-8'',
      ''TZ=UTC'', ''TMPDIR='' @ temporary_directory p, ''PKGEXEC_JOBS='' @ show_int (parallelism p)] @
     (case source_date_epoch p of None \<Rightarrow> [] | Some e \<Rightarrow> [''SOURCE_DATE_EPOCH='' @ show_int e]) @
     map (\<lambda>(name, v). name @ ''='' @ v) (additional_variables p)"

section \<open>The shape of a request\<close>

definition own_credentials ::
  "(int \<Rightarrow> string) \<Rightarrow> 'k kernel \<Rightarrow> credentials \<Rightarrow> 'k world \<Rightarrow> (error + bool) \<times> 'k world" where
  "own_credentials errstr K c w =
     (let (uid, w) = syscall K (Proc Getuid) w in
      if user_id c \<noteq> word_of_int uid then (Inr False, w)
      else let (gid, w) = syscall K (Proc Getgid) w in
        if group_id c \<noteq> word_of_int gid then (Inr False, w)
        else let (gs, w) = current_groups errstr K w
             in (bind_result gs (\<lambda>gs. Inr (supplementary_groups c = gs)), w))"

text \<open>A message, or the empty string for an acceptable binding.\<close>

definition host_binding_error :: "'k kernel \<Rightarrow> execution_resources \<Rightarrow> resource_binding \<Rightarrow> 'k world \<Rightarrow> string \<times> 'k world" where
  "host_binding_error K R b w =
     (if binding_access b \<noteq> Writable then (''host supervisor does not realize read-only resources'', w)
      else let host = materialization R (binding_resource b) in
        if \<not> is_absolute host \<or> \<not> path_eq (lexically_normal host) (lexically_normal (mount_point b))
        then (''resource is not already present at its logical path'', w)
        else let (link, w) = path_has_symlink_component K host w in
          if link then (''resource path contains a symlink component'', w)
          else let (r, w) = invoke K (Fs (Stat host)) w in
            if ret r \<noteq> 0 \<or> st_kind (reply_stat r) \<noteq> S_IFDIR then (''resource path is not an existing directory'', w)
            else let (n, w) = syscall K (Fs (Access host [W_OK, X_OK])) w in
              if n \<noteq> 0 then (''resource path is not writable by the requested credentials'', w) else ([], w))"

fun host_bindings_error ::
  "'k kernel \<Rightarrow> execution_resources \<Rightarrow> resource_binding list \<Rightarrow> 'k world \<Rightarrow> string \<times> 'k world" where
  "host_bindings_error K R [] w = ([], w)"
| "host_bindings_error K R (b # bs) w =
     (let (m, w) = host_binding_error K R b w in if m \<noteq> [] then (m, w) else host_bindings_error K R bs w)"

definition validate_host_request_shape ::
  "(int \<Rightarrow> string) \<Rightarrow> 'k kernel \<Rightarrow> 'i execution_request \<Rightarrow> execution_resources \<Rightarrow> 'k world \<Rightarrow> (error + string) \<times> 'k world" where
  "validate_host_request_shape errstr K q R w =
     (if \<not> path_eq (root_view_path R) ''/'' then (Inr ''host supervisor admits only the current / root view'', w)
      else if network_of (request_environment q) \<noteq> Network_allowed
      then (Inr ''host supervisor does not isolate networking'', w)
      else if \<not> no_new_privileges (request_credentials q)
      then (Inr ''host supervisor requires no-new-privileges containment'', w)
      else let (own, w) = own_credentials errstr K (request_credentials q) w in
        case own of
          Inl e \<Rightarrow> (Inl e, w)
        | Inr own \<Rightarrow>
            if \<not> own then (Inr ''host supervisor admits only its current credentials'', w)
            else let (m, w) = host_bindings_error K R (request_bindings q) w in
              if m \<noteq> [] then (Inr m, w)
              else let (n, w) = syscall K (Fs (Access (materialization R (binding_resource (working_binding q))) [X_OK])) w in
                if n \<noteq> 0 then (Inr ''working directory is not searchable'', w) else (Inr [], w))"

definition validate_isolated_request_shape ::
  "(int \<Rightarrow> string) \<Rightarrow> 'k kernel \<Rightarrow> 'i execution_request \<Rightarrow> 'k world \<Rightarrow> (error + string) \<times> 'k world" where
  "validate_isolated_request_shape errstr K q w =
     (if \<not> no_new_privileges (request_credentials q)
      then (Inr ''isolated filesystem backend requires no-new-privileges containment'', w)
      else let (own, w) = own_credentials errstr K (request_credentials q) w
           in (bind_result own (\<lambda>own. Inr (if own then []
                 else ''isolated filesystem backend admits only its current credentials'')), w))"

section \<open>Admission\<close>

text \<open>An early return is \<open>Inl\<close>.\<close>

definition failed :: "execution_failure_kind \<Rightarrow> string \<Rightarrow> 'i execution_result" where
  "failed kind m = Failed_before_start kind [] m"

definition admit_request ::
  "('c, 'i) runtime \<Rightarrow> 'k kernel \<Rightarrow> 'i execution_request \<Rightarrow> execution_resources \<Rightarrow> bool \<Rightarrow> 'k world \<Rightarrow>
   (('i execution_result + isolated_admission option) \<times> 'k world) option" where
  "admit_request L K q R isolated w =
     (let (shape, w) = (if isolated then validate_isolated_request_shape (strerror L) K q w
                        else validate_host_request_shape (strerror L) K q R w) in
      case shape of
        Inl e \<Rightarrow> Some (Inl (failed Resource_admission_failed (what e)), w)
      | Inr m \<Rightarrow>
          if m \<noteq> [] then Some (Inl (failed Request_rejected m), w)
          else if \<not> isolated then Some (Inr None, w)
          else do { (x, w) \<leftarrow> admit_isolated_resources (strerror L) K (materialization R) (root_view_path R) (request_bindings q) w;
                    Some (case x of Inl e \<Rightarrow> Inl (failed Resource_admission_failed (what e)) | Inr adm \<Rightarrow> Inr (Some adm), w) })"

definition release_isolation :: "'k kernel \<Rightarrow> isolated_admission option \<Rightarrow> 'k world \<Rightarrow> 'k world" where
  "release_isolation K housing w = (case housing of None \<Rightarrow> w | Some adm \<Rightarrow> release_admission K adm w)"

definition unavailable :: "string \<Rightarrow> 'i execution_result" where
  "unavailable m = failed Interpreter_unavailable m"

text \<open>
  The opened interpreter must be a regular file whose digest is the admitted one and gives the
  admitted identity; the identity is computed only when the digests agree.
\<close>

definition interpreter_mismatch ::
  "('c, 'i) runtime \<Rightarrow> 'i interpreter_binding \<Rightarrow> string \<Rightarrow> error + bool" where
  "interpreter_mismatch L b observed =
     (if observed \<noteq> content_digest b then Inr True
      else bind_result (interpreter_identity (digests L) (from_sha256 L) observed) (\<lambda>i. Inr (i \<noteq> identity b)))"

definition interpreter_refusal :: "('c, 'i) runtime \<Rightarrow> 'i interpreter_binding \<Rightarrow> error + string \<Rightarrow> 'i execution_result option" where
  "interpreter_refusal L b x =
     (case bind_result x (interpreter_mismatch L b) of
        Inl e \<Rightarrow> Some (unavailable (what e))
      | Inr changed \<Rightarrow> if changed then Some (unavailable ''interpreter bytes changed after admission'') else None)"

definition verify_interpreter ::
  "('c, 'i) runtime \<Rightarrow> 'k kernel \<Rightarrow> 'i interpreter_binding \<Rightarrow> fd \<Rightarrow> 'k world \<Rightarrow>
   ('i execution_result option \<times> 'k world) option" where
  "verify_interpreter L K b fd w =
     (let (r, w) = invoke K (Fs (Fstat fd)) w in
      if ret r \<noteq> 0 \<or> st_kind (reply_stat r) \<noteq> S_IFREG
      then Some (Some (unavailable ''interpreter descriptor is not a regular file''), w)
      else do { (x, w) \<leftarrow> digest_fd (strerror L) (digests L) K fd w;
                Some (interpreter_refusal L b x, w) })"

definition admit_interpreter ::
  "('c, 'i :: linorder) runtime \<Rightarrow> 'k kernel \<Rightarrow> 'i interpreter_binding list \<Rightarrow> 'i \<Rightarrow> 'k world \<Rightarrow>
   (('i execution_result + 'i interpreter_binding \<times> fd) \<times> 'k world) option" where
  "admit_interpreter L K bindings wanted w =
     (case find_interpreter bindings wanted of
        None \<Rightarrow> Some (Inl (unavailable ''no exact interpreter binding matches the request''), w)
      | Some b \<Rightarrow>
          let (fd, w) = syscall K (Fs (Open (executable b) open_interpreter_flags)) w in
          if fd < 0 then Some (Inl (unavailable (errno_message (strerror L) ''open interpreter'' (errno w))), w)
          else do { (refused, w) \<leftarrow> verify_interpreter L K b fd w;
                    Some (case refused of None \<Rightarrow> (Inr (b, fd), w) | Some x \<Rightarrow> (Inl x, reset_fd K fd w)) })"

section \<open>Pipes\<close>

definition make_pipe :: "(int \<Rightarrow> string) \<Rightarrow> 'k kernel \<Rightarrow> 'k world \<Rightarrow> (error + pipe_pair) \<times> 'k world" where
  "make_pipe errstr K w =
     (let (r, w) = invoke K (Fd Pipe2) w in
      if ret r \<noteq> 0 then (Inl (Error Invalid_value (errno_message errstr ''pipe2'' (errno w))), w)
      else (Inr (case out r of Fd_pair a b \<Rightarrow> \<lparr>read_end = a, write_end = b\<rparr> | _ \<Rightarrow> \<lparr>read_end = -1, write_end = -1\<rparr>), w))"

definition set_nonblocking :: "(int \<Rightarrow> string) \<Rightarrow> 'k kernel \<Rightarrow> fd \<Rightarrow> 'k world \<Rightarrow> error option \<times> 'k world" where
  "set_nonblocking errstr K fd w =
     (let (flags, w) = syscall K (Fd (Fcntl_getfl fd)) w in
      if flags < 0 then (Some (Error Invalid_value (errno_message errstr ''fcntl'' (errno w))), w)
      else let (n, w) = syscall K (Fd (Fcntl_setfl_nonblock fd flags)) w in
        if n \<noteq> 0 then (Some (Error Invalid_value (errno_message errstr ''fcntl'' (errno w))), w) else (None, w))"

text \<open>A pair is destroyed write end first; pairs in the reverse order of their declarations.\<close>

definition close_pipe :: "'k kernel \<Rightarrow> pipe_pair \<Rightarrow> 'k world \<Rightarrow> 'k world" where
  "close_pipe K p w = reset_fd K (read_end p) (reset_fd K (write_end p) w)"

fun reset_fds :: "'k kernel \<Rightarrow> fd list \<Rightarrow> 'k world \<Rightarrow> 'k world" where
  "reset_fds K [] w = w"
| "reset_fds K (fd # fds) w = reset_fds K fds (reset_fd K fd w)"

fun close_pipes :: "'k kernel \<Rightarrow> pipe_pair list \<Rightarrow> 'k world \<Rightarrow> 'k world" where
  "close_pipes K [] w = w"
| "close_pipes K (p # ps) w = close_pipe K p (close_pipes K ps w)"

fun open_pipes ::
  "(int \<Rightarrow> string) \<Rightarrow> 'k kernel \<Rightarrow> nat \<Rightarrow> pipe_pair list \<Rightarrow> 'k world \<Rightarrow> error option \<times> pipe_pair list \<times> 'k world" where
  "open_pipes errstr K 0 ps w = (None, ps, w)"
| "open_pipes errstr K (Suc n) ps w =
     (let (x, w) = make_pipe errstr K w in
      case x of Inl e \<Rightarrow> (Some e, ps, w) | Inr p \<Rightarrow> open_pipes errstr K n (ps @ [p]) w)"

fun unblock_reads :: "(int \<Rightarrow> string) \<Rightarrow> 'k kernel \<Rightarrow> pipe_pair list \<Rightarrow> 'k world \<Rightarrow> error option \<times> 'k world" where
  "unblock_reads errstr K [] w = (None, w)"
| "unblock_reads errstr K (p # ps) w =
     (let (e, w) = set_nonblocking errstr K (read_end p) w in
      if e \<noteq> None then (e, w) else unblock_reads errstr K ps w)"

record pipes =
  standard_out :: pipe_pair
  standard_err :: pipe_pair
  control :: pipe_pair
  ready :: pipe_pair
  start :: pipe_pair

definition prepare_pipes :: "(int \<Rightarrow> string) \<Rightarrow> 'k kernel \<Rightarrow> 'k world \<Rightarrow> (error + pipes) \<times> 'k world" where
  "prepare_pipes errstr K w =
     (let (e, ps, w) = open_pipes errstr K 5 [] w;
          (e, w) = (if e \<noteq> None then (e, w) else unblock_reads errstr K (take 4 ps) w)
      in case e of
           Some e \<Rightarrow> (Inl e, close_pipes K ps w)
         | None \<Rightarrow> (Inr \<lparr>standard_out = ps ! 0, standard_err = ps ! 1, control = ps ! 2, ready = ps ! 3, start = ps ! 4\<rparr>, w))"

section \<open>The two processes\<close>

datatype 'i execution_end = Reported "'i execution_result" | In_child child_end

definition child_setup_of ::
  "'i execution_request \<Rightarrow> execution_resources \<Rightarrow> bool \<Rightarrow> isolated_admission option \<Rightarrow> 'i interpreter_binding \<Rightarrow> fd \<Rightarrow>
   child_configuration" where
  "child_setup_of q R isolated housing b fd =
     (let p = request_environment q in
      \<lparr>stdin_policy_of = input_policy p, stdout_policy = output_policy p, stderr_policy = error_policy p,
       file_creation_mask = creation_mask p,
       working_directory = (if isolated then mount_point (working_binding q)
                            else materialization R (binding_resource (working_binding q))),
       isolation = housing, network = network_of p, limits = request_limits q, interpreter_fd = fd,
       arguments = [executable b, ''-c'', program_material q, ''pkgexec''],
       environment = make_environment p\<rparr>)"

definition terms_of :: "'i execution_request \<Rightarrow> 'i interpreter_binding \<Rightarrow> 'i execution_terms" where
  "terms_of q b =
     \<lparr>standard_output = output_policy (request_environment q), standard_error = error_policy (request_environment q),
      required_guarantees = request_guarantees q, configured_identity = identity b\<rparr>"

text \<open>The child closes the parent's ends and never returns.\<close>

definition execute_child ::
  "('c, 'i) runtime \<Rightarrow> 'k kernel \<Rightarrow> child_configuration \<Rightarrow> pipes \<Rightarrow> 'k world \<Rightarrow> ('i execution_end \<times> 'k world) option" where
  "execute_child L K c p w =
     (let w = reset_fds K [read_end (standard_out p), read_end (standard_err p), read_end (control p), read_end (ready p),
                           write_end (start p)] w
      in do { (e, w) \<leftarrow> child_main K (supported L) c (standard_out p) (standard_err p) (control p) (ready p) (start p) w;
              Some (In_child e, w) })"

definition clean_mounts :: "'k kernel \<Rightarrow> isolated_admission option \<Rightarrow> 'k world \<Rightarrow> bool \<times> isolated_admission option \<times> 'k world" where
  "clean_mounts K housing w =
     (case housing of
        None \<Rightarrow> (True, None, w)
      | Some adm \<Rightarrow> (let (cleaned, adm, w) = verify_parent_cleanup K adm w in (cleaned, Some adm, w)))"

text \<open>Without a pidfd there is no supervision: the child is killed and reaped.\<close>

definition abandon_child ::
  "('c, 'i) runtime \<Rightarrow> 'k kernel \<Rightarrow> isolated_admission option \<Rightarrow> pipes \<Rightarrow> pid \<Rightarrow> 'k world \<Rightarrow>
   ('i execution_end \<times> 'k world) option" where
  "abandon_child L K housing p child w =
     (let saved = errno w;
          w = reset_fd K (write_end (start p)) w;
          (n, w) = syscall K (Proc (Kill child SIGKILL)) w
      in do { (n, status, w) \<leftarrow> waitpid_retry K child w;
              let (cleaned, housing, w) = clean_mounts K housing w;
              let w = reset_fds K [read_end (ready p), read_end (control p), read_end (standard_err p), read_end (standard_out p)] w;
              let w = release_isolation K housing w;
              Some (Reported (failed Process_start_failed
                (scratch_note cleaned (errno_message (strerror L) ''pidfd_open'' saved))), w) })"

text \<open>Supervision, mount cleanup, classification, and the objects that are still alive.\<close>

definition supervise_child ::
  "('c, 'i) runtime \<Rightarrow> 'k kernel \<Rightarrow> 'i execution_terms \<Rightarrow> isolated_admission option \<Rightarrow> pipes \<Rightarrow> supervision_context \<Rightarrow> 'k world \<Rightarrow>
   ('i execution_end \<times> 'k world) option" where
  "supervise_child L K t housing p ctx w =
     do { (s, w) \<leftarrow> supervise K ctx (initial_supervision (read_end (standard_out p)) (read_end (standard_err p))
                      (read_end (control p)) (read_end (ready p)) (write_end (start p))) w;
          let (cleaned, housing, w) = clean_mounts K housing w;
          let w = reset_fds K [pidfd ctx, start_fd s, ready_fd s, control_fd s, error_fd s, output_fd s] w;
          let w = release_isolation K housing w;
          Some (Reported (classify (strerror L) t cleaned s), w) }"

definition execute_parent ::
  "('c, 'i) runtime \<Rightarrow> 'k kernel \<Rightarrow> 'i execution_request \<Rightarrow> 'i interpreter_binding \<Rightarrow> isolated_admission option \<Rightarrow> pipes \<Rightarrow> fd \<Rightarrow>
   bool \<Rightarrow> pid \<Rightarrow> 'k world \<Rightarrow> ('i execution_end \<times> 'k world) option" where
  "execute_parent L K q b housing p fd cancellable child w =
     (let w = reset_fds K [write_end (standard_out p), write_end (standard_err p), write_end (control p), write_end (ready p),
                           read_end (start p), fd] w;
          (handle, w) = (if cancellable then open_pidfd K child w else (-1, w))
      in if cancellable \<and> handle < 0 then abandon_child L K housing p child w
         else supervise_child L K (terms_of q b) housing p
                \<lparr>child_pid = child, pidfd = handle, cancellation = cancellable, grace_period_milliseconds = grace_period q\<rparr> w)"

definition start_process ::
  "('c, 'i) runtime \<Rightarrow> 'k kernel \<Rightarrow> 'i execution_request \<Rightarrow> execution_resources \<Rightarrow> bool \<Rightarrow> bool \<Rightarrow> isolated_admission option \<Rightarrow>
   'i interpreter_binding \<Rightarrow> fd \<Rightarrow> 'k world \<Rightarrow> ('i execution_end \<times> 'k world) option" where
  "start_process L K q R isolated cancellable housing b fd w =
     (let (x, w) = prepare_pipes (strerror L) K w in
      case x of
        Inl e \<Rightarrow> Some (Reported (failed Process_start_failed (what e)), release_isolation K housing (reset_fd K fd w))
      | Inr p \<Rightarrow>
          let (child, w) = syscall K (Proc Fork) w in
          if child < 0
          then let m = errno_message (strerror L) ''fork'' (errno w);
                   w = close_pipes K [standard_out p, standard_err p, control p, ready p, start p] w
               in Some (Reported (failed Process_start_failed m), release_isolation K housing (reset_fd K fd w))
          else if child = 0 then execute_child L K (child_setup_of q R isolated housing b fd) p w
          else execute_parent L K q b housing p fd cancellable child w)"

section \<open>Execution\<close>

definition cancelled_early :: "string \<Rightarrow> 'i execution_result" where
  "cancelled_early m = Cancelled_before_start [G_cancellation] m"

definition cancellation_requested :: "'k kernel \<Rightarrow> bool \<Rightarrow> 'k world \<Rightarrow> bool \<times> 'k world" where
  "cancellation_requested K cancellable w =
     (if cancellable then let (n, w) = syscall K (Ctl Cancellation_requested) w in (n \<noteq> 0, w) else (False, w))"

definition execute_admitted ::
  "('c, 'i :: linorder) runtime \<Rightarrow> 'k kernel \<Rightarrow> 'i interpreter_binding list \<Rightarrow> 'i execution_request \<Rightarrow> execution_resources \<Rightarrow>
   bool \<Rightarrow> bool \<Rightarrow> isolated_admission option \<Rightarrow> 'k world \<Rightarrow> ('i execution_end \<times> 'k world) option" where
  "execute_admitted L K bindings q R isolated cancellable housing w =
     (let (stop, w) = cancellation_requested K cancellable w in
      if stop then Some (Reported (cancelled_early ''cancellation was requested before interpreter admission''),
                         release_isolation K housing w)
      else do { (x, w) \<leftarrow> admit_interpreter L K bindings (request_interpreter q) w;
                case x of
                  Inl r \<Rightarrow> Some (Reported r, release_isolation K housing w)
                | Inr (b, fd) \<Rightarrow>
                    let (stop, w) = cancellation_requested K cancellable w in
                    if stop then Some (Reported (cancelled_early ''cancellation was requested before process creation''),
                                       release_isolation K housing (reset_fd K fd w))
                    else start_process L K q R isolated cancellable housing b fd w })"

definition execute_backend ::
  "('c, 'i :: linorder) runtime \<Rightarrow> 'k kernel \<Rightarrow> guarantees \<Rightarrow> 'i interpreter_binding list \<Rightarrow> 'i execution_request \<Rightarrow>
   execution_resources \<Rightarrow> bool \<Rightarrow> bool \<Rightarrow> 'k world \<Rightarrow> ('i execution_end \<times> 'k world) option" where
  "execute_backend L K offered bindings q R isolated cancellable w =
     (if \<not> supports L offered q
      then Some (Reported (failed Backend_unsupported
             (unsupported_guarantees_diagnostic (guarantee_rank L) (guarantee_name L) offered (request_guarantees q))), w)
      else let (stop, w) = cancellation_requested K cancellable w in
        if stop then Some (Reported (cancelled_early ''cancellation was requested before resource admission''), w)
        else do { (x, w) \<leftarrow> admit_request L K q R isolated w;
                  case x of
                    Inl r \<Rightarrow> Some (Reported r, w)
                  | Inr housing \<Rightarrow> execute_admitted L K bindings q R isolated cancellable housing w })"

section \<open>The two backends\<close>

record 'i backend =
  offered_guarantees :: guarantees
  interpreters :: "'i interpreter_binding list"

definition execute_host ::
  "('c, 'i :: linorder) runtime \<Rightarrow> 'k kernel \<Rightarrow> 'i backend \<Rightarrow> 'i execution_request \<Rightarrow> execution_resources \<Rightarrow> bool \<Rightarrow> 'k world \<Rightarrow>
   ('i execution_end \<times> 'k world) option" where
  "execute_host L K B q R cancellable w =
     execute_backend L K (offered_guarantees B) (interpreters B) q R False cancellable w"

definition execute_isolated ::
  "('c, 'i :: linorder) runtime \<Rightarrow> 'k kernel \<Rightarrow> 'i backend \<Rightarrow> 'i execution_request \<Rightarrow> execution_resources \<Rightarrow> bool \<Rightarrow> 'k world \<Rightarrow>
   ('i execution_end \<times> 'k world) option" where
  "execute_isolated L K B q R cancellable w =
     execute_backend L K (offered_guarantees B) (interpreters B) q R True cancellable w"

end
