(* ===== verification/Execution.thy ===== *)
theory Execution
  imports Backend
begin

text \<open>
  What \<open>execute_backend\<close> guarantees: which calls admission makes, that every child is waited for, and that a process
  is created only for an admitted request and interpreter.
\<close>

section \<open>Calls that create no process\<close>

text \<open>Admission opens, inspects and prepares; it creates no process and enters no namespace.\<close>

fun admission_call :: "syscall \<Rightarrow> bool" where
  "admission_call (Fs f) = True"
| "admission_call (Dir d) = True"
| "admission_call (Fd f) = True"
| "admission_call (Proc p) = (p = Getuid \<or> p = Getgid \<or> (\<exists>n. p = Getgroups n))"
| "admission_call (Ctl c) = (c = Cancellation_requested)"
| "admission_call _ = False"

abbreviation admits :: "'k world \<Rightarrow> 'k world \<Rightarrow> bool" where
  "admits \<equiv> only_calls admission_call"

lemma admits_reset [makes_intros]: "admits w w0 \<Longrightarrow> admits w (reset_fd K fd w0)"
  by (erule only_calls_trans) (rule reset_fd_only, simp)

lemma admits_close_all [makes_intros]: "admits w w0 \<Longrightarrow> admits w (close_all K fds w0)"
  by (induction fds arbitrary: w0) (simp_all add: makes_intros)

lemma current_groups_admits [makes_intros]: "admits w w0 \<Longrightarrow> makes admission_call w (current_groups errstr K w0)"
  unfolding current_groups_def Let_def by (intro makes_intros | simp)+

lemma own_credentials_admits [makes_intros]: "admits w w0 \<Longrightarrow> makes admission_call w (own_credentials errstr K c w0)"
  unfolding own_credentials_def Let_def by (intro makes_intros | simp)+

lemma symlink_scan_admits [makes_intros]: "admits w w0 \<Longrightarrow> makes admission_call w (symlink_scan K p cs w0)"
proof (induction cs arbitrary: p w0)
  case (Cons c cs)
  then show ?case unfolding symlink_scan.simps Let_def by (intro makes_intros | simp)+
qed (simp add: makes_intros)

lemma symlink_check_admits [makes_intros]: "admits w w0 \<Longrightarrow> makes admission_call w (path_has_symlink_component K p w0)"
  unfolding path_has_symlink_component_def by (intro makes_intros | simp)+

lemma host_binding_admits [makes_intros]: "admits w w0 \<Longrightarrow> makes admission_call w (host_binding_error K R b w0)"
  unfolding host_binding_error_def Let_def by (intro makes_intros | simp)+

lemma host_bindings_admits [makes_intros]: "admits w w0 \<Longrightarrow> makes admission_call w (host_bindings_error K R bs w0)"
proof (induction bs arbitrary: w0)
  case (Cons b bs)
  then show ?case unfolding host_bindings_error.simps Let_def by (intro makes_intros | simp)+
qed (simp add: makes_intros)

lemma host_shape_admits [makes_intros]: "admits w w0 \<Longrightarrow> makes admission_call w (validate_host_request_shape errstr K q R w0)"
  unfolding validate_host_request_shape_def Let_def by (intro makes_intros | simp)+

lemma isolated_shape_admits [makes_intros]:
  "admits w w0 \<Longrightarrow> makes admission_call w (validate_isolated_request_shape errstr K q w0)"
  unfolding validate_isolated_request_shape_def Let_def by (intro makes_intros | simp)+

lemma source_calls_admit [makes_intros]:
  assumes "admits w w0"
  shows "makes admission_call w (open_exact_path K p w0)" "makes admission_call w (open_beneath K fd p w0)"
    "makes admission_call w (identity_of errstr K fd w0)" "makes admission_call w (same_inode K fd i w0)"
    "makes admission_call w (writable_by_current_credentials K fd w0)"
  unfolding open_exact_path_def open_beneath_def identity_of_def same_inode_def writable_by_current_credentials_def Let_def
  using assms by (intro makes_intros | simp)+

lemma entries_absent_admits:
  assumes "entries_absent K d w0 = Some p"
  shows "admits w0 (snd p)"
proof (rule entries_absent.raw_induct [where P = "\<lambda>K d w0 p. admits w0 (snd p)", OF _ assms], goal_cases)
  case (1 f K d w0 p)
  obtain r w1 where i: "invoke K (Dir (Readdir d)) w0 = (r, w1)" by fastforce
  then have o: "admits w0 w1" by (auto intro: only_calls_invoke)
  from 1(2) i have "p = (True, w1) \<or> p = (False, w1) \<or> f K d (set_errno 0 w1) = Some p" by (auto split: if_splits)
  then show ?case using o 1(1) [of K d "set_errno 0 w1" p] only_calls_trans [OF o] by auto
qed

lemma entries_absent_makes [makes_intros]: "admits w w0 \<Longrightarrow> may_make admission_call w (entries_absent K d w0)"
  using entries_absent_admits only_calls_trans unfolding may_make_def makes_def by blast

lemma directory_is_empty_admits [makes_intros]:
  "admits w w0 \<Longrightarrow> may_make admission_call w (directory_is_empty errstr K fd w0)"
  unfolding directory_is_empty_def Let_def by (intro makes_intros | simp)+

lemma admit_source_admits [makes_intros]:
  "admits w w0 \<Longrightarrow> makes admission_call w (admit_source errstr K host b seen w0)"
  unfolding admit_source_def Let_def by (intro makes_intros | simp)+

lemma house_input_admits [makes_intros]:
  "admits w w0 \<Longrightarrow> makes admission_call w (house_input errstr K target parent name nss e w0)"
  unfolding house_input_def Let_def by (intro makes_intros | simp)+

lemma admit_input_admits [makes_intros]:
  "admits w w0 \<Longrightarrow> may_make admission_call w (admit_input errstr K root logical nss w0)"
  unfolding admit_input_def Let_def by (intro makes_intros | simp)+

lemma admit_target_admits [makes_intros]:
  "admits w w0 \<Longrightarrow> may_make admission_call w (admit_target errstr K root b nss w0)"
  unfolding admit_target_def admit_destination_def Let_def by (intro makes_intros | simp)+

lemma admit_binding_admits [makes_intros]:
  "admits w w0 \<Longrightarrow> may_make admission_call w (admit_binding errstr K m rv root st b w0)"
  unfolding admit_binding_def Let_def by (intro makes_intros allI impI | simp split: prod.split)+

lemma admit_bindings_admits [makes_intros]:
  "admits w w0 \<Longrightarrow> may_make admission_call w (admit_bindings errstr K m rv root st bs w0)"
proof (induction bs arbitrary: st w0)
  case (Cons b bs)
  then show ?case unfolding admit_bindings.simps by (intro makes_intros | simp)+
qed (simp add: makes_intros)

lemma make_scratch_admits [makes_intros]: "admits w w0 \<Longrightarrow> makes admission_call w (make_scratch errstr K w0)"
  unfolding make_scratch_def Let_def by (intro makes_intros | simp)+

lemma admit_isolated_resources_admits [makes_intros]:
  "admits w w0 \<Longrightarrow> may_make admission_call w (admit_isolated_resources errstr K m rv bs w0)"
  unfolding admit_isolated_resources_def Let_def by (intro makes_intros | simp)+

lemma admit_request_admits [makes_intros]:
  "admits w w0 \<Longrightarrow> may_make admission_call w (admit_request L K q R isolated w0)"
  unfolding admit_request_def Let_def by (intro makes_intros | simp)+

lemma cancellation_requested_admits [makes_intros]:
  "admits w w0 \<Longrightarrow> makes admission_call w (cancellation_requested K cancellable w0)"
  unfolding cancellation_requested_def Let_def by (intro makes_intros | simp)+

lemma digest_loop_admits:
  assumes "digest_loop errstr E K fd c n w0 = Some p"
  shows "admits w0 (snd p)"
proof (rule digest_loop.raw_induct [where P = "\<lambda>errstr E K fd c n w0 p. admits w0 (snd p)", OF _ assms], goal_cases)
  case (1 f errstr E K fd c n w0 p)
  obtain r w1 where i: "invoke K (Fd (Pread fd 65536 n)) w0 = (r, w1)" by fastforce
  then have o: "admits w0 w1" by (auto intro: only_calls_invoke)
  from 1(2) i have "snd p = w1 \<or> (\<exists>c m. f errstr E K fd c m w1 = Some p)" by (auto split: if_splits sum.splits)
  then show ?case using o only_calls_trans [OF o 1(1)] by blast
qed

lemma digest_fd_admits [makes_intros]: "admits w w0 \<Longrightarrow> may_make admission_call w (digest_fd errstr E K fd w0)"
proof -
  assume a: "admits w w0"
  then have d: "may_make admission_call w (digest_loop errstr E K fd c n w0)" for c n
    unfolding may_make_def makes_def by (intro allI impI) (rule only_calls_trans [OF a digest_loop_admits])
  show ?thesis unfolding digest_fd_def by (intro makes_intros d a | simp)+
qed

lemma verify_interpreter_admits [makes_intros]:
  "admits w w0 \<Longrightarrow> may_make admission_call w (verify_interpreter L K b fd w0)"
  unfolding verify_interpreter_def Let_def by (intro makes_intros | simp)+

lemma admit_interpreter_admits [makes_intros]:
  "admits w w0 \<Longrightarrow> may_make admission_call w (admit_interpreter L K bs wanted w0)"
  unfolding admit_interpreter_def Let_def by (intro makes_intros | simp)+

lemma make_pipe_admits [makes_intros]: "admits w w0 \<Longrightarrow> makes admission_call w (make_pipe errstr K w0)"
  unfolding make_pipe_def Let_def by (intro makes_intros | simp)+

lemma set_nonblocking_admits [makes_intros]: "admits w w0 \<Longrightarrow> makes admission_call w (set_nonblocking errstr K fd w0)"
  unfolding set_nonblocking_def Let_def by (intro makes_intros | simp)+

lemma close_pipe_admits [makes_intros]: "admits w w0 \<Longrightarrow> admits w (close_pipe K p w0)"
  unfolding close_pipe_def by (intro makes_intros)

lemma close_pipes_admits [makes_intros]: "admits w w0 \<Longrightarrow> admits w (close_pipes K ps w0)"
  by (induction ps arbitrary: w0) (simp_all add: makes_intros)

lemma reset_fds_admits [makes_intros]: "admits w w0 \<Longrightarrow> admits w (reset_fds K fds w0)"
  by (induction fds arbitrary: w0) (simp_all add: makes_intros)

lemma unblock_reads_admits [makes_intros]: "admits w w0 \<Longrightarrow> makes admission_call w (unblock_reads errstr K ps w0)"
proof (induction ps arbitrary: w0)
  case (Cons p ps)
  then show ?case unfolding unblock_reads.simps Let_def by (intro makes_intros | simp)+
qed (simp add: makes_intros)

lemma open_pipes_admits: "admits w w0 \<Longrightarrow> open_pipes errstr K n ps w0 = (e, ps', w') \<Longrightarrow> admits w w'"
proof (induction n arbitrary: ps w0)
  case (Suc n)
  obtain x w1 where m: "make_pipe errstr K w0 = (x, w1)" by fastforce
  with make_pipe_admits [OF Suc.prems(1), of errstr K] have "admits w w1" by (simp add: makes_def)
  with Suc m show ?case by (cases x) auto
qed simp

lemma prepare_pipes_admits [makes_intros]: "admits w w0 \<Longrightarrow> makes admission_call w (prepare_pipes errstr K w0)"
proof -
  assume a: "admits w w0"
  obtain e ps w1 where o: "open_pipes errstr K 5 [] w0 = (e, ps, w1)" by (metis prod_cases3)
  have "admits w w1" by (rule open_pipes_admits [OF a o])
  then show ?thesis unfolding prepare_pipes_def o Let_def prod.case by (intro makes_intros | simp)+
qed

lemma remove_directory_admits [makes_intros]: "admits w w0 \<Longrightarrow> makes admission_call w (remove_directory K p w0)"
  unfolding remove_directory_def Let_def by (intro makes_intros | simp)+

lemma verify_parent_cleanup_admits: "admits w w0 \<Longrightarrow> verify_parent_cleanup K adm w0 = (ok, adm', w') \<Longrightarrow> admits w w'"
proof -
  assume a: "admits w w0" and v: "verify_parent_cleanup K adm w0 = (ok, adm', w')"
  obtain i w1 where r: "remove_directory K (path_append (scratch_path adm) ''root'') w0 = (i, w1)" by fastforce
  obtain j w2 where s: "remove_directory K (scratch_path adm) w1 = (j, w2)" by fastforce
  have "admits w w1" using remove_directory_admits [OF a] r by (rule makes_only)
  from remove_directory_admits [OF this] s have "admits w w2" by (rule makes_only)
  with a v r s show ?thesis by (auto simp: verify_parent_cleanup_def Let_def split: if_splits)
qed

lemma release_isolation_admits [makes_intros]: "admits w w0 \<Longrightarrow> admits w (release_isolation K h w0)"
proof (cases h)
  case (Some adm)
  assume a: "admits w w0"
  obtain ok adm' w1 where v: "verify_parent_cleanup K adm w0 = (ok, adm', w1)" by (metis prod_cases3)
  have "admits w w1" by (rule verify_parent_cleanup_admits [OF a v])
  then show ?thesis using a v unfolding Some release_isolation_def release_admission_def cleanup_best_effort_def
    by (simp add: makes_intros)
qed (simp add: release_isolation_def)

section \<open>Every child is waited for\<close>

definition reaped :: "pid \<Rightarrow> (syscall \<times> reply) list \<Rightarrow> bool" where
  "reaped child cs \<longleftrightarrow> (\<exists>r. (Proc (Waitpid child), r) \<in> set cs \<and> \<not> (ret r < 0 \<and> err r = EINTR))"

lemma reaped_mono: "reaped child cs \<Longrightarrow> set cs \<subseteq> set ds \<Longrightarrow> reaped child ds"
  by (auto simp: reaped_def)

lemma waitpid_retry_reaps:
  assumes "waitpid_retry K child w = Some (n, st, w')"
  shows "extends w w' \<and> reaped child (calls_between w w')"
  using assms retry_eintr_last by (fastforce simp: waitpid_retry_def bind_eq_Some_conv reaped_def)

definition reaped_history :: "supervision_context \<Rightarrow> 'k world \<Rightarrow> supervision \<Rightarrow> 'k world \<Rightarrow> bool" where
  "reaped_history ctx w0 s w \<longleftrightarrow> extends w0 w \<and> (child_reaped s \<longrightarrow> reaped (child_pid ctx) (calls_between w0 w))"

lemma reaped_history_quiet:
  assumes "reaped_history ctx w0 s w" "extends w w'" "child_reaped s' = child_reaped s"
  shows "reaped_history ctx w0 s' w'"
  using assms extends_calls_subset [of w0 w w'] extends_trans [of w0 w w'] reaped_mono
  unfolding reaped_history_def by blast

lemma reaped_kept:
  "observe_exit K ctx s w = Some (s', w') \<Longrightarrow> child_reaped s' = child_reaped s"
  "observe_cancellation K ctx s w = (s', w') \<Longrightarrow> child_reaped s' = child_reaped s"
  "release_start K ctx s w = Some (s', w') \<Longrightarrow> child_reaped s' = child_reaped s"
  "send_cancellation_signal K ctx s w = Some (s', w') \<Longrightarrow> child_reaped s' = child_reaped s"
  "force_cancellation K ctx now s w = Some (s', w') \<Longrightarrow> child_reaped s' = child_reaped s"
  "start_cleanup K ctx now s w = Some (s', w') \<Longrightarrow> child_reaped s' = child_reaped s"
  "continue_cleanup K ctx now s w = Some (s', w') \<Longrightarrow> child_reaped s' = child_reaped s"
  "drain_streams K s w = Some (s', w') \<Longrightarrow> child_reaped s' = child_reaped s"
  "read_control K s w = Some (s', w') \<Longrightarrow> child_reaped s' = child_reaped s"
  "read_ready K s w = Some (s', w') \<Longrightarrow> child_reaped s' = child_reaped s"
  subgoal by (drule observe_exit_state) auto
  subgoal by (drule observe_cancellation_state) auto
  subgoal by (drule release_start_state) auto
  subgoal by (drule send_cancellation_signal_state) auto
  subgoal by (drule force_cancellation_state) auto
  subgoal by (drule start_cleanup_state) auto
  subgoal by (drule continue_cleanup_state) auto
  subgoal by (auto elim: drain_streamsE)
  subgoal by (drule read_control_state) auto
  subgoal by (drule read_ready_post) (auto simp: ready_read_def)
  done

lemma reaped_history_reap:
  assumes h: "reaped_history ctx w0 s w" and r: "reap_child K ctx s w = Some (s', w')"
  shows "reaped_history ctx w0 s' w'"
proof -
  have c: "s' = s \<and> w' = w \<or> (\<exists>n st v. waitpid_retry K (child_pid ctx) w = Some (n, st, v) \<and>
      (w' = v \<or> w' = snd (cleanup_group K (child_pid ctx) v)))"
    using r by (auto simp: reap_child_def bind_eq_Some_conv case_prod_beta Let_def split: if_splits)
  have "extends v (snd (cleanup_group K (child_pid ctx) v))" for v
    by (rule only_calls_extends [OF cleanup_group_only]) (rule prod.collapse [symmetric])
  with c consider "s' = s" "w' = w"
    | n st v where "waitpid_retry K (child_pid ctx) w = Some (n, st, v)" "extends v w'" by auto
  then show ?thesis
  proof cases
    case 2
    from waitpid_retry_reaps [OF 2(1)] have e: "extends w v" and p: "reaped (child_pid ctx) (calls_between w v)" by blast+
    from h have "extends w0 w" by (simp add: reaped_history_def)
    from calls_of_part [OF this e 2(2)] reaped_mono [OF p] extends_trans [OF \<open>extends w0 w\<close> extends_trans [OF e 2(2)]]
    show ?thesis by (simp add: reaped_history_def)
  qed (use h in simp)
qed

interpretation reaping: supervision_invariant K ctx "reaped_history ctx w0" for K :: "'k kernel" and ctx w0
proof unfold_locales
  fix s s' now and w w' :: "'k world"
  assume h: "reaped_history ctx w0 s w"
  note q = reaped_history_quiet [OF h only_calls_extends]
  show "reaped_history ctx w0 s' w'" if "observe_exit K ctx s w = Some (s', w')"
    by (rule q [OF observe_exit_only [OF that] reaped_kept(1) [OF that]])
  show "reaped_history ctx w0 s' w'" if "observe_cancellation K ctx s w = (s', w')"
    by (rule q [OF observe_cancellation_only [OF that] reaped_kept(2) [OF that]])
  show "reaped_history ctx w0 s' w'" if "release_start K ctx s w = Some (s', w')"
    by (rule q [OF release_start_only [OF that] reaped_kept(3) [OF that]])
  show "reaped_history ctx w0 s' w'" if "send_cancellation_signal K ctx s w = Some (s', w')"
    by (rule q [OF send_cancellation_signal_only [OF that] reaped_kept(4) [OF that]])
  show "reaped_history ctx w0 s w'" if "syscall K (Ctl Clock_now) w = (now, w')"
    by (rule reaped_history_quiet [OF h syscall_extends [OF that]]) simp
  show "reaped_history ctx w0 s' w'" if "force_cancellation K ctx now s w = Some (s', w')"
    by (rule q [OF force_cancellation_only [OF that] reaped_kept(5) [OF that]])
  show "reaped_history ctx w0 s' w'" if "start_cleanup K ctx now s w = Some (s', w')"
    by (rule q [OF start_cleanup_only [OF that] reaped_kept(6) [OF that]])
  show "reaped_history ctx w0 s' w'" if "continue_cleanup K ctx now s w = Some (s', w')"
    by (rule q [OF continue_cleanup_only [OF that] reaped_kept(7) [OF that]])
  show "reaped_history ctx w0 s' w'" if "reap_child K ctx s w = Some (s', w')"
    by (rule reaped_history_reap [OF h that])
  show "reaped_history ctx w0 s (poll_pipes K ctx s w)"
    by (rule q [OF poll_pipes_only]) simp
  show "reaped_history ctx w0 s' w'" if "drain_streams K s w = Some (s', w')"
    by (rule q [OF drain_streams_only [OF that] reaped_kept(8) [OF that]])
  show "reaped_history ctx w0 s' w'" if "read_control K s w = Some (s', w')"
    by (rule q [OF read_control_only [OF that] reaped_kept(9) [OF that]])
  show "reaped_history ctx w0 s' w'" if "read_ready K s w = Some (s', w')"
    by (rule q [OF read_ready_only [OF that] reaped_kept(10) [OF that]])
qed

lemma supervise_reaps:
  assumes "supervise K ctx (initial_supervision a b c d e) w = Some (s, w')"
  shows "extends w w' \<and> reaped (child_pid ctx) (calls_between w w')"
  using reaping.final [OF _ assms, of w] by (auto simp: reaped_history_def initial_supervision_def running_def)

lemma clean_mounts_admits: "admits w w0 \<Longrightarrow> clean_mounts K h w0 = (c, h', w') \<Longrightarrow> admits w w'"
  by (auto simp: clean_mounts_def split: option.splits prod.splits dest: verify_parent_cleanup_admits)

lemma abandon_child_reaps:
  assumes "abandon_child L K h p child w = Some (x, w')"
  shows "extends w w' \<and> reaped child (calls_between w w') \<and> (\<exists>m. x = Reported (failed Process_start_failed m))"
proof -
  let ?w1 = "reset_fd K (write_end (start p)) w"
  obtain n w2 where k: "syscall K (Proc (Kill child SIGKILL)) ?w1 = (n, w2)" by fastforce
  with assms obtain n' st w3 where v: "waitpid_retry K child w2 = Some (n', st, w3)"
    by (auto simp: abandon_child_def bind_eq_Some_conv)
  obtain c h' w4 where m: "clean_mounts K h w3 = (c, h', w4)" by (metis prod_cases3)
  have w': "w' = release_isolation K h' (reset_fds K [read_end (ready p), read_end (control p), read_end (standard_err p),
      read_end (standard_out p)] w4)" and x: "\<exists>m. x = Reported (failed Process_start_failed m)"
    using assms k v m by (auto simp: abandon_child_def)
  have "admits w3 w'" unfolding w' by (intro makes_intros clean_mounts_admits [OF _ m]) simp
  then have e3: "extends w3 w'" by (rule only_calls_extends)
  have "extends w ?w1" by (rule only_calls_extends [OF admits_reset]) simp
  then have e: "extends w w2" using syscall_extends [OF k] by (rule extends_trans)
  from waitpid_retry_reaps [OF v] have e2: "extends w2 w3" and r: "reaped child (calls_between w2 w3)" by blast+
  from calls_of_part [OF e e2 e3] reaped_mono [OF r] x extends_trans [OF e extends_trans [OF e2 e3]] show ?thesis by blast
qed

lemma supervise_child_reaps:
  assumes "supervise_child L K t h p ctx w = Some (x, w')"
  shows "extends w w' \<and> reaped (child_pid ctx) (calls_between w w') \<and> (\<exists>r. x = Reported r)"
proof -
  let ?s = "initial_supervision (read_end (standard_out p)) (read_end (standard_err p)) (read_end (control p)) (read_end (ready p))
    (write_end (start p))"
  from assms obtain s w1 where r: "supervise K ctx ?s w = Some (s, w1)" by (auto simp: supervise_child_def bind_eq_Some_conv)
  obtain c h' w2 where m: "clean_mounts K h w1 = (c, h', w2)" by (metis prod_cases3)
  have w': "w' = release_isolation K h' (reset_fds K [pidfd ctx, start_fd s, ready_fd s, control_fd s, error_fd s, output_fd s] w2)"
    and x: "\<exists>r. x = Reported r"
    using assms r m by (auto simp: supervise_child_def)
  have "admits w1 w'" unfolding w' by (intro makes_intros clean_mounts_admits [OF _ m]) simp
  then have e: "extends w1 w'" by (rule only_calls_extends)
  from supervise_reaps [OF r] have e1: "extends w w1" and p: "reaped (child_pid ctx) (calls_between w w1)" by blast+
  from extends_trans [OF e1 e] reaped_mono [OF p extends_calls_subset [OF e1 e]] x show ?thesis by blast
qed

section \<open>Execution rests on admission\<close>

text \<open>
  The interpreter \<open>b\<close> was found for the wanted identity, opened as \<open>fd\<close>, and the digest of the opened
  file is the admitted one, whose identity is the wanted one.
\<close>

definition interpreter_admitted ::
  "('c, 'i :: linorder) runtime \<Rightarrow> 'k kernel \<Rightarrow> 'i interpreter_binding list \<Rightarrow> 'i \<Rightarrow> 'i interpreter_binding \<Rightarrow> fd \<Rightarrow>
   'k world \<Rightarrow> 'k world \<Rightarrow> bool" where
  "interpreter_admitted L K bs wanted b fd w w' \<longleftrightarrow>
     find_interpreter bs wanted = Some b \<and> identity b = wanted \<and> 0 \<le> fd \<and>
     (\<exists>r. (Fs (Open (executable b) open_interpreter_flags), r) \<in> set (calls_between w w') \<and> ret r = fd) \<and>
     (\<exists>v v'. extends w v \<and> extends v' w' \<and>
        digest_fd (strerror L) (digests L) K fd v = Some (Inr (content_digest b), v')) \<and>
     interpreter_identity (digests L) (from_sha256 L) (content_digest b) = Inr wanted"

lemma interpreter_admitted_extend:
  assumes "interpreter_admitted L K bs wanted b fd w w'" "extends w0 w" "extends w w'" "extends w' w2"
  shows "interpreter_admitted L K bs wanted b fd w0 w2"
  using assms(1) calls_of_part [OF assms(2-4)] extends_trans [OF assms(2)] extends_trans [OF _ assms(4)]
  unfolding interpreter_admitted_def by blast

lemma find_interpreter_identity: "find_interpreter bs k = Some b \<Longrightarrow> identity b = k"
  by (auto simp: find_interpreter_def Let_def split: if_splits)

lemma interpreter_refusal_None:
  assumes "interpreter_refusal L b x = None"
  shows "x = Inr (content_digest b) \<and> interpreter_identity (digests L) (from_sha256 L) (content_digest b) = Inr (identity b)"
  using assms
  by (auto simp: interpreter_refusal_def bind_result_def interpreter_mismatch_def split: sum.split_asm if_split_asm)

lemma verify_interpreter_None:
  assumes "verify_interpreter L K b fd w = Some (None, w')"
  obtains v where "extends w v" "digest_fd (strerror L) (digests L) K fd v = Some (Inr (content_digest b), w')"
    "interpreter_identity (digests L) (from_sha256 L) (content_digest b) = Inr (identity b)"
proof -
  obtain r v where i: "invoke K (Fs (Fstat fd)) w = (r, v)" by fastforce
  with assms have "\<not> (ret r \<noteq> 0 \<or> st_kind (reply_stat r) \<noteq> S_IFREG)"
    by (auto simp: verify_interpreter_def split: if_split_asm)
  with assms i obtain x where d: "digest_fd (strerror L) (digests L) K fd v = Some (x, w')"
    and m: "interpreter_refusal L b x = None"
    by (auto simp: verify_interpreter_def bind_eq_Some_conv)
  from interpreter_refusal_None [OF m] that [OF invoke_extends [OF i]] d show ?thesis by simp
qed

lemma admit_interpreter_admitted:
  assumes "admit_interpreter L K bs wanted w = Some (Inr (b, fd), w')"
  shows "interpreter_admitted L K bs wanted b fd w w'"
proof -
  from assms have f: "find_interpreter bs wanted = Some b"
    by (auto simp: admit_interpreter_def bind_eq_Some_conv Let_def split: option.splits if_splits prod.splits)
  obtain r w1 where i: "invoke K (Fs (Open (executable b) open_interpreter_flags)) w = (r, w1)" by fastforce
  from assms f i have fd: "fd = ret r" "0 \<le> fd" and v: "verify_interpreter L K b fd w1 = Some (None, w')"
    by (auto simp: admit_interpreter_def syscall_def bind_eq_Some_conv split: option.splits if_splits)
  have o: "admits w1 w'" by (rule may_make_only [OF verify_interpreter_admits v]) simp
  from verify_interpreter_None [OF v] obtain u where
    u: "extends w1 u" "digest_fd (strerror L) (digests L) K fd u = Some (Inr (content_digest b), w')"
    and id: "interpreter_identity (digests L) (from_sha256 L) (content_digest b) = Inr (identity b)" .
  note e = invoke_extends [OF i]
  have "(Fs (Open (executable b) open_interpreter_flags), r) \<in> set (calls_between w w')"
    using calls_between_trans [OF e only_calls_extends [OF o]] calls_between_invoke [OF i] by simp
  with f fd u id extends_trans [OF e u(1)] find_interpreter_identity [OF f] show ?thesis
    unfolding interpreter_admitted_def by blast
qed

text \<open>Results that say the program was not started.\<close>

definition before_start :: "'i execution_result \<Rightarrow> bool" where
  "before_start r \<longleftrightarrow> (\<exists>k m. r = Failed_before_start k [] m) \<or> (\<exists>m. r = Cancelled_before_start [G_cancellation] m)"

lemma before_start_simps [simp]: "before_start (failed k m)" "before_start (unavailable m)" "before_start (cancelled_early m)"
  by (auto simp: before_start_def failed_def unavailable_def cancelled_early_def)

text \<open>What follows the \<open>fork\<close>, in the child and in the parent.\<close>

definition after_fork ::
  "('c, 'i) runtime \<Rightarrow> 'k kernel \<Rightarrow> 'i execution_request \<Rightarrow> execution_resources \<Rightarrow> bool \<Rightarrow> 'i interpreter_binding \<Rightarrow> fd \<Rightarrow>
   pid \<Rightarrow> 'i execution_end \<Rightarrow> 'k world \<Rightarrow> 'k world \<Rightarrow> bool" where
  "after_fork L K q R isolated b fd child x w w' \<longleftrightarrow>
     (case x of
        In_child e \<Rightarrow> child = 0 \<and> (\<exists>housing p. (isolated \<longleftrightarrow> housing \<noteq> None) \<and>
          execute_child L K (child_setup_of q R isolated housing b fd) p w = Some (x, w'))
      | Reported r \<Rightarrow> child < 0 \<and> before_start r \<or> 0 < child \<and> reaped child (calls_between w w'))"

lemma execute_parent_reaps:
  assumes "execute_parent L K q b h p fd cancellable child w = Some (x, w')"
  shows "reaped child (calls_between w w') \<and> (\<exists>r. x = Reported r)"
proof -
  let ?w1 = "reset_fds K [write_end (standard_out p), write_end (standard_err p), write_end (control p), write_end (ready p),
    read_end (start p), fd] w"
  have e1: "extends w ?w1" by (rule only_calls_extends [OF reset_fds_admits]) simp
  obtain g w2 where o: "(if cancellable then open_pidfd K child ?w1 else (-1, ?w1)) = (g, w2)" by fastforce
  then have "extends ?w1 w2" by (auto simp: open_pidfd_def split: if_splits dest: syscall_extends)
  with e1 have e: "extends w w2" by (rule extends_trans)
  have "abandon_child L K h p child w2 = Some (x, w') \<or> (\<exists>ctx t. child_pid ctx = child \<and> supervise_child L K t h p ctx w2 = Some (x, w'))"
    using assms unfolding execute_parent_def Let_def o
    by (auto split: if_splits)
  then have "extends w2 w' \<and> reaped child (calls_between w2 w') \<and> (\<exists>r. x = Reported r)"
  proof (elim disjE exE conjE)
    assume "abandon_child L K h p child w2 = Some (x, w')"
    from abandon_child_reaps [OF this] show ?thesis by blast
  next
    fix ctx t assume "child_pid ctx = child" and s: "supervise_child L K t h p ctx w2 = Some (x, w')"
    with supervise_child_reaps [OF s] show ?thesis by simp
  qed
  then show ?thesis using reaped_mono calls_of_part [OF e _ extends_refl] by blast
qed

lemma start_process_cases:
  assumes "start_process L K q R isolated cancellable h b fd w = Some (x, w')" "isolated \<longleftrightarrow> h \<noteq> None"
  shows "(\<exists>r. x = Reported r \<and> before_start r \<and> admits w w') \<or>
    (\<exists>v r v'. admits w v \<and> invoke K (Proc Fork) v = (r, v') \<and> after_fork L K q R isolated b fd (ret r) x v' w')"
proof -
  obtain y v where p: "prepare_pipes (strerror L) K w = (y, v)" by fastforce
  have o: "admits w v" by (rule makes_only [OF prepare_pipes_admits p]) simp
  show ?thesis
  proof (cases y)
    case (Inl e)
    with assms p have "x = Reported (failed Process_start_failed (what e))" "w' = release_isolation K h (reset_fd K fd v)"
      by (simp_all add: start_process_def)
    then show ?thesis using o by (auto intro: makes_intros)
  next
    case (Inr ps)
    obtain r v' where f: "invoke K (Proc Fork) v = (r, v')" by fastforce
    have "after_fork L K q R isolated b fd (ret r) x v' w'"
    proof (cases "ret r" "0 :: int" rule: linorder_cases)
      case less
      with assms p Inr f show ?thesis by (auto simp: start_process_def syscall_def after_fork_def Let_def)
    next
      case equal
      with assms p Inr f have c: "execute_child L K (child_setup_of q R isolated h b fd) ps v' = Some (x, w')"
        by (simp add: start_process_def syscall_def)
      then obtain e where "x = In_child e" by (auto simp: execute_child_def bind_eq_Some_conv)
      with c equal assms(2) show ?thesis unfolding after_fork_def by (simp del: not_None_eq) blast
    next
      case greater
      with assms p Inr f have "execute_parent L K q b h ps fd cancellable (ret r) v' = Some (x, w')"
        by (simp add: start_process_def syscall_def)
      from execute_parent_reaps [OF this] greater show ?thesis by (auto simp: after_fork_def)
    qed
    with o f show ?thesis by blast
  qed
qed

lemma admit_request_shape:
  assumes "admit_request L K q R isolated w = Some (x, w')"
  shows "case x of Inl r \<Rightarrow> before_start r | Inr h \<Rightarrow> (isolated \<longleftrightarrow> h \<noteq> None)"
proof -
  obtain shape v where s: "(if isolated then validate_isolated_request_shape (strerror L) K q w
      else validate_host_request_shape (strerror L) K q R w) = (shape, v)" by fastforce
  show ?thesis
  proof (cases shape)
    case (Inl e)
    with assms s show ?thesis unfolding admit_request_def by auto
  next
    case (Inr m)
    consider "m \<noteq> []" | "m = []" "\<not> isolated" | "m = []" "isolated" by blast
    then show ?thesis
    proof cases
      case 3
      with assms s Inr obtain y where "x = (case y of Inl e \<Rightarrow> Inl (failed Resource_admission_failed (what e)) | Inr adm \<Rightarrow> Inr (Some adm))"
        unfolding admit_request_def by (auto simp: bind_eq_Some_conv)
      with 3 show ?thesis by (cases y) auto
    qed (use assms s Inr in \<open>auto simp: admit_request_def\<close>)
  qed
qed

lemma verify_interpreter_refused: "verify_interpreter L K b fd w = Some (Some r, w') \<Longrightarrow> before_start r"
proof -
  assume a: "verify_interpreter L K b fd w = Some (Some r, w')"
  obtain s v where i: "invoke K (Fs (Fstat fd)) w = (s, v)" by fastforce
  show ?thesis
  proof (cases "ret s \<noteq> 0 \<or> st_kind (reply_stat s) \<noteq> S_IFREG")
    case True
    with a i show ?thesis by (auto simp: verify_interpreter_def)
  next
    case False
    with a i obtain x where "interpreter_refusal L b x = Some r"
      by (auto simp: verify_interpreter_def bind_eq_Some_conv)
    then show ?thesis by (auto simp: interpreter_refusal_def split: sum.split_asm if_split_asm)
  qed
qed

lemma admit_interpreter_refused:
  assumes "admit_interpreter L K bs i w = Some (Inl r, w')"
  shows "before_start r"
proof (cases "find_interpreter bs i")
  case None
  with assms show ?thesis by (auto simp: admit_interpreter_def)
next
  case (Some b)
  obtain fd v where o: "syscall K (Fs (Open (executable b) open_interpreter_flags)) w = (fd, v)" by fastforce
  show ?thesis
  proof (cases "fd < 0")
    case True
    with assms Some o show ?thesis by (auto simp: admit_interpreter_def)
  next
    case False
    with assms Some o obtain x u where v: "verify_interpreter L K b fd v = Some (x, u)"
      and c: "(case x of None \<Rightarrow> (Inr (b, fd), u) | Some x \<Rightarrow> (Inl x, reset_fd K fd u)) = (Inl r, w')"
      by (auto simp: admit_interpreter_def bind_eq_Some_conv)
    from c have "x = Some r" by (auto split: option.split_asm)
    with v verify_interpreter_refused show ?thesis by blast
  qed
qed

lemma cancellation_requested_False:
  assumes "cancellation_requested K cancellable w = (False, w')"
  shows "extends w w' \<and> (cancellable \<longrightarrow> performed (Ctl Cancellation_requested) (calls_between w w'))"
proof -
  obtain r v where i: "invoke K (Ctl Cancellation_requested) w = (r, v)" by fastforce
  from assms i invoke_extends [OF i] calls_between_invoke [OF i] show ?thesis
    by (auto simp: cancellation_requested_def syscall_def performed_def split: if_splits)
qed

text \<open>What was established when a process is created.\<close>

definition creation_admitted ::
  "('c, 'i :: linorder) runtime \<Rightarrow> 'k kernel \<Rightarrow> 'i interpreter_binding list \<Rightarrow> 'i execution_request \<Rightarrow> bool \<Rightarrow> 'i interpreter_binding \<Rightarrow>
   fd \<Rightarrow> 'k world \<Rightarrow> 'k world \<Rightarrow> bool" where
  "creation_admitted L K bs q cancellable b fd w v \<longleftrightarrow>
     admits w v \<and> (\<exists>u. interpreter_admitted L K bs (request_interpreter q) b fd w u \<and> extends w u \<and> extends u v \<and>
       (cancellable \<longrightarrow> performed (Ctl Cancellation_requested) (calls_between u v)))"

lemma execute_admitted_cases:
  assumes run: "execute_admitted L K bs q R isolated cancellable h w = Some (x, w')" and h: "isolated \<longleftrightarrow> h \<noteq> None"
  shows "(\<exists>r. x = Reported r \<and> before_start r \<and> admits w w') \<or>
    (\<exists>b fd v r v'. creation_admitted L K bs q cancellable b fd w v \<and> invoke K (Proc Fork) v = (r, v') \<and>
      after_fork L K q R isolated b fd (ret r) x v' w')"
proof -
  obtain stop w1 where c: "cancellation_requested K cancellable w = (stop, w1)" by fastforce
  have o1: "admits w w1" by (rule makes_only [OF cancellation_requested_admits c]) simp
  show ?thesis
  proof (cases stop)
    case True
    with run c release_isolation_admits [OF o1] show ?thesis by (auto simp: execute_admitted_def)
  next
    case False
    with run c obtain y w2 where i: "admit_interpreter L K bs (request_interpreter q) w1 = Some (y, w2)"
      by (auto simp: execute_admitted_def bind_eq_Some_conv)
    have o2: "admits w w2" by (rule may_make_only [OF admit_interpreter_admits [OF o1] i])
    show ?thesis
    proof (cases y)
      case (Inl r)
      with run c False i have "x = Reported r" "w' = release_isolation K h w2" by (simp_all add: execute_admitted_def)
      with Inl i admit_interpreter_refused release_isolation_admits [OF o2] show ?thesis by blast
    next
      case (Inr z)
      obtain b fd where z: "z = (b, fd)" by fastforce
      obtain stop' w3 where d: "cancellation_requested K cancellable w2 = (stop', w3)" by fastforce
      have o3: "admits w w3" by (rule makes_only [OF cancellation_requested_admits [OF o2] d])
      show ?thesis
      proof (cases stop')
        case True
        with run c False i Inr z d release_isolation_admits [OF admits_reset [OF o3]] show ?thesis by (auto simp: execute_admitted_def)
      next
        case keep: False
        with run c False i Inr z d have s: "start_process L K q R isolated cancellable h b fd w3 = Some (x, w')"
          by (simp add: execute_admitted_def)
        note e = only_calls_extends [OF o1] only_calls_extends [OF may_make_only [OF admit_interpreter_admits i]]
        have adm: "interpreter_admitted L K bs (request_interpreter q) b fd w w2"
          by (rule interpreter_admitted_extend [OF admit_interpreter_admitted e(1) _ extends_refl])
            (use i Inr z in \<open>auto intro: e(2)\<close>)
        from cancellation_requested_False [of K cancellable w2 w3] d keep have
          t: "extends w2 w3" "cancellable \<longrightarrow> performed (Ctl Cancellation_requested) (calls_between w2 w3)" by auto
        from start_process_cases [OF s h] show ?thesis
        proof (elim disjE exE conjE)
          fix r assume "x = Reported r" "before_start r" "admits w3 w'"
          with only_calls_trans [OF o3] show ?thesis by blast
        next
          fix v r v' assume v: "admits w3 v" "invoke K (Proc Fork) v = (r, v')" "after_fork L K q R isolated b fd (ret r) x v' w'"
          note e3 = only_calls_extends [OF v(1)]
          have "cancellable \<longrightarrow> performed (Ctl Cancellation_requested) (calls_between w2 v)"
            using t evidence_mono(1) [OF extends_calls_subset [OF t(1) e3]] by blast
          with adm only_calls_trans [OF o3 v(1)] only_calls_extends [OF o2] extends_trans [OF t(1) e3]
          have "creation_admitted L K bs q cancellable b fd w v" unfolding creation_admitted_def by blast
          with v show ?thesis by blast
        qed
      qed
    qed
  qed
qed

lemma creation_admitted_extend:
  assumes "creation_admitted L K bs q cancellable b fd w v" "admits w0 w"
  shows "creation_admitted L K bs q cancellable b fd w0 v"
proof -
  note e0 = only_calls_extends [OF assms(2)]
  from assms(1) obtain u where "admits w v" and u: "interpreter_admitted L K bs (request_interpreter q) b fd w u" "extends w u" "extends u v"
    and t: "cancellable \<longrightarrow> performed (Ctl Cancellation_requested) (calls_between u v)" unfolding creation_admitted_def by blast
  with only_calls_trans [OF assms(2)] interpreter_admitted_extend [OF u(1) e0 u(2) extends_refl] extends_trans [OF e0 u(2)]
  show ?thesis unfolding creation_admitted_def by blast
qed

lemma execution_cases:
  assumes run: "execute_backend L K offered bs q R isolated cancellable w = Some (x, w')"
  shows "(\<exists>r. x = Reported r \<and> before_start r \<and> admits w w') \<or>
    (supports L offered q \<and> (\<exists>b fd v r v'. creation_admitted L K bs q cancellable b fd w v \<and>
      invoke K (Proc Fork) v = (r, v') \<and> after_fork L K q R isolated b fd (ret r) x v' w'))"
proof (cases "supports L offered q")
  case False
  with run show ?thesis by (auto simp: execute_backend_def)
next
  case sup: True
  obtain stop w1 where c: "cancellation_requested K cancellable w = (stop, w1)" by fastforce
  have o1: "admits w w1" by (rule makes_only [OF cancellation_requested_admits c]) simp
  show ?thesis
  proof (cases stop)
    case True
    with run c sup o1 show ?thesis by (auto simp: execute_backend_def)
  next
    case False
    with run c sup obtain y w2 where a: "admit_request L K q R isolated w1 = Some (y, w2)"
      by (auto simp: execute_backend_def bind_eq_Some_conv)
    have o2: "admits w w2" by (rule may_make_only [OF admit_request_admits [OF o1] a])
    from admit_request_shape [OF a] show ?thesis
    proof (cases y)
      case (Inl r)
      with run c sup False a admit_request_shape [OF a] o2 show ?thesis by (auto simp: execute_backend_def)
    next
      case (Inr h)
      with run c sup False a have r: "execute_admitted L K bs q R isolated cancellable h w2 = Some (x, w')"
        by (simp add: execute_backend_def)
      from admit_request_shape [OF a] Inr have "isolated \<longleftrightarrow> h \<noteq> None" by simp
      from execute_admitted_cases [OF r this] show ?thesis
      proof (elim disjE exE conjE)
        fix r assume "x = Reported r" "before_start r" "admits w2 w'"
        with only_calls_trans [OF o2] show ?thesis by blast
      next
        fix b fd v r v' assume v: "creation_admitted L K bs q cancellable b fd w2 v" "invoke K (Proc Fork) v = (r, v')"
          "after_fork L K q R isolated b fd (ret r) x v' w'"
        from creation_admitted_extend [OF v(1) o2] v(2,3) sup show ?thesis by blast
      qed
    qed
  qed
qed


section \<open>A concrete execution\<close>

definition blank_digests :: "unit evp" where
  "blank_digests = \<lparr>evp_new = Some (), evp_init = (\<lambda>c. Some ()), evp_update = (\<lambda>c bs. Some ()),
     evp_final = (\<lambda>c. Some (replicate 32 0))\<rparr>"

definition sample_runtime :: "(unit, nat) runtime" where
  "sample_runtime = \<lparr>strerror = (\<lambda>e. []), digests = blank_digests, from_sha256 = (\<lambda>h. 7), supports = (\<lambda>offered q. set (request_guarantees q) \<subseteq> set offered),
     guarantee_rank = (\<lambda>g. 0), guarantee_name = (\<lambda>g. []), supported = True\<rparr>"

definition sample_binding :: "nat interpreter_binding" where
  "sample_binding = \<lparr>identity = 7, executable = ''/bin/sh'', content_digest = hex_bytes (replicate 32 0)\<rparr>"

definition sample_request :: "nat execution_request" where
  "sample_request =
     \<lparr>request_environment =
        \<lparr>executable_search_path = [''/bin'', ''/usr/bin''], home_directory = ''/root'', temporary_directory = ''/tmp'', parallelism = 1,
         source_date_epoch = None, additional_variables = [], creation_mask = 18, network_of = Network_allowed,
         input_policy = Stdin_null_device, output_policy = Capture_complete, error_policy = Discard\<rparr>,
      request_credentials = \<lparr>no_new_privileges = True, user_id = 0, group_id = 0, supplementary_groups = []\<rparr>,
      request_bindings = [],
      working_binding = \<lparr>binding_role = Build_workspace, binding_access = Writable, mount_point = ''/build'', binding_resource = ''w''\<rparr>,
      request_interpreter = 7, program_material = ''true'',
      request_limits = \<lparr>cpu_time_milliseconds = None, address_space_bytes = None, file_size_bytes = None, open_files = None,
        process_count = None\<rparr>,
      grace_period = 0, request_guarantees = [G_exact_interpreter]\<rparr>"

definition sample_resources :: execution_resources where
  "sample_resources = \<lparr>root_view_path = ''/'', materialization = (\<lambda>r. ''/build'')\<rparr>"

definition execution_script :: "reply list" where
  "execution_script =
     [ok_reply, ok_reply, ok_reply, ok_reply, ok_reply] @
     [num_reply 5, data_reply 0 (Stat_data \<lparr>st_kind = S_IFREG, st_dev = 1, st_ino = 2\<rparr>), ok_reply] @
     map (\<lambda>(a, b). data_reply 0 (Fd_pair a b)) [(10, 20), (11, 21), (12, 22), (13, 23), (24, 14)] @
     [ok_reply, ok_reply, ok_reply, ok_reply, ok_reply, ok_reply, ok_reply, ok_reply, num_reply 41] @
     [ok_reply, ok_reply, ok_reply, ok_reply, ok_reply, ok_reply] @ ordinary_script"

lemma five_pipes: "open_pipes errstr K 5 ps w = open_pipes errstr K (Suc (Suc (Suc (Suc (Suc 0))))) ps w"
  by (simp add: numeral_eq_Suc)

lemmas execution_simps = execute_backend_def cancellation_requested_def admit_request_def validate_host_request_shape_def
  own_credentials_def current_groups_def group_ids_def native_groups_def host_bindings_error.simps execute_admitted_def
  admit_interpreter_def find_interpreter_def lower_bound.simps verify_interpreter_def interpreter_refusal_def interpreter_mismatch_def
  interpreter_identity_def sha256_hex_def digest_fd_def digest_loop.simps digest_start_def digest_finish_def update_def bind_result_def
  blank_digests_def start_process_def prepare_pipes_def five_pipes make_pipe_def unblock_reads.simps set_nonblocking_def
  execute_parent_def reset_fds.simps supervise_child_def clean_mounts_def release_isolation_def terms_of_def
  classify_def classify_started_def retained_def established_guarantees_def termination_from_siginfo_def CLD_EXITED_def
  path_eq_def path_elements_def reply_stat_def zero_stat_def

lemma sample_request_admitted: "\<exists>h'. admit_request sample_runtime scripted sample_request sample_resources False
    \<lparr>kern = ok_reply # ok_reply # ok_reply # ok_reply # ok_reply # rs, errno = e, history = h\<rparr>
  = Some (Inr None, \<lparr>kern = rs, errno = e, history = h'\<rparr>)"
  by (simp add: execution_simps run_simps sample_runtime_def sample_binding_def sample_request_def sample_resources_def Let_def cong: run_congs)

lemma sample_interpreter_admitted: "\<exists>h'. admit_interpreter sample_runtime scripted [sample_binding] 7
    \<lparr>kern = num_reply 5 # data_reply 0 (Stat_data \<lparr>st_kind = S_IFREG, st_dev = 1, st_ino = 2\<rparr>) # ok_reply # rs, errno = e, history = h\<rparr>
  = Some (Inr (sample_binding, 5), \<lparr>kern = rs, errno = e, history = h'\<rparr>)"
  by (simp add: execution_simps run_simps sample_runtime_def sample_binding_def Let_def cong: run_congs)

definition sample_pipes :: pipes where
  "sample_pipes = \<lparr>standard_out = \<lparr>read_end = 10, write_end = 20\<rparr>, standard_err = \<lparr>read_end = 11, write_end = 21\<rparr>,
     control = \<lparr>read_end = 12, write_end = 22\<rparr>, ready = \<lparr>read_end = 13, write_end = 23\<rparr>, start = \<lparr>read_end = 24, write_end = 14\<rparr>\<rparr>"

lemma sample_pipes_open: "\<exists>h'. prepare_pipes errstr scripted
    \<lparr>kern = data_reply 0 (Fd_pair 10 20) # data_reply 0 (Fd_pair 11 21) # data_reply 0 (Fd_pair 12 22) # data_reply 0 (Fd_pair 13 23) #
       data_reply 0 (Fd_pair 24 14) # ok_reply # ok_reply # ok_reply # ok_reply # ok_reply # ok_reply # ok_reply # ok_reply # rs,
     errno = e, history = h\<rparr>
  = (Inr sample_pipes, \<lparr>kern = rs, errno = e, history = h'\<rparr>)"
  by (simp add: execution_simps run_simps open_pipes.simps sample_pipes_def Let_def cong: run_congs)

lemma sample_parent: "\<exists>w'. execute_parent sample_runtime scripted sample_request sample_binding None sample_pipes 5 False 41
    \<lparr>kern = ok_reply # ok_reply # ok_reply # ok_reply # ok_reply # ok_reply # ordinary_script, errno = e, history = h\<rparr>
  = Some (Reported (Succeeded 7 (Some [104, 105, 10]) None [G_exact_interpreter]), w')"
  by (simp add: execution_simps run_simps sample_pipes_def sample_runtime_def sample_binding_def sample_request_def ordinary_script_def cong: run_congs)

lemma sample_execution:
  assumes "G_exact_interpreter \<in> set offered"
  shows "\<exists>w'. execute_backend sample_runtime scripted offered [sample_binding] sample_request sample_resources
     False False (start_world execution_script)
   = Some (Reported (Succeeded 7 (Some [104, 105, 10]) None [G_exact_interpreter]), w')"
proof -
  have q: "request_interpreter sample_request = 7" by (simp add: sample_request_def)
  have sup: "supports sample_runtime offered sample_request" using assms by (simp add: sample_runtime_def sample_request_def)
  obtain h1 where 1: "admit_request sample_runtime scripted sample_request sample_resources False (start_world execution_script)
      = Some (Inr None, \<lparr>kern = drop 5 execution_script, errno = 0, history = h1\<rparr>)"
    using sample_request_admitted by (fastforce simp: start_world_def execution_script_def)
  obtain h2 where 2: "admit_interpreter sample_runtime scripted [sample_binding] 7
      \<lparr>kern = drop 5 execution_script, errno = 0, history = h1\<rparr>
      = Some (Inr (sample_binding, 5), \<lparr>kern = drop 8 execution_script, errno = 0, history = h2\<rparr>)"
    using sample_interpreter_admitted by (fastforce simp: execution_script_def)
  obtain h3 where 3: "prepare_pipes (strerror sample_runtime) scripted \<lparr>kern = drop 8 execution_script, errno = 0, history = h2\<rparr>
      = (Inr sample_pipes, \<lparr>kern = num_reply 41 # drop 22 execution_script, errno = 0, history = h3\<rparr>)"
    using sample_pipes_open by (fastforce simp: execution_script_def)
  obtain h4 where 4: "syscall scripted (Proc Fork) \<lparr>kern = num_reply 41 # drop 22 execution_script, errno = 0, history = h3\<rparr>
      = (41, \<lparr>kern = drop 22 execution_script, errno = 0, history = h4\<rparr>)"
    by (simp add: scripted_simps)
  obtain w' where 5: "execute_parent sample_runtime scripted sample_request sample_binding None sample_pipes 5 False 41
      \<lparr>kern = drop 22 execution_script, errno = 0, history = h4\<rparr>
      = Some (Reported (Succeeded 7 (Some [104, 105, 10]) None [G_exact_interpreter]), w')"
    using sample_parent by (fastforce simp: execution_script_def)
  show ?thesis
    by (simp add: execute_backend_def cancellation_requested_def sup 1 execute_admitted_def q 2 start_process_def 3 4 5)
qed


end
