(* ===== verification/Capability.thy ===== *)
theory Capability
  imports Execution
begin

text \<open>
  \<open>src/capability.cpp\<close> and \<open>capability.h\<close>: the vocabulary of Linux capabilities, the probes that fork a
  child, and the two reports, a profile of guarantees with the observations it rests on. With the
  reports, \<open>make\<close> of both backends is complete.
\<close>

section \<open>Vocabulary\<close>

datatype capability_kind =
    Cap_process_supervision | Cap_closed_environment | Cap_current_root_view | Cap_current_credentials
  | Cap_writable_resources | Cap_complete_stream_capture | Cap_process_group_containment | Cap_no_new_privileges
  | Cap_descriptor_execution | Cap_close_range | Cap_pidfd | Cap_pidfd_cancellation
  | Cap_mount_namespace | Cap_private_mount_propagation | Cap_openat2 | Cap_open_tree
  | Cap_move_mount | Cap_mount_setattr | Cap_chroot | Cap_capability_drop
  | Cap_user_namespace | Cap_pid_namespace | Cap_network_namespace | Cap_landlock
  | Cap_cgroup_v2 | Cap_loopback_configuration | Cap_address_space_limit | Cap_file_size_limit
  | Cap_open_files_limit

datatype capability_state = Available | Unavailable | Policy_restricted

definition capability_name :: "capability_kind \<Rightarrow> string" where
  "capability_name k =
     (case k of
        Cap_process_supervision \<Rightarrow> ''process-supervision''
      | Cap_closed_environment \<Rightarrow> ''closed-environment''
      | Cap_current_root_view \<Rightarrow> ''current-root-view''
      | Cap_current_credentials \<Rightarrow> ''current-credentials''
      | Cap_writable_resources \<Rightarrow> ''writable-resources''
      | Cap_complete_stream_capture \<Rightarrow> ''complete-stream-capture''
      | Cap_process_group_containment \<Rightarrow> ''process-group-containment''
      | Cap_no_new_privileges \<Rightarrow> ''no-new-privileges''
      | Cap_descriptor_execution \<Rightarrow> ''descriptor-execution''
      | Cap_close_range \<Rightarrow> ''close-range''
      | Cap_pidfd \<Rightarrow> ''pidfd''
      | Cap_pidfd_cancellation \<Rightarrow> ''pidfd-cancellation''
      | Cap_mount_namespace \<Rightarrow> ''mount-namespace''
      | Cap_private_mount_propagation \<Rightarrow> ''private-mount-propagation''
      | Cap_openat2 \<Rightarrow> ''openat2''
      | Cap_open_tree \<Rightarrow> ''open-tree''
      | Cap_move_mount \<Rightarrow> ''move-mount''
      | Cap_mount_setattr \<Rightarrow> ''mount-setattr''
      | Cap_chroot \<Rightarrow> ''chroot''
      | Cap_capability_drop \<Rightarrow> ''capability-drop''
      | Cap_user_namespace \<Rightarrow> ''user-namespace''
      | Cap_pid_namespace \<Rightarrow> ''pid-namespace''
      | Cap_network_namespace \<Rightarrow> ''network-namespace''
      | Cap_landlock \<Rightarrow> ''landlock''
      | Cap_cgroup_v2 \<Rightarrow> ''cgroup-v2''
      | Cap_loopback_configuration \<Rightarrow> ''loopback-configuration''
      | Cap_address_space_limit \<Rightarrow> ''address-space-limit''
      | Cap_file_size_limit \<Rightarrow> ''file-size-limit''
      | Cap_open_files_limit \<Rightarrow> ''open-files-limit'')"

definition state_name :: "capability_state \<Rightarrow> string" where
  "state_name s =
     (case s of Available \<Rightarrow> ''available'' | Unavailable \<Rightarrow> ''unavailable'' | Policy_restricted \<Rightarrow> ''policy-restricted'')"

text \<open>The enumerators in the order of their values.\<close>

definition capability_kinds :: "capability_kind list" where
  "capability_kinds =
     [Cap_process_supervision, Cap_closed_environment, Cap_current_root_view, Cap_current_credentials,
      Cap_writable_resources, Cap_complete_stream_capture, Cap_process_group_containment, Cap_no_new_privileges,
      Cap_descriptor_execution, Cap_close_range, Cap_pidfd, Cap_pidfd_cancellation,
      Cap_mount_namespace, Cap_private_mount_propagation, Cap_openat2, Cap_open_tree,
      Cap_move_mount, Cap_mount_setattr, Cap_chroot, Cap_capability_drop,
      Cap_user_namespace, Cap_pid_namespace, Cap_network_namespace, Cap_landlock,
      Cap_cgroup_v2, Cap_loopback_configuration, Cap_address_space_limit, Cap_file_size_limit,
      Cap_open_files_limit]"

definition capability_states :: "capability_state list" where
  "capability_states = [Available, Unavailable, Policy_restricted]"

record capability_observation =
  observed_capability :: capability_kind
  observed_state :: capability_state
  observed_diagnostic :: string

text \<open>
  An enumeration of C++ has the values of its underlying type \<open>int\<close>. \<open>valid\<close>, \<open>to_string\<close> and the constructor
  of an observation take a value a caller may have converted to the enumeration.
\<close>

definition valid_kind :: "int \<Rightarrow> bool" where
  "valid_kind v \<longleftrightarrow> 0 \<le> v \<and> v < int (length capability_kinds)"

definition valid_state :: "int \<Rightarrow> bool" where
  "valid_state v \<longleftrightarrow> 0 \<le> v \<and> v < int (length capability_states)"

definition kind_to_string :: "int \<Rightarrow> string" where
  "kind_to_string v = (if valid_kind v then capability_name (capability_kinds ! nat v) else ''unknown'')"

definition state_to_string :: "int \<Rightarrow> string" where
  "state_to_string v = (if valid_state v then state_name (capability_states ! nat v) else ''unknown'')"

definition make_observation :: "int \<Rightarrow> int \<Rightarrow> string \<Rightarrow> error + capability_observation" where
  "make_observation kind state diagnostic =
     (if \<not> valid_kind kind then Inl (Error Invalid_value ''unsupported Linux capability vocabulary'')
      else if \<not> valid_state state then Inl (Error Invalid_value ''unsupported Linux capability-state vocabulary'')
      else Inr \<lparr>observed_capability = capability_kinds ! nat kind, observed_state = capability_states ! nat state,
                observed_diagnostic = diagnostic\<rparr>)"

lemma kinds_complete: "k \<in> set capability_kinds"
  by (cases k) (simp_all add: capability_kinds_def)

lemma capability_names_distinct:
  assumes "capability_name k = capability_name k'"
  shows "k = k'"
proof -
  have "distinct (map capability_name capability_kinds)" by code_simp
  then have "inj_on capability_name (set capability_kinds)" by (simp add: distinct_map)
  from inj_onD [OF this assms kinds_complete kinds_complete] show ?thesis .
qed

lemma unknown_kind: "kind_to_string v = ''unknown'' \<longleftrightarrow> \<not> valid_kind v"
proof -
  have "capability_name k \<noteq> ''unknown''" for k by (cases k) (simp_all add: capability_name_def)
  then show ?thesis by (simp add: kind_to_string_def)
qed

section \<open>Single probes\<close>

text \<open>A probe that forks ends in the child; the code after it runs only in the process that returns.\<close>

definition then_probe ::
  "('a outcome \<times> 'k world) option \<Rightarrow> ('a \<Rightarrow> 'k world \<Rightarrow> ('b outcome \<times> 'k world) option) \<Rightarrow> ('b outcome \<times> 'k world) option" where
  "then_probe m f =
     do { (x, w) \<leftarrow> m;
          case x of Returned a \<Rightarrow> f a w | Exited n \<Rightarrow> Some (Exited n, w) | Blocked \<Rightarrow> Some (Blocked, w) }"

definition plain :: "'a \<times> 'k world \<Rightarrow> ('a outcome \<times> 'k world) option" where
  "plain p = Some (Returned (fst p), snd p)"

definition namespace_state ::
  "'k kernel \<Rightarrow> namespace_flag \<Rightarrow> 'k world \<Rightarrow> (capability_state outcome \<times> 'k world) option" where
  "namespace_state K flag w =
     (let (child, w) = syscall K (Proc Fork) w in
      if child < 0 then Some (Returned Unavailable, w)
      else if child = 0
      then let (n, w) = syscall K (Mnt (Unshare flag)) w
           in Some (Exited (if n = 0 then 0 else if errno w = EPERM then 2 else 1), w)
      else do { (_, status, w) \<leftarrow> waitpid_retry K child w;
                Some (Returned (if \<not> WIFEXITED status then Unavailable
                                else if WEXITSTATUS status = 0 then Available
                                else if WEXITSTATUS status = 2 then Policy_restricted else Unavailable), w) })"

definition landlock_state :: "'k kernel \<Rightarrow> 'k world \<Rightarrow> capability_state \<times> 'k world" where
  "landlock_state K w =
     (let (version, w) = syscall K (Ctl Landlock_version) w in
      (if version \<ge> 1 then Available else if errno w = EPERM \<or> errno w = EACCES then Policy_restricted else Unavailable, w))"

text \<open>The two streams are closed in the reverse order of their construction.\<close>

definition cgroup_state :: "'k kernel \<Rightarrow> 'k world \<Rightarrow> capability_state \<times> 'k world" where
  "cgroup_state K w =
     (let (controllers, w) = syscall K (Fs (Open ''/sys/fs/cgroup/cgroup.controllers'' [O_RDONLY])) w in
      if controllers < 0 then (Unavailable, w)
      else let (probe, w) = syscall K (Fs (Open ''/sys/fs/cgroup/cgroup.procs'' [O_WRONLY, O_CREAT, O_APPEND])) w
           in (if probe \<ge> 0 then Available else Policy_restricted, reset_fd K controllers (reset_fd K probe w)))"

section \<open>Resource limits\<close>

record resource_limit_capabilities =
  can_address_space :: bool
  can_file_size :: bool
  can_open_files :: bool

definition probe_resource_limits ::
  "'k kernel \<Rightarrow> bool \<Rightarrow> 'k world \<Rightarrow> (resource_limit_capabilities outcome \<times> 'k world) option" where
  "probe_resource_limits K supp w =
     then_probe (probe_address_space_limit K supp w) (\<lambda>a w.
     then_probe (probe_file_size_limit K supp w) (\<lambda>f w.
     then_probe (probe_open_files_limit K supp w) (\<lambda>n w.
     Some (Returned \<lparr>can_address_space = a, can_file_size = f, can_open_files = n\<rparr>, w))))"

definition add_resource_limit_guarantees :: "guarantees \<Rightarrow> resource_limit_capabilities \<Rightarrow> guarantees" where
  "add_resource_limit_guarantees gs l =
     (if \<not> can_address_space l \<and> \<not> can_file_size l \<and> \<not> can_open_files l then gs
      else gs @ [G_resource_limits] @ (if can_address_space l then [G_address_space_limit] else []) @
        (if can_file_size l then [G_file_size_limit] else []) @ (if can_open_files l then [G_open_files_limit] else []))"

definition observe :: "capability_kind \<Rightarrow> capability_state \<Rightarrow> string \<Rightarrow> capability_observation" where
  "observe k s d = \<lparr>observed_capability = k, observed_state = s, observed_diagnostic = d\<rparr>"

definition availability :: "bool \<Rightarrow> capability_state" where
  "availability b = (if b then Available else Unavailable)"

definition add_resource_limit_observations ::
  "capability_observation list \<Rightarrow> resource_limit_capabilities \<Rightarrow> capability_observation list" where
  "add_resource_limit_observations os l =
     os @
     [observe Cap_address_space_limit (availability (can_address_space l))
        (if can_address_space l then ''exact RLIMIT_AS realization and mutation sealing are available''
         else ''exact RLIMIT_AS realization could not be proved''),
      observe Cap_file_size_limit (availability (can_file_size l))
        (if can_file_size l then ''exact RLIMIT_FSIZE realization and mutation sealing are available''
         else ''exact RLIMIT_FSIZE realization could not be proved''),
      observe Cap_open_files_limit (availability (can_open_files l))
        (if can_open_files l then ''exact RLIMIT_NOFILE realization and mutation sealing are available''
         else ''exact RLIMIT_NOFILE realization could not be proved'')]"

section \<open>Reports\<close>

text \<open>
  Backend identities and sealed profiles belong to libpkgexec: making an identity from a digest,
  sealing a profile and reading its guarantees.
\<close>

record ('b, 'p) profiles =
  identity_from_sha256 :: "string \<Rightarrow> 'b"
  seal :: "'b \<Rightarrow> guarantees \<Rightarrow> 'p"
  guarantees_of :: "'p \<Rightarrow> guarantees"

record 'p capability_report =
  profile :: 'p
  observations :: "capability_observation list"

definition backend_identity :: "'c evp \<Rightarrow> ('b, 'p) profiles \<Rightarrow> string \<Rightarrow> error + 'b" where
  "backend_identity E P name = bind_result (sha256_hex E ''pkgexec-linux/backend/v1'' name) (\<lambda>h. Inr (identity_from_sha256 P h))"

definition seal_report ::
  "'c evp \<Rightarrow> ('b, 'p) profiles \<Rightarrow> string \<Rightarrow> guarantees \<Rightarrow> capability_observation list \<Rightarrow> error + 'p capability_report" where
  "seal_report E P name gs os =
     bind_result (backend_identity E P name) (\<lambda>b. Inr \<lparr>profile = seal P b gs, observations = os\<rparr>)"

text \<open>What the probes common to both reports found.\<close>

record probe_basis =
  containment :: bool
  descriptor_execution :: bool
  pidfd_cancellation :: bool
  limit_probes :: resource_limit_capabilities

definition probe_basis_of :: "'k kernel \<Rightarrow> bool \<Rightarrow> 'k world \<Rightarrow> (probe_basis outcome \<times> 'k world) option" where
  "probe_basis_of K supp w =
     then_probe (probe_process_group_containment K supp w) (\<lambda>con w.
     then_probe (plain (probe_descriptor_execution K w)) (\<lambda>des w.
     then_probe (if con then probe_pidfd_cancellation K w else Some (Returned False, w)) (\<lambda>can w.
     then_probe (probe_resource_limits K supp w) (\<lambda>l w.
     Some (Returned \<lparr>containment = con, descriptor_execution = des, pidfd_cancellation = can, limit_probes = l\<rparr>, w)))))"

definition cancellation_diagnostic :: "bool \<Rightarrow> string" where
  "cancellation_diagnostic b =
     (if b then ''pidfd-backed process-group cancellation is available''
      else ''pidfd-backed process-group cancellation could not be realized'')"

subsection \<open>The host supervisor\<close>

definition host_guarantees :: "probe_basis \<Rightarrow> guarantees" where
  "host_guarantees b =
     add_resource_limit_guarantees
       ([G_closed_environment, G_root_view, G_writable_resources, G_fixed_credentials, G_complete_stdout_capture,
         G_complete_stderr_capture] @
        (if descriptor_execution b then [G_exact_interpreter] else []) @
        (if containment b then [G_cleanup_verified] else []) @
        (if pidfd_cancellation b then [G_cancellation] else []))
       (limit_probes b)"

text \<open>What the probes made while the observations are listed found, in their order.\<close>

record host_probes =
  host_close_range :: bool
  host_pidfd :: bool
  host_mount_namespace :: capability_state
  host_openat2 :: bool
  host_capability_drop :: bool
  host_user_namespace :: capability_state
  host_pid_namespace :: capability_state
  host_network_namespace :: capability_state
  host_landlock :: capability_state
  host_cgroup :: capability_state

definition host_probes_of :: "'k kernel \<Rightarrow> 'k world \<Rightarrow> (host_probes outcome \<times> 'k world) option" where
  "host_probes_of K w =
     then_probe (plain (probe_close_range K w)) (\<lambda>cr w.
     then_probe (plain (probe_pidfd K w)) (\<lambda>pf w.
     then_probe (namespace_state K CLONE_NEWNS w) (\<lambda>mn w.
     then_probe (plain (probe_openat2 K w)) (\<lambda>oa w.
     then_probe (probe_capability_drop K w) (\<lambda>cd w.
     then_probe (namespace_state K CLONE_NEWUSER w) (\<lambda>un w.
     then_probe (namespace_state K CLONE_NEWPID w) (\<lambda>pn w.
     then_probe (namespace_state K CLONE_NEWNET w) (\<lambda>nn w.
     then_probe (plain (landlock_state K w)) (\<lambda>ll w.
     then_probe (plain (cgroup_state K w)) (\<lambda>cg w.
     Some (Returned \<lparr>host_close_range = cr, host_pidfd = pf, host_mount_namespace = mn, host_openat2 = oa,
       host_capability_drop = cd, host_user_namespace = un, host_pid_namespace = pn, host_network_namespace = nn,
       host_landlock = ll, host_cgroup = cg\<rparr>, w)))))))))))"

definition host_observations :: "probe_basis \<Rightarrow> host_probes \<Rightarrow> capability_observation list" where
  "host_observations b h =
     add_resource_limit_observations
       [observe Cap_process_supervision Available [],
        observe Cap_closed_environment Available [],
        observe Cap_current_root_view Available ''only the current / root view is admitted'',
        observe Cap_current_credentials Available (''only the supervisor'' @ [CHR 0x27] @ ''s current credentials are admitted''),
        observe Cap_writable_resources Available ''resources must already exist at their logical paths'',
        observe Cap_complete_stream_capture Available [],
        observe Cap_process_group_containment (availability (containment b)) [],
        observe Cap_no_new_privileges (availability (containment b)) [],
        observe Cap_descriptor_execution (availability (descriptor_execution b)) [],
        observe Cap_close_range (availability (host_close_range h)) [],
        observe Cap_pidfd (availability (host_pidfd h)) [],
        observe Cap_pidfd_cancellation (availability (pidfd_cancellation b)) (cancellation_diagnostic (pidfd_cancellation b)),
        observe Cap_mount_namespace (host_mount_namespace h) [],
        observe Cap_private_mount_propagation Unavailable ''host supervisor creates no mount namespace'',
        observe Cap_openat2 (availability (host_openat2 h)) [],
        observe Cap_open_tree Unavailable ''host supervisor creates no detached mount trees'',
        observe Cap_move_mount Unavailable ''host supervisor attaches no mount trees'',
        observe Cap_mount_setattr Unavailable ''host supervisor applies no mount attributes'',
        observe Cap_chroot Unavailable ''host supervisor enters no alternate root'',
        observe Cap_capability_drop (availability (host_capability_drop h)) [],
        observe Cap_user_namespace (host_user_namespace h) [],
        observe Cap_pid_namespace (host_pid_namespace h) [],
        observe Cap_network_namespace (host_network_namespace h) [],
        observe Cap_landlock (host_landlock h) [],
        observe Cap_cgroup_v2 (host_cgroup h) [],
        observe Cap_loopback_configuration Unavailable ''host supervisor creates no private loopback view'']
       (limit_probes b)"

definition probe ::
  "'c evp \<Rightarrow> ('b, 'p) profiles \<Rightarrow> 'k kernel \<Rightarrow> bool \<Rightarrow> 'k world \<Rightarrow> ((error + 'p capability_report) outcome \<times> 'k world) option" where
  "probe E P K supp w =
     then_probe (probe_basis_of K supp w) (\<lambda>b w.
     then_probe (host_probes_of K w) (\<lambda>h w.
     Some (Returned (seal_report E P ''host-supervisor'' (host_guarantees b) (host_observations b h)), w)))"

subsection \<open>The isolated backend\<close>

definition restricted :: "u32 \<Rightarrow> capability_state" where
  "restricted e = (if e = word_of_int EPERM \<or> e = word_of_int EACCES then Policy_restricted else Unavailable)"

record isolated_probes =
  drops_capabilities :: bool
  filesystem_failure :: "mount_setup_failure option"
  denied_failure :: "network_setup_failure option"
  loopback_failure :: "network_setup_failure option"

definition isolated_probes_of ::
  "(int \<Rightarrow> string) \<Rightarrow> 'k kernel \<Rightarrow> 'k world \<Rightarrow> (isolated_probes outcome \<times> 'k world) option" where
  "isolated_probes_of errstr K w =
     then_probe (probe_capability_drop K w) (\<lambda>cd w.
     then_probe (probe_isolated_filesystem errstr K w) (\<lambda>fs w.
     then_probe (probe_network_policy K Network_denied w) (\<lambda>dn w.
     then_probe (probe_network_policy K Network_loopback_only w) (\<lambda>lo w.
     Some (Returned \<lparr>drops_capabilities = cd, filesystem_failure = fs, denied_failure = dn, loopback_failure = lo\<rparr>, w)))))"

definition mount_state :: "isolated_probes \<Rightarrow> capability_state" where
  "mount_state i = (case filesystem_failure i of None \<Rightarrow> Available | Some f \<Rightarrow> restricted (mount_error f))"

definition network_state :: "network_setup_failure option \<Rightarrow> capability_state" where
  "network_state x = (case x of None \<Rightarrow> Available | Some f \<Rightarrow> restricted (network_error f))"

definition mount_diagnostic :: "(int \<Rightarrow> string) \<Rightarrow> isolated_probes \<Rightarrow> string" where
  "mount_diagnostic errstr i =
     (case filesystem_failure i of
        None \<Rightarrow> ''private descriptor-oriented root and resource mounts are available''
      | Some f \<Rightarrow> errno_message errstr (mount_stage_name (mount_stage f)) (sint (mount_error f)))"

definition network_diagnostic :: "(int \<Rightarrow> string) \<Rightarrow> network_setup_failure option \<Rightarrow> string" where
  "network_diagnostic errstr x =
     (case x of
        None \<Rightarrow> ''private network policy realization is available''
      | Some f \<Rightarrow> errno_message errstr (network_stage_name (network_stage f)) (sint (network_error f)))"

definition isolated_guarantees :: "probe_basis \<Rightarrow> isolated_probes \<Rightarrow> guarantees" where
  "isolated_guarantees b i =
     add_resource_limit_guarantees
       ([G_closed_environment, G_fixed_credentials, G_complete_stdout_capture, G_complete_stderr_capture] @
        (if descriptor_execution b then [G_exact_interpreter] else []) @
        (if filesystem_failure i = None \<and> drops_capabilities i
         then [G_root_view, G_read_only_resources, G_writable_resources] else []) @
        (if containment b \<and> filesystem_failure i = None then [G_cleanup_verified] else []) @
        (if pidfd_cancellation b then [G_cancellation] else []))
       (limit_probes b) @
     (if containment b \<and> drops_capabilities i \<and> denied_failure i = None then [G_network_denied] else []) @
     (if containment b \<and> drops_capabilities i \<and> loopback_failure i = None then [G_loopback_isolated] else [])"

record isolated_features =
  feature_close_range :: bool
  feature_pidfd :: bool
  feature_openat2 :: bool
  feature_user_namespace :: capability_state
  feature_pid_namespace :: capability_state
  feature_landlock :: capability_state
  feature_cgroup :: capability_state

definition isolated_features_of :: "'k kernel \<Rightarrow> 'k world \<Rightarrow> (isolated_features outcome \<times> 'k world) option" where
  "isolated_features_of K w =
     then_probe (plain (probe_close_range K w)) (\<lambda>cr w.
     then_probe (plain (probe_pidfd K w)) (\<lambda>pf w.
     then_probe (plain (probe_openat2 K w)) (\<lambda>oa w.
     then_probe (namespace_state K CLONE_NEWUSER w) (\<lambda>un w.
     then_probe (namespace_state K CLONE_NEWPID w) (\<lambda>pn w.
     then_probe (plain (landlock_state K w)) (\<lambda>ll w.
     then_probe (plain (cgroup_state K w)) (\<lambda>cg w.
     Some (Returned \<lparr>feature_close_range = cr, feature_pidfd = pf, feature_openat2 = oa, feature_user_namespace = un,
       feature_pid_namespace = pn, feature_landlock = ll, feature_cgroup = cg\<rparr>, w))))))))"

definition isolated_observations ::
  "(int \<Rightarrow> string) \<Rightarrow> probe_basis \<Rightarrow> isolated_probes \<Rightarrow> isolated_features \<Rightarrow> capability_observation list" where
  "isolated_observations errstr b i f =
     add_resource_limit_observations
       [observe Cap_process_supervision Available [],
        observe Cap_closed_environment Available [],
        observe Cap_current_root_view (if filesystem_failure i = None then Available else mount_state i)
          (if filesystem_failure i = None then ''the exact supplied root view is cloned read-only'' else mount_diagnostic errstr i),
        observe Cap_current_credentials Available (''only the supervisor'' @ [CHR 0x27] @ ''s current numeric credentials are admitted''),
        observe Cap_writable_resources (if filesystem_failure i = None then Available else mount_state i) (mount_diagnostic errstr i),
        observe Cap_complete_stream_capture Available [],
        observe Cap_process_group_containment (availability (containment b)) [],
        observe Cap_no_new_privileges (availability (containment b)) [],
        observe Cap_descriptor_execution (availability (descriptor_execution b)) [],
        observe Cap_close_range (availability (feature_close_range f)) [],
        observe Cap_pidfd (availability (feature_pidfd f)) [],
        observe Cap_pidfd_cancellation (availability (pidfd_cancellation b)) (cancellation_diagnostic (pidfd_cancellation b)),
        observe Cap_mount_namespace (mount_state i) (mount_diagnostic errstr i),
        observe Cap_private_mount_propagation (mount_state i) (mount_diagnostic errstr i),
        observe Cap_openat2 (availability (feature_openat2 f)) [],
        observe Cap_open_tree (mount_state i) (mount_diagnostic errstr i),
        observe Cap_move_mount (mount_state i) (mount_diagnostic errstr i),
        observe Cap_mount_setattr (mount_state i) (mount_diagnostic errstr i),
        observe Cap_chroot (mount_state i) (mount_diagnostic errstr i),
        observe Cap_capability_drop (availability (drops_capabilities i)) [],
        observe Cap_user_namespace (feature_user_namespace f) ''observed only; isolated backend does not create a user namespace'',
        observe Cap_pid_namespace (feature_pid_namespace f) [],
        observe Cap_network_namespace (network_state (denied_failure i)) (network_diagnostic errstr (denied_failure i)),
        observe Cap_landlock (feature_landlock f) [],
        observe Cap_cgroup_v2 (feature_cgroup f) [],
        observe Cap_loopback_configuration (network_state (loopback_failure i)) (network_diagnostic errstr (loopback_failure i))]
       (limit_probes b)"

definition probe_isolated ::
  "(int \<Rightarrow> string) \<Rightarrow> 'c evp \<Rightarrow> ('b, 'p) profiles \<Rightarrow> 'k kernel \<Rightarrow> bool \<Rightarrow> 'k world \<Rightarrow>
   ((error + 'p capability_report) outcome \<times> 'k world) option" where
  "probe_isolated errstr E P K supp w =
     then_probe (probe_basis_of K supp w) (\<lambda>b w.
     then_probe (isolated_probes_of errstr K w) (\<lambda>i w.
     then_probe (isolated_features_of K w) (\<lambda>f w.
     Some (Returned (seal_report E P ''isolated-filesystem'' (isolated_guarantees b i) (isolated_observations errstr b i f)), w))))"

subsection \<open>Looking up a state\<close>

definition state :: "'p capability_report \<Rightarrow> capability_kind \<Rightarrow> error + capability_state" where
  "state r k =
     (case find (\<lambda>obs. observed_capability obs = k) (observations r) of
        None \<Rightarrow> Inl (Error Invalid_value ''unknown capability observation'')
      | Some obs \<Rightarrow> Inr (observed_state obs))"

section \<open>Making the backends\<close>

definition make_backend ::
  "('b, 'p) profiles \<Rightarrow> 'i interpreter_binding list \<Rightarrow> error + 'p capability_report \<Rightarrow> error + 'i backend" where
  "make_backend P bs report =
     bind_result report (\<lambda>r. Inr \<lparr>offered_guarantees = guarantees_of P (profile r), interpreters = bs\<rparr>)"

text \<open>\<open>host_supervisor_backend::make\<close> and \<open>isolated_backend::make\<close>.\<close>

definition make_host ::
  "'c evp \<Rightarrow> ('b, 'p) profiles \<Rightarrow> 'k kernel \<Rightarrow> bool \<Rightarrow> ('i :: linorder) interpreter_binding list \<Rightarrow> 'k world \<Rightarrow>
   ((error + 'i backend) outcome \<times> 'k world) option" where
  "make_host E P K supp bs w =
     (case admit_interpreters bs of
        Inl e \<Rightarrow> Some (Returned (Inl e), w)
      | Inr bs \<Rightarrow> then_probe (probe E P K supp w) (\<lambda>r w. Some (Returned (make_backend P bs r), w)))"

definition make_isolated ::
  "(int \<Rightarrow> string) \<Rightarrow> 'c evp \<Rightarrow> ('b, 'p) profiles \<Rightarrow> 'k kernel \<Rightarrow> bool \<Rightarrow> ('i :: linorder) interpreter_binding list \<Rightarrow> 'k world \<Rightarrow>
   ((error + 'i backend) outcome \<times> 'k world) option" where
  "make_isolated errstr E P K supp bs w =
     (case admit_interpreters bs of
        Inl e \<Rightarrow> Some (Returned (Inl e), w)
      | Inr bs \<Rightarrow> then_probe (probe_isolated errstr E P K supp w) (\<lambda>r w. Some (Returned (make_backend P bs r), w)))"

section \<open>Guarantees and observations agree\<close>

lemma then_probe_Returned:
  assumes "then_probe m f = Some (Returned y, w')"
  obtains a v where "m = Some (Returned a, v)" "f a v = Some (Returned y, w')"
proof -
  from assms obtain x v where m: "m = Some (x, v)" by (auto simp: then_probe_def bind_eq_Some_conv)
  with assms that show ?thesis by (cases x) (auto simp: then_probe_def)
qed

lemma seal_report_Inr:
  assumes "seal_report E P name gs os = Inr r"
  obtains b where "r = \<lparr>profile = seal P b gs, observations = os\<rparr>"
  using assms that by (auto simp: seal_report_def bind_result_def split: sum.split_asm)

text \<open>Cancellation is probed only where the process group can be contained.\<close>

lemma probe_basis_cancellation:
  assumes "probe_basis_of K supp w = Some (Returned b, w')"
  shows "pidfd_cancellation b \<longrightarrow> containment b"
  using assms unfolding probe_basis_of_def
  by (elim then_probe_Returned) (auto split: if_split_asm)

lemma probe_report:
  assumes "probe E P K supp w = Some (Returned (Inr r), w')"
  obtains b h i where "r = \<lparr>profile = seal P i (host_guarantees b), observations = host_observations b h\<rparr>"
    "pidfd_cancellation b \<longrightarrow> containment b"
  using assms that unfolding probe_def
  by (elim then_probe_Returned) (auto elim!: seal_report_Inr dest: probe_basis_cancellation)

lemma probe_isolated_report:
  assumes "probe_isolated errstr E P K supp w = Some (Returned (Inr r), w')"
  obtains b i f j where
    "r = \<lparr>profile = seal P j (isolated_guarantees b i), observations = isolated_observations errstr b i f\<rparr>"
    "pidfd_cancellation b \<longrightarrow> containment b"
  using assms that unfolding probe_isolated_def
  by (elim then_probe_Returned) (auto elim!: seal_report_Inr dest: probe_basis_cancellation)

text \<open>
  Which observations a guarantee stands for. Networking is confined only by the isolated backend, whatever
  the host observes of network namespaces.
\<close>

definition consistent :: "bool \<Rightarrow> execution_guarantee set \<Rightarrow> (capability_kind \<Rightarrow> bool) \<Rightarrow> bool" where
  "consistent isolated gs available \<longleftrightarrow>
     (G_exact_interpreter \<in> gs \<longleftrightarrow> available Cap_descriptor_execution) \<and>
     (G_cleanup_verified \<in> gs \<longleftrightarrow> available Cap_process_group_containment \<and> (isolated \<longrightarrow> available Cap_mount_namespace)) \<and>
     (G_cancellation \<in> gs \<longleftrightarrow> available Cap_pidfd_cancellation) \<and>
     (G_cancellation \<in> gs \<longrightarrow> available Cap_process_group_containment) \<and>
     (G_root_view \<in> gs \<longleftrightarrow> available Cap_current_root_view \<and> (isolated \<longrightarrow> available Cap_capability_drop)) \<and>
     (G_writable_resources \<in> gs \<longleftrightarrow> available Cap_writable_resources \<and> (isolated \<longrightarrow> available Cap_capability_drop)) \<and>
     (G_read_only_resources \<in> gs \<longleftrightarrow> isolated \<and> available Cap_mount_setattr \<and> available Cap_capability_drop) \<and>
     (G_address_space_limit \<in> gs \<longleftrightarrow> available Cap_address_space_limit) \<and>
     (G_file_size_limit \<in> gs \<longleftrightarrow> available Cap_file_size_limit) \<and>
     (G_open_files_limit \<in> gs \<longleftrightarrow> available Cap_open_files_limit) \<and>
     (G_resource_limits \<in> gs \<longleftrightarrow>
        available Cap_address_space_limit \<or> available Cap_file_size_limit \<or> available Cap_open_files_limit) \<and>
     (G_network_denied \<in> gs \<longleftrightarrow> isolated \<and> available Cap_process_group_containment \<and> available Cap_capability_drop \<and>
        available Cap_network_namespace) \<and>
     (G_loopback_isolated \<in> gs \<longleftrightarrow> isolated \<and> available Cap_process_group_containment \<and> available Cap_capability_drop \<and>
        available Cap_loopback_configuration)"

lemma availability_simps [simp]: "availability b = Available \<longleftrightarrow> b"
  by (simp add: availability_def)

lemma restricted_neq [simp]: "restricted e \<noteq> Available"
  by (simp add: restricted_def)

lemma states_available [simp]:
  "mount_state i = Available \<longleftrightarrow> filesystem_failure i = None" "network_state x = Available \<longleftrightarrow> x = None"
  by (simp_all add: mount_state_def network_state_def split: option.split)

lemma host_consistent:
  assumes "pidfd_cancellation b \<longrightarrow> containment b"
  shows "consistent False (set (host_guarantees b))
    (\<lambda>k. state \<lparr>profile = p, observations = host_observations b h\<rparr> k = Inr Available)"
  using assms
  by (simp add: consistent_def state_def host_observations_def host_guarantees_def add_resource_limit_observations_def
      add_resource_limit_guarantees_def observe_def)

lemma isolated_consistent:
  assumes "pidfd_cancellation b \<longrightarrow> containment b"
  shows "consistent True (set (isolated_guarantees b i))
    (\<lambda>k. state \<lparr>profile = p, observations = isolated_observations errstr b i f\<rparr> k = Inr Available)"
  using assms
  by (simp add: consistent_def state_def isolated_observations_def isolated_guarantees_def add_resource_limit_observations_def
      add_resource_limit_guarantees_def observe_def)

lemma observed_kinds:
  "map observed_capability (host_observations b h) = capability_kinds"
  "map observed_capability (isolated_observations errstr b i f) = capability_kinds"
  by (simp_all add: host_observations_def isolated_observations_def add_resource_limit_observations_def observe_def capability_kinds_def)

lemma report_consistency:
  assumes "(if isolated then probe_isolated errstr E P K supp w else probe E P K supp w) = Some (Returned (Inr r), w')"
    and "\<And>b gs. set (guarantees_of P (seal P b gs)) = set gs"
  shows "map observed_capability (observations r) = capability_kinds \<and>
    consistent isolated (set (guarantees_of P (profile r))) (\<lambda>k. state r k = Inr Available)"
proof (cases isolated)
  case True
  with assms(1) have "probe_isolated errstr E P K supp w = Some (Returned (Inr r), w')" by simp
  then obtain b i f j where "r = \<lparr>profile = seal P j (isolated_guarantees b i), observations = isolated_observations errstr b i f\<rparr>"
    "pidfd_cancellation b \<longrightarrow> containment b" by (rule probe_isolated_report)
  with isolated_consistent observed_kinds(2) True assms(2) show ?thesis by simp
next
  case False
  with assms(1) have "probe E P K supp w = Some (Returned (Inr r), w')" by simp
  then obtain b h i where "r = \<lparr>profile = seal P i (host_guarantees b), observations = host_observations b h\<rparr>"
    "pidfd_cancellation b \<longrightarrow> containment b" by (rule probe_report)
  with host_consistent observed_kinds(1) False assms(2) show ?thesis by simp
qed


section \<open>Concrete reports\<close>

text \<open>A parent whose probe children exit with status zero, and a kernel that refuses every call.\<close>

definition forking :: "unit kernel" where
  "forking c k = (if c = Proc Fork then num_reply 77 else ok_reply, ())"

definition refusing :: "unit kernel" where
  "refusing c k = (err_reply EPERM, ())"

definition plain_profiles :: "(unit, guarantees) profiles" where
  "plain_profiles = \<lparr>identity_from_sha256 = (\<lambda>h. ()), seal = (\<lambda>b gs. gs), guarantees_of = (\<lambda>p. p)\<rparr>"

lemmas probe_simps = then_probe_def plain_def probe_basis_of_def probe_process_group_containment_def fork_probe_def
  waitpid_retry_def retry_eintr.simps probe_descriptor_execution_def probe_pidfd_cancellation_def probe_resource_limits_def
  probe_address_space_limit_def probe_file_size_limit_def probe_open_files_limit_def probe_one_def seal_report_def backend_identity_def
  sha256_hex_def digest_start_def update_def digest_finish_def bind_result_def blank_digests_def plain_profiles_def
  probe_close_range_def probe_pidfd_def open_pidfd_def namespace_state_def probe_openat2_def probe_capability_drop_def landlock_state_def
  cgroup_state_def reset_fd_def invoke_def syscall_def start_world_def set_errno_def ok_reply_def num_reply_def err_reply_def
  reply_status_def errno_defs

lemma host_report:
  "\<exists>r w'. probe blank_digests plain_profiles forking True (start_world ()) = Some (Returned (Inr r), w') \<and>
     G_cleanup_verified \<in> set (profile r)"
  by (simp add: probe_def host_probes_of_def probe_simps forking_def host_guarantees_def add_resource_limit_guarantees_def
      cancellation_probe_parent_def abandon_probe_child_def cong: run_congs)

lemma isolated_report:
  "\<exists>r w'. probe_isolated (\<lambda>e. []) blank_digests plain_profiles refusing True (start_world ()) = Some (Returned (Inr r), w') \<and>
     G_root_view \<notin> set (profile r)"
  by (simp add: probe_isolated_def isolated_probes_of_def isolated_features_of_def probe_simps refusing_def isolated_guarantees_def
      add_resource_limit_guarantees_def probe_isolated_filesystem_def probe_network_policy_def open_exact_path_def bytes_of_string_def mount_failure_def Let_def cong: run_congs)


end
