(* ===== verification/Supervisor_Liveness.thy ===== *)
theory Supervisor_Liveness
  imports Supervisor
begin

text \<open>
  The supervision loop of \<open>execute_backend\<close> returns. Its blocks repeat interrupted calls, read pipes until they are
  dry and scan the process table; every one of these loops is a partial function, and here each is shown to end,
  then the rounds of supervision themselves, under named assumptions on the kernel.
\<close>


section \<open>Total correctness of operations that may not return\<close>

text \<open>
  The operation returns, and its result satisfies the postcondition. Every rule follows the shape of a
  definition.
\<close>

definition wp :: "'a option \<Rightarrow> ('a \<Rightarrow> bool) \<Rightarrow> bool" where
  "wp m Q \<longleftrightarrow> (\<exists>y. m = Some y \<and> Q y)"

named_theorems wp_intros "total correctness rules"

lemma wp_Some [simp]: "wp (Some y) Q \<longleftrightarrow> Q y"
  by (simp add: wp_def)

lemma wp_bind: "wp m P \<Longrightarrow> (\<And>y. P y \<Longrightarrow> wp (f y) Q) \<Longrightarrow> wp (Option.bind m f) Q"
  by (auto simp: wp_def)

lemma wp_mono: "wp m P \<Longrightarrow> (\<And>y. P y \<Longrightarrow> Q y) \<Longrightarrow> wp m Q"
  by (auto simp: wp_def)

lemma wp_result: "wp m Q \<Longrightarrow> m = Some y \<Longrightarrow> Q y"
  by (simp add: wp_def)

lemma wp_returns: "wp m Q \<Longrightarrow> \<exists>y. m = Some y"
  by (auto simp: wp_def)

text \<open>A property of the state of the kernel that no call invalidates.\<close>

definition lasting :: "'k kernel \<Rightarrow> ('k \<Rightarrow> bool) \<Rightarrow> bool" where
  "lasting K I \<longleftrightarrow> (\<forall>c k r k'. K c k = (r, k') \<longrightarrow> I k \<longrightarrow> I k')"

lemma lasting_invoke: "lasting K I \<Longrightarrow> invoke K c w = (r, w') \<Longrightarrow> I (kern w) \<Longrightarrow> I (kern w')"
  unfolding lasting_def by (blast dest: invokeD(1))

lemma lasting_syscall: "lasting K I \<Longrightarrow> syscall K c w = (n, w') \<Longrightarrow> I (kern w) \<Longrightarrow> I (kern w')"
  unfolding lasting_def by (blast elim: syscallD)

lemma lasting_snd [simp]:
  "lasting K I \<Longrightarrow> I (kern w) \<Longrightarrow> I (kern (snd (invoke K c w)))"
  "lasting K I \<Longrightarrow> I (kern w) \<Longrightarrow> I (kern (snd (syscall K c w)))"
  "lasting K I \<Longrightarrow> I (kern w) \<Longrightarrow> I (kern (reset_fd K fd w))"
  by (auto simp: reset_fd_def intro: lasting_invoke lasting_syscall prod.collapse [symmetric])

lemma lasting_conj: "lasting K I \<Longrightarrow> lasting K J \<Longrightarrow> lasting K (\<lambda>k. I k \<and> J k)"
  unfolding lasting_def by blast

section \<open>Live kernels\<close>

text \<open>
  What is assumed of the kernel and of the processes it runs. \<open>events\<close> bounds what can still happen before
  the child has exited and the writers of the pipes are gone: an interrupted call, data that is read and a round of polling
  use an event up. When no event is left, an exit is reported and a read finds no data to wait for.
  \<open>entries\<close> bounds the rest of an open directory, and \<open>clock\<close> is the steady clock, which advances during a poll.
\<close>

definition live_kernel :: "'k kernel \<Rightarrow> ('k \<Rightarrow> nat) \<Rightarrow> ('k \<Rightarrow> nat) \<Rightarrow> ('k \<Rightarrow> int) \<Rightarrow> bool" where
  "live_kernel K events entries clock \<longleftrightarrow> (\<forall>c k r k'. K c k = (r, k') \<longrightarrow>
     events k' \<le> events k \<and> clock k \<le> clock k' \<and>
     (ret r < 0 \<and> err r = EINTR \<longrightarrow> events k' < events k) \<and>
     (case c of
        Ctl Clock_now \<Rightarrow> clock k \<le> ret r \<and> ret r \<le> clock k'
      | Dir (Readdir d) \<Rightarrow> ret r > 0 \<longrightarrow> entries k' < entries k
      | Fd (Read fd n) \<Rightarrow> (ret r > 0 \<longrightarrow> events k' < events k) \<and> (events k = 0 \<and> ret r < 0 \<longrightarrow> err r \<noteq> EAGAIN)
      | Fd (Poll fds t) \<Rightarrow> (events k > 0 \<longrightarrow> events k' < events k) \<and> clock k < clock k'
      | Proc (Waitid_pid p fl) \<Rightarrow> events k = 0 \<longrightarrow> ret r = 0 \<and> si_pid (reply_siginfo r) \<noteq> 0
      | Proc (Waitid_pidfd fd fl) \<Rightarrow> events k = 0 \<longrightarrow> ret r = 0 \<and> si_pid (reply_siginfo r) \<noteq> 0
      | _ \<Rightarrow> True))"

lemma live_kernelD:
  assumes "live_kernel K E N C" "K c k = (r, k')"
  shows "E k' \<le> E k" "C k \<le> C k'" "ret r < 0 \<Longrightarrow> err r = EINTR \<Longrightarrow> E k' < E k"
    "c = Ctl Clock_now \<Longrightarrow> C k \<le> ret r \<and> ret r \<le> C k'"
    "c = Dir (Readdir d) \<Longrightarrow> ret r > 0 \<Longrightarrow> N k' < N k"
    "c = Fd (Read fd n) \<Longrightarrow> ret r > 0 \<Longrightarrow> E k' < E k"
    "c = Fd (Read fd n) \<Longrightarrow> ret r < 0 \<Longrightarrow> err r = EAGAIN \<Longrightarrow> 0 < E k"
    "c = Fd (Poll fds t) \<Longrightarrow> E k > 0 \<Longrightarrow> E k' < E k" "c = Fd (Poll fds t) \<Longrightarrow> C k < C k'"
    "c = Proc (Waitid_pid p fl) \<Longrightarrow> E k = 0 \<Longrightarrow> ret r = 0 \<and> si_pid (reply_siginfo r) \<noteq> 0"
    "c = Proc (Waitid_pidfd fd fl) \<Longrightarrow> E k = 0 \<Longrightarrow> ret r = 0 \<and> si_pid (reply_siginfo r) \<noteq> 0"
proof -
  from assms have l: "E k' \<le> E k \<and> C k \<le> C k' \<and>
     (ret r < 0 \<and> err r = EINTR \<longrightarrow> E k' < E k) \<and>
     (case c of
        Ctl Clock_now \<Rightarrow> C k \<le> ret r \<and> ret r \<le> C k'
      | Dir (Readdir d) \<Rightarrow> ret r > 0 \<longrightarrow> N k' < N k
      | Fd (Read fd n) \<Rightarrow> (ret r > 0 \<longrightarrow> E k' < E k) \<and> (E k = 0 \<and> ret r < 0 \<longrightarrow> err r \<noteq> EAGAIN)
      | Fd (Poll fds t) \<Rightarrow> (E k > 0 \<longrightarrow> E k' < E k) \<and> C k < C k'
      | Proc (Waitid_pid p fl) \<Rightarrow> E k = 0 \<longrightarrow> ret r = 0 \<and> si_pid (reply_siginfo r) \<noteq> 0
      | Proc (Waitid_pidfd fd fl) \<Rightarrow> E k = 0 \<longrightarrow> ret r = 0 \<and> si_pid (reply_siginfo r) \<noteq> 0
      | _ \<Rightarrow> True)" unfolding live_kernel_def by blast
  then show "E k' \<le> E k" "C k \<le> C k'" "ret r < 0 \<Longrightarrow> err r = EINTR \<Longrightarrow> E k' < E k" by simp_all
  from l show "c = Ctl Clock_now \<Longrightarrow> C k \<le> ret r \<and> ret r \<le> C k'"
    "c = Dir (Readdir d) \<Longrightarrow> ret r > 0 \<Longrightarrow> N k' < N k"
    "c = Fd (Read fd n) \<Longrightarrow> ret r > 0 \<Longrightarrow> E k' < E k"
    "c = Fd (Read fd n) \<Longrightarrow> ret r < 0 \<Longrightarrow> err r = EAGAIN \<Longrightarrow> 0 < E k"
    "c = Fd (Poll fds t) \<Longrightarrow> E k > 0 \<Longrightarrow> E k' < E k" "c = Fd (Poll fds t) \<Longrightarrow> C k < C k'"
    "c = Proc (Waitid_pid p fl) \<Longrightarrow> E k = 0 \<Longrightarrow> ret r = 0 \<and> si_pid (reply_siginfo r) \<noteq> 0"
    "c = Proc (Waitid_pidfd fd fl) \<Longrightarrow> E k = 0 \<Longrightarrow> ret r = 0 \<and> si_pid (reply_siginfo r) \<noteq> 0" by auto
qed

lemma live_lasting:
  assumes "live_kernel K E N C"
  shows "lasting K (\<lambda>k. E k \<le> m)" "lasting K (\<lambda>k. t \<le> C k)"
  unfolding lasting_def using live_kernelD(1,2) [OF assms] order_trans by blast+

text \<open>An interrupted call is repeated only finitely often.\<close>

lemma retry_eintr_ends:
  assumes live: "live_kernel K E N C" and st: "lasting K I"
  shows "I (kern w) \<Longrightarrow> wp (retry_eintr K c w) (\<lambda>(r, w'). I (kern w') \<and> (\<exists>k. I k \<and> K c k = (r, kern w')))"
proof (induction "E (kern w)" arbitrary: w rule: less_induct)
  case less
  obtain r w1 where i: "invoke K c w = (r, w1)" by fastforce
  note k = invokeD(1) [OF i] and I1 = lasting_invoke [OF st i less.prems]
  from less.hyps [OF _ I1] live_kernelD(3) [OF live k] less.prems I1 k show ?case
    by (subst retry_eintr_unfold [OF i]) auto
qed

section \<open>The scan of the process table\<close>

lemma process_ids_loop_ends:
  assumes live: "live_kernel K E N C" and st: "lasting K I"
  shows "I (kern w) \<Longrightarrow> wp (process_ids_loop K d ps w) (\<lambda>(_, w'). I (kern w'))"
proof (induction "N (kern w)" arbitrary: w ps rule: less_induct)
  case less
  obtain r w1 where i: "invoke K (Dir (Readdir d)) w = (r, w1)" by fastforce
  note k = invokeD(1) [OF i] and I1 = lasting_invoke [OF st i less.prems]
  have s: "kern (snd (strtol_digits n (set_errno 0 w1))) = kern w1" for n
    by (simp add: strtol_digits_def Let_def)
  from less.hyps live_kernelD(5) [OF live k] I1 s show ?case
    by (subst process_ids_loop.simps) (simp add: i Let_def case_prod_beta)
qed

lemma process_ids_ends:
  assumes "live_kernel K E N C" "lasting K I" "I (kern w)"
  shows "wp (process_ids K w) (\<lambda>(_, w'). I (kern w'))"
  using assms
  by (auto simp: process_ids_def case_prod_beta Let_def intro!: wp_bind [OF process_ids_loop_ends [OF assms(1,2)]])

lemma process_group_of_lasting [simp]: "lasting K I \<Longrightarrow> I (kern w) \<Longrightarrow> I (kern (snd (process_group_of K p w)))"
  by (simp add: process_group_of_def case_prod_beta)

lemma signal_member_lasting [simp]: "lasting K I \<Longrightarrow> I (kern w) \<Longrightarrow> I (kern (snd (signal_member K g l sig p ok w)))"
  by (simp add: signal_member_def open_pidfd_def send_pidfd_signal_def case_prod_beta Let_def)

lemma signal_members_lasting [simp]: "lasting K I \<Longrightarrow> I (kern w) \<Longrightarrow> I (kern (snd (signal_members K g l sig ps ok w)))"
  by (induction ps arbitrary: ok w) (simp_all add: case_prod_beta)

lemma find_member_lasting [simp]: "lasting K I \<Longrightarrow> I (kern w) \<Longrightarrow> I (kern (snd (find_member K g l ps w)))"
  by (induction ps arbitrary: w) (simp_all add: case_prod_beta)

lemma signal_process_group_members_ends:
  assumes "live_kernel K E N C" "lasting K I" "I (kern w)"
  shows "wp (signal_process_group_members K g l fd sig w) (\<lambda>(_, w'). I (kern w'))"
  using assms
  by (auto simp: signal_process_group_members_def send_pidfd_signal_def case_prod_beta Let_def
      intro!: wp_bind [OF process_ids_ends [OF assms]] split: option.split)

text \<open>Without a timeout one scan decides: the clock has not gone back.\<close>

lemma wait_gone_ends:
  fixes K :: "'k kernel"
  assumes live: "live_kernel K E N C" and st: "lasting K I" and I: "I (kern w)"
  shows "wp (wait_process_group_members_gone K g l 0 w) (\<lambda>(_, w'). I (kern w'))"
proof -
  obtain now w1 where c: "syscall K (Ctl Clock_now) w = (now, w1)" by fastforce
  then have t: "now \<le> C (kern w1)" by (auto elim!: syscallD dest!: live_kernelD(4) [OF live])
  note st2 = lasting_conj [OF st live_lasting(2) [OF live, of now]]
  have J: "I (kern w1) \<and> now \<le> C (kern w1)" using lasting_syscall [OF st c I] t by simp
  have "wp (wait_members_loop K g l now w1) (\<lambda>(_, w'). I (kern w'))"
  proof (subst wait_members_loop.simps, rule wp_bind [OF process_ids_ends [OF live st2 J]], clarify)
    fix ps and v :: "'k world" assume v: "I (kern v)" "now \<le> C (kern v)"
    show "wp (case ps of None \<Rightarrow> Some (False, v) | Some ps \<Rightarrow>
        let (found, w) = find_member K g l ps v in
        if \<not> found then Some (True, w)
        else let (now', w) = syscall K (Ctl Clock_now) w in
          if now' \<ge> now then Some (False, w)
          else let (_, w) = syscall K (Ctl (Sleep_ms 10)) w in wait_members_loop K g l now w) (\<lambda>(_, w'). I (kern w'))"
    proof (cases ps)
      case (Some q)
      obtain found v1 where f: "find_member K g l q v = (found, v1)" by fastforce
      have v1: "I (kern v1) \<and> now \<le> C (kern v1)"
        using find_member_lasting [OF st2, of v g l q] v f by simp
      obtain n v2 where n: "syscall K (Ctl Clock_now) v1 = (n, v2)" by fastforce
      then have "C (kern v1) \<le> n" by (auto elim!: syscallD dest!: live_kernelD(4) [OF live])
      with v1 lasting_syscall [OF st n] show ?thesis by (simp add: Some f n)
    qed (simp add: v)
  qed
  with c show ?thesis by (simp add: wait_process_group_members_gone_def milliseconds_def)
qed

section \<open>The blocks return\<close>

lemma signal_group_ends:
  assumes "live_kernel K E N C" "lasting K I" "I (kern w)"
  shows "wp (signal_group K ctx sig s w) (\<lambda>(_, _, w'). I (kern w'))"
  unfolding signal_group_def by (rule wp_bind [OF signal_process_group_members_ends [OF assms]]) auto

lemma waitpid_retry_ends:
  assumes "live_kernel K E N C" "lasting K I" "I (kern w)"
  shows "wp (waitpid_retry K p w) (\<lambda>(_, _, w'). I (kern w'))"
  unfolding waitpid_retry_def by (rule wp_bind [OF retry_eintr_ends [OF assms]]) auto

lemma observe_exit_ends:
  assumes "live_kernel K E N C" "lasting K I" "I (kern w)"
  shows "wp (observe_exit K ctx s w) (\<lambda>(_, w'). I (kern w'))"
proof -
  have "wp (observe_child_exit K (child_pid ctx) (pidfd ctx) w) (\<lambda>(_, _, w'). I (kern w'))"
    unfolding observe_child_exit_def by (rule wp_bind [OF retry_eintr_ends [OF assms]]) auto
  then show ?thesis using assms(3) unfolding observe_exit_def by (auto elim!: wp_bind)
qed

lemma observe_cancellation_lasting [simp]:
  "lasting K I \<Longrightarrow> I (kern w) \<Longrightarrow> I (kern (snd (observe_cancellation K ctx s w)))"
  by (simp add: observe_cancellation_def case_prod_beta Let_def)

lemma release_start_ends:
  assumes live: "live_kernel K E N C" "lasting K I" and I: "I (kern w)"
  shows "wp (release_start K ctx s w) (\<lambda>(_, w'). I (kern w'))"
proof -
  have w1: "I (kern (snd (observe_cancellation K ctx s w)))" using assms by simp
  have "wp (write_start K fd v) (\<lambda>(_, w'). I (kern w'))" if "I (kern v)" for fd v
    unfolding write_start_def by (rule wp_bind [OF retry_eintr_ends [OF live that]]) (use live in auto)
  with w1 I show ?thesis unfolding release_start_def by (auto simp: case_prod_beta Let_def intro!: wp_bind)
qed

lemma send_cancellation_signal_ends:
  assumes "live_kernel K E N C" "lasting K I" "I (kern w)"
  shows "wp (send_cancellation_signal K ctx s w) (\<lambda>(_, w'). I (kern w'))"
  using assms unfolding send_cancellation_signal_def
  by (auto simp: case_prod_beta Let_def intro!: wp_bind [OF signal_group_ends [OF assms]])

lemma force_cancellation_ends:
  assumes "live_kernel K E N C" "lasting K I" "I (kern w)"
  shows "wp (force_cancellation K ctx now s w) (\<lambda>(_, w'). I (kern w'))"
  using assms unfolding force_cancellation_def by (auto intro!: wp_bind [OF signal_group_ends [OF assms]])

lemma start_cleanup_ends:
  assumes "live_kernel K E N C" "lasting K I" "I (kern w)"
  shows "wp (start_cleanup K ctx now s w) (\<lambda>(_, w'). I (kern w'))"
  using assms unfolding start_cleanup_def Let_def by (auto intro!: wp_bind [OF signal_group_ends [OF assms]])

lemma cleanup_overdue_ends:
  assumes "live_kernel K E N C" "lasting K I" "I (kern w)"
  shows "wp (cleanup_overdue K ctx now s w) (\<lambda>(_, w'). I (kern w'))"
  unfolding cleanup_overdue_def by (rule wp_bind [OF signal_group_ends [OF assms]]) auto

lemma continue_cleanup_ends:
  assumes live: "live_kernel K E N C" "lasting K I" and I: "I (kern w)"
  shows "wp (continue_cleanup K ctx now s w) (\<lambda>(_, w'). I (kern w'))"
proof -
  have k: "wp (if forced_signal_sent s then do { (_, s, w) \<leftarrow> signal_group K ctx SIGKILL s w; Some (s, w) } else Some (s, w))
      (\<lambda>(_, w'). I (kern w'))"
    using I by (auto intro!: wp_bind [OF signal_group_ends [OF live I]])
  have "wp (do { (gone, w) \<leftarrow> wait_process_group_members_gone K (child_pid ctx) (child_pid ctx) 0 v;
                if gone then Some (s\<lparr>cleanup_complete := True\<rparr>, w)
                else if now \<ge> cleanup_deadline s then cleanup_overdue K ctx now s w
                else Some (s, w) }) (\<lambda>(_, w'). I (kern w'))" if "I (kern v)" for s v
    by (rule wp_bind [OF wait_gone_ends [OF live that]]) (auto intro!: cleanup_overdue_ends [OF live])
  note rest = this
  show ?thesis
  proof (cases "child_exited s \<and> cancellation ctx \<and> cleanup_started s \<and> \<not> cleanup_complete s")
    case True
    show ?thesis unfolding continue_cleanup_def if_P [OF True] by (rule wp_bind [OF k]) (use rest in auto)
  next
    case False
    show ?thesis unfolding continue_cleanup_def if_not_P [OF False] by (simp add: I)
  qed
qed

lemma cleanup_group_lasting [simp]: "lasting K I \<Longrightarrow> I (kern w) \<Longrightarrow> I (kern (snd (cleanup_group K g w)))"
proof -
  assume a: "lasting K I" "I (kern w)"
  have g: "I (kern (snd (group_gone K g v)))" if "I (kern v)" for v
    using a(1) that by (simp add: group_gone_def case_prod_beta Let_def)
  have "I (kern (snd (await_group_gone K g n v)))" if "I (kern v)" for n v
    using that by (induction n arbitrary: v) (simp_all add: case_prod_beta Let_def a(1) g)
  with a g show ?thesis by (simp add: cleanup_group_def case_prod_beta Let_def)
qed

lemma reap_child_ends:
  assumes "live_kernel K E N C" "lasting K I" "I (kern w)"
  shows "wp (reap_child K ctx s w) (\<lambda>(_, w'). I (kern w'))"
  using assms unfolding reap_child_def
  by (auto simp: case_prod_beta Let_def intro!: wp_bind [OF waitpid_retry_ends [OF assms]])

text \<open>Draining ends, and finds the end of the stream once no event is left.\<close>

lemma drain_fd_ends:
  assumes live: "live_kernel K E N C" and st: "lasting K I"
  shows "I (kern w) \<Longrightarrow> wp (drain_fd K fd acc failed w)
    (\<lambda>(fd', _, _, w'). I (kern w') \<and> (fd < 0 \<longrightarrow> fd' < 0) \<and> (E (kern w) = 0 \<longrightarrow> fd' < 0))"
proof (induction "E (kern w)" arbitrary: w acc failed rule: less_induct)
  case less
  obtain r w1 where i: "invoke K (Fd (Read fd 16384)) w = (r, w1)" by fastforce
  note k = invokeD(1) [OF i] and I1 = lasting_invoke [OF st i less.prems] and e = invokeD(3) [OF i]
  note l = live_kernelD(3,6,7) [OF live k]
  have again: "wp (drain_fd K fd a f w1) (\<lambda>(fd', _, _, w'). I (kern w') \<and> (fd < 0 \<longrightarrow> fd' < 0) \<and> (E (kern w) = 0 \<longrightarrow> fd' < 0))"
    if "E (kern w1) < E (kern w)" for a f
    using that by (auto intro: wp_mono [OF less.hyps [OF that I1]])
  show ?case using again l I1 e less.prems st by (cases "ret r" "0 :: int" rule: linorder_cases; subst drain_fd.simps) (auto simp: i)
qed

lemma read_control_ends:
  assumes live: "live_kernel K E N C" and st: "lasting K I"
  shows "I (kern w) \<Longrightarrow> wp (read_control K s w)
    (\<lambda>(s', w'). I (kern w') \<and> (E (kern w) = 0 \<longrightarrow> control_fd s' < 0))"
proof (induction "E (kern w)" arbitrary: w s rule: less_induct)
  case less
  let ?c = "Fd (Read (control_fd s) (sizeof_child_error - length (control_bytes s)))"
  obtain r w1 where i: "invoke K ?c w = (r, w1)" by fastforce
  note k = invokeD(1) [OF i] and I1 = lasting_invoke [OF st i less.prems] and e = invokeD(3) [OF i]
  note l = live_kernelD(3,6,7) [OF live k]
  have again: "wp (read_control K t w1) (\<lambda>(s', w'). I (kern w') \<and> (E (kern w) = 0 \<longrightarrow> control_fd s' < 0))"
    if "E (kern w1) < E (kern w)" for t
    using that by (auto intro: wp_mono [OF less.hyps [OF that I1]])
  show ?case using again l I1 e less.prems st by (cases "ret r" "0 :: int" rule: linorder_cases; subst read_control.simps) (auto simp: i Let_def)
qed

lemma read_ready_ends:
  assumes live: "live_kernel K E N C" and st: "lasting K I"
  shows "I (kern w) \<Longrightarrow> wp (read_ready K s w) (\<lambda>(s', w'). I (kern w') \<and> (E (kern w) = 0 \<longrightarrow> ready_fd s' < 0))"
proof (induction "E (kern w)" arbitrary: w s rule: less_induct)
  case less
  obtain r w1 where i: "invoke K (Fd (Read (ready_fd s) 1)) w = (r, w1)" by fastforce
  note k = invokeD(1) [OF i] and I1 = lasting_invoke [OF st i less.prems] and e = invokeD(3) [OF i]
  note l = live_kernelD(3,6,7) [OF live k]
  have again: "wp (read_ready K t w1) (\<lambda>(s', w'). I (kern w') \<and> (E (kern w) = 0 \<longrightarrow> ready_fd s' < 0))"
    if "E (kern w1) < E (kern w)" for t
    using that by (auto intro: wp_mono [OF less.hyps [OF that I1]])
  show ?case using again l I1 e less.prems st by (cases "ret r" "0 :: int" rule: linorder_cases; subst read_ready.simps) (auto simp: i simp del: One_nat_def)
qed

lemma drain_streams_ends:
  assumes live: "live_kernel K E N C" and st: "lasting K I" and I: "I (kern w)"
  shows "wp (drain_streams K s w)
    (\<lambda>(s', w'). I (kern w') \<and> (E (kern w) = 0 \<longrightarrow> output_fd s' < 0 \<and> error_fd s' < 0))"
proof -
  note st2 = lasting_conj [OF st live_lasting(1) [OF live, of "E (kern w)"]]
  have I2: "I (kern w) \<and> E (kern w) \<le> E (kern w)" using I by simp
  show ?thesis unfolding drain_streams_def Let_def
    by (rule wp_bind [OF drain_fd_ends [OF live st2 I2]], clarsimp)
       (rule wp_bind [OF drain_fd_ends [OF live st]], auto)
qed

section \<open>Progress of a round\<close>

text \<open>
  What the loop has achieved. No block takes any of it back, and the deadline of the cleanup is moved
  only by a block that achieves something.
\<close>

definition achieved :: "supervision \<Rightarrow> bool list" where
  "achieved s = [child_exited s, cleanup_started s, forced_signal_sent s, child_reaped s,
     output_fd s < 0, error_fd s < 0, control_fd s < 0, ready_fd s < 0]"

definition remaining :: "supervision \<Rightarrow> nat" where
  "remaining s = length (filter Not (achieved s))"

definition advances :: "supervision \<Rightarrow> supervision \<Rightarrow> bool" where
  "advances s s' \<longleftrightarrow> list_all2 (\<longrightarrow>) (achieved s) (achieved s') \<and>
     (achieved s' = achieved s \<longrightarrow> cleanup_deadline s' = cleanup_deadline s)"

lemma less_false:
  assumes "list_all2 (\<longrightarrow>) xs ys"
  shows "length (filter Not ys) \<le> length (filter Not xs) \<and> (length (filter Not ys) = length (filter Not xs) \<longrightarrow> ys = xs)"
  using assms by (induction rule: list_all2_induct) auto

lemma advances_remaining:
  assumes "advances s s'"
  shows "remaining s' < remaining s \<or> achieved s' = achieved s \<and> cleanup_deadline s' = cleanup_deadline s"
  using assms less_false [of "achieved s" "achieved s'"] unfolding advances_def remaining_def
  by (auto simp: le_less)

lemma advances_refl [simp]: "advances s s"
  by (simp add: advances_def list_all2_refl)

lemma advances_trans:
  assumes "advances a b" "advances b c"
  shows "advances a c"
proof -
  have l: "list_all2 (\<longrightarrow>) (achieved a) (achieved c)"
    using assms list_all2_trans [of "(\<longrightarrow>)" "(\<longrightarrow>)" "(\<longrightarrow>)" "achieved a" "achieved b" "achieved c"] unfolding advances_def by blast
  show ?thesis unfolding advances_def
  proof (intro conjI impI l)
    assume "achieved c = achieved a"
    then have "remaining c = remaining a" by (simp add: remaining_def)
    moreover have "achieved x = achieved y \<Longrightarrow> remaining x = remaining y" for x y by (simp add: remaining_def)
    ultimately show "cleanup_deadline c = cleanup_deadline a"
      using advances_remaining [OF assms(1)] advances_remaining [OF assms(2)] by (metis less_asym less_irrefl)
  qed
qed

lemma advancesI:
  assumes "child_exited s \<Longrightarrow> child_exited s'" "cleanup_started s \<Longrightarrow> cleanup_started s'"
    "forced_signal_sent s \<Longrightarrow> forced_signal_sent s'" "child_reaped s \<Longrightarrow> child_reaped s'"
    "output_fd s < 0 \<Longrightarrow> output_fd s' < 0" "error_fd s < 0 \<Longrightarrow> error_fd s' < 0"
    "control_fd s < 0 \<Longrightarrow> control_fd s' < 0" "ready_fd s < 0 \<Longrightarrow> ready_fd s' < 0"
    "cleanup_deadline s' = cleanup_deadline s \<or> \<not> cleanup_started s \<and> cleanup_started s' \<or>
     \<not> forced_signal_sent s \<and> forced_signal_sent s'"
  shows "advances s s'"
  using assms by (simp add: advances_def achieved_def) blast

lemma observe_exit_advances: "observe_exit K ctx s w = Some (s', w') \<Longrightarrow> advances s s'"
  using observe_exit_state [of K ctx s w s' w'] by (auto intro!: advancesI)

lemma observe_cancellation_advances: "observe_cancellation K ctx s w = (s', w') \<Longrightarrow> advances s s'"
  using observe_cancellation_state [of K ctx s w s' w'] by (auto intro!: advancesI)

lemma release_start_advances: "release_start K ctx s w = Some (s', w') \<Longrightarrow> advances s s'"
  using release_start_state [of K ctx s w s' w'] by (auto intro!: advancesI)

lemma send_cancellation_signal_advances: "send_cancellation_signal K ctx s w = Some (s', w') \<Longrightarrow> advances s s'"
  using send_cancellation_signal_state [of K ctx s w s' w'] by (auto intro!: advancesI)

lemma signal_group_other: "signal_group K ctx sig s w = Some (r, s', w') \<Longrightarrow> \<exists>b. s' = s\<lparr>cleanup_failed := b\<rparr>"
  using signal_group_state by blast

lemma force_cancellation_advances:
  assumes "force_cancellation K ctx now s w = Some (s', w')"
  shows "advances s s'"
proof (cases "forced_signal_sent s")
  case True
  with assms show ?thesis by (simp add: force_cancellation_def)
next
  case False
  with force_cancellation_state [OF assms] show ?thesis by (auto intro!: advancesI)
qed

lemma start_cleanup_advances:
  assumes "start_cleanup K ctx now s w = Some (s', w')"
  shows "advances s s'" "child_exited s \<Longrightarrow> cancellation ctx \<Longrightarrow> cleanup_started s'"
proof -
  show "advances s s'"
  proof (cases "cleanup_started s")
    case True
    with assms show ?thesis by (simp add: start_cleanup_def)
  next
    case False
    with start_cleanup_state [OF assms] show ?thesis by (auto intro!: advancesI)
  qed
  assume "child_exited s" "cancellation ctx"
  then show "cleanup_started s'"
  proof (cases "cleanup_started s")
    case False
    let ?s = "s\<lparr>cleanup_started := True\<rparr>"
    show ?thesis
    proof (cases "cancellation_signal_attempted s")
      case True
      with False assms \<open>child_exited s\<close> \<open>cancellation ctx\<close> show ?thesis
        by (auto simp: start_cleanup_def Let_def split: if_split_asm)
    next
      case f: False
      with False assms \<open>child_exited s\<close> \<open>cancellation ctx\<close> obtain r s1 where
        "signal_group K ctx SIGTERM ?s w = Some (r, s1, w')" "s' = s1\<lparr>cleanup_deadline := now + milliseconds 200\<rparr>"
        by (auto simp: start_cleanup_def bind_eq_Some_conv)
      with signal_group_other [of K ctx SIGTERM ?s w r s1 w'] show ?thesis by auto
    qed
  qed (use assms in \<open>simp add: start_cleanup_def\<close>)
qed

lemma cleanup_overdue_advances:
  assumes "cleanup_overdue K ctx now s w = Some (s', w')"
  shows "advances s s'" "cleanup_complete s' \<or> \<not> forced_signal_sent s \<and> forced_signal_sent s'"
proof -
  from cleanup_overdue_state [OF assms] obtain b where
    "forced_signal_sent s \<and> s' = s\<lparr>cleanup_failed := True, cleanup_complete := True\<rparr> \<or>
     \<not> forced_signal_sent s \<and> s' = s\<lparr>cleanup_failed := b, forced_signal_sent := True, cleanup_deadline := now + milliseconds 1000\<rparr>"
    by meson
  then show "advances s s'" "cleanup_complete s' \<or> \<not> forced_signal_sent s \<and> forced_signal_sent s'"
    by (auto intro!: advancesI)
qed

text \<open>A round of the cleanup completes it, escalates, or comes before the deadline.\<close>

lemma continue_cleanup_advances:
  assumes "continue_cleanup K ctx now s w = Some (s', w')"
  shows "advances s s'" "child_exited s \<Longrightarrow> cancellation ctx \<Longrightarrow> cleanup_started s \<Longrightarrow>
    cleanup_complete s' \<or> \<not> forced_signal_sent s \<and> forced_signal_sent s' \<or> now < cleanup_deadline s"
proof -
  let ?due = "child_exited s \<and> cancellation ctx \<and> cleanup_started s \<and> \<not> cleanup_complete s"
  have "advances s s' \<and> (cleanup_complete s' \<or> \<not> forced_signal_sent s \<and> forced_signal_sent s' \<or> now < cleanup_deadline s)" if ?due
  proof -
    from that assms obtain s1 w1 gone w2 where
      a: "(if forced_signal_sent s then do { (_, s, w) \<leftarrow> signal_group K ctx SIGKILL s w; Some (s, w) }
         else Some (s, w)) = Some (s1, w1)"
      and c: "gone \<and> s' = s1\<lparr>cleanup_complete := True\<rparr> \<or> cleanup_overdue K ctx now s1 w2 = Some (s', w') \<or>
        now < cleanup_deadline s1 \<and> s' = s1"
      by (auto simp: continue_cleanup_def bind_eq_Some_conv split: if_splits)
    from a obtain b where s1: "s1 = s\<lparr>cleanup_failed := b\<rparr>"
    proof (cases "forced_signal_sent s")
      case False
      with a have "s1 = s\<lparr>cleanup_failed := cleanup_failed s\<rparr>" by simp
      then show thesis by (rule that)
    qed (use a that in \<open>auto simp: bind_eq_Some_conv dest!: signal_group_other\<close>)
    have "advances s s1" using s1 by (auto intro!: advancesI)
    moreover have "advances s1 s'" using c cleanup_overdue_advances(1) [of K ctx now s1 w2 s' w']
      by (elim disjE) (auto intro: advancesI)
    ultimately have "advances s s'" by (rule advances_trans)
    moreover from c s1 have "cleanup_complete s' \<or> \<not> forced_signal_sent s \<and> forced_signal_sent s' \<or> now < cleanup_deadline s"
      using cleanup_overdue_advances(2) [of K ctx now s1 w2 s' w'] by auto
    ultimately show ?thesis by blast
  qed
  moreover have "s' = s" if "\<not> ?due" using assms that unfolding continue_cleanup_def if_not_P [OF that] by simp
  ultimately show "advances s s'" "child_exited s \<Longrightarrow> cancellation ctx \<Longrightarrow> cleanup_started s \<Longrightarrow>
    cleanup_complete s' \<or> \<not> forced_signal_sent s \<and> forced_signal_sent s' \<or> now < cleanup_deadline s"
    by (metis advances_refl)+
qed

lemma reap_child_advances:
  assumes "reap_child K ctx s w = Some (s', w')"
  shows "advances s s'" "child_exited s \<Longrightarrow> (cancellation ctx \<Longrightarrow> cleanup_complete s) \<Longrightarrow> child_reaped s'"
  using assms by (auto simp: reap_child_def bind_eq_Some_conv case_prod_beta Let_def intro!: advancesI split: if_split_asm)

lemma read_control_advances: "read_control K s w = Some (s', w') \<Longrightarrow> advances s s'"
  by (drule read_control_state) (auto intro!: advancesI)

lemma drain_fd_closed: "drain_fd K fd a f w = Some (fd', a', f', w') \<Longrightarrow> fd < 0 \<Longrightarrow> fd' = fd"
  by (simp add: drain_fd.simps)

lemma drain_streams_advances: "drain_streams K s w = Some (s', w') \<Longrightarrow> advances s s'"
  by (auto simp: drain_streams_def bind_eq_Some_conv Let_def intro!: advancesI dest: drain_fd_closed)

lemma read_ready_advances:
  assumes "read_ready K s w = Some (s', w')"
  shows "advances s s'"
proof -
  have "ready_fd s' = ready_fd s" if "ready_fd s < 0" using assms that by (simp add: read_ready.simps)
  then show ?thesis using read_ready_post [OF assms] unfolding ready_read_def by (auto intro!: advancesI)
qed

lemma observe_exit_final:
  assumes live: "live_kernel K E N C" and z: "E (kern w) = 0" and o: "observe_exit K ctx s w = Some (s', w')"
  shows "child_exited s'"
proof (cases "child_exited s")
  case False
  let ?c = "Proc (if pidfd ctx \<ge> 0 then Waitid_pidfd (pidfd ctx) [WEXITED, WNOHANG, WNOWAIT]
                  else Waitid_pid (child_pid ctx) [WEXITED, WNOHANG, WNOWAIT])"
  from False o obtain e i where oc: "observe_child_exit K (child_pid ctx) (pidfd ctx) w = Some (e, i, w')"
    and s': "child_exited s' = e" by (auto simp: observe_exit_def bind_eq_Some_conv)
  from oc obtain r v where r: "retry_eintr K ?c w = Some (r, v)"
    unfolding observe_child_exit_def by (cases "retry_eintr K ?c w") auto
  from wp_result [OF retry_eintr_ends [OF live live_lasting(1) [OF live, of 0]] r] z
  obtain k where k: "E k = 0" "K ?c k = (r, kern v)" by auto
  then have "ret r = 0 \<and> si_pid (reply_siginfo r) \<noteq> 0"
    using live_kernelD(10,11) [OF live k(2)] by (cases "pidfd ctx \<ge> 0") auto
  with oc r s' show ?thesis unfolding observe_child_exit_def by simp
qed (use o in \<open>simp add: observe_exit_def\<close>)

lemma supervise_step_returns:
  assumes live: "live_kernel K E N C"
  shows "\<exists>y. supervise_step K ctx s w = Some y"
proof -
  have t: "lasting K (\<lambda>k. True)" by (simp add: lasting_def)
  note ends = observe_exit_ends release_start_ends send_cancellation_signal_ends force_cancellation_ends start_cleanup_ends
    continue_cleanup_ends reap_child_ends drain_streams_ends read_control_ends
  have "wp (supervise_step K ctx s w) (\<lambda>_. True)"
    unfolding supervise_step_def Let_def case_prod_beta
    by (rule ends [OF live t TrueI, THEN wp_bind])+ (rule wp_mono [OF read_ready_ends [OF live t TrueI]], rule TrueI)
  then show ?thesis by (rule wp_returns)
qed

text \<open>
  A round uses up an event; when none is left, it achieves something, or the
  deadline of the cleanup comes closer.
\<close>

definition measures_left :: "('k \<Rightarrow> nat) \<Rightarrow> ('k \<Rightarrow> int) \<Rightarrow> supervision \<times> 'k world \<Rightarrow> nat \<times> nat \<times> nat" where
  "measures_left E C x = (E (kern (snd x)), remaining (fst x), nat (cleanup_deadline (fst x) - C (kern (snd x))))"

lemma advancesD:
  assumes "advances s s'"
  shows "child_exited s \<Longrightarrow> child_exited s'" "output_fd s < 0 \<Longrightarrow> output_fd s' < 0" "error_fd s < 0 \<Longrightarrow> error_fd s' < 0"
    "control_fd s < 0 \<Longrightarrow> control_fd s' < 0" "child_reaped s \<Longrightarrow> child_reaped s'"
  using assms by (simp_all add: advances_def achieved_def)

lemma advances_between:
  assumes "advances a b" "advances b c" "achieved c = achieved a"
  shows "achieved b = achieved a" "cleanup_deadline b = cleanup_deadline a"
proof -
  have "remaining c = remaining a" using assms(3) by (simp add: remaining_def)
  moreover have "remaining c \<le> remaining b" using advances_remaining [OF assms(2)] by (auto simp: remaining_def)
  ultimately show "achieved b = achieved a" "cleanup_deadline b = cleanup_deadline a"
    using advances_remaining [OF assms(1)] by auto
qed

text \<open>The first half of a round acts on the child, the second reads what the pipes hold.\<close>

definition act :: "'k kernel \<Rightarrow> supervision_context \<Rightarrow> supervision \<Rightarrow> 'k world \<Rightarrow> (supervision \<times> 'k world) option" where
  "act K ctx s w =
     do { (s, w) \<leftarrow> observe_exit K ctx s w;
          let (s, w) = observe_cancellation K ctx s w;
          (s, w) \<leftarrow> release_start K ctx s w;
          (s, w) \<leftarrow> send_cancellation_signal K ctx s w;
          let (now, w) = syscall K (Ctl Clock_now) w;
          (s, w) \<leftarrow> force_cancellation K ctx now s w;
          (s, w) \<leftarrow> start_cleanup K ctx now s w;
          (s, w) \<leftarrow> continue_cleanup K ctx now s w;
          reap_child K ctx s w }"

definition listen :: "'k kernel \<Rightarrow> supervision_context \<Rightarrow> supervision \<Rightarrow> 'k world \<Rightarrow> (supervision \<times> 'k world) option" where
  "listen K ctx s w =
     do { (s, w) \<leftarrow> drain_streams K s (poll_pipes K ctx s w);
          (s, w) \<leftarrow> read_control K s w;
          read_ready K s w }"

lemma supervise_step_halves:
  "supervise_step K ctx s w = do { (s, w) \<leftarrow> act K ctx s w; listen K ctx s w }"
  by (simp add: supervise_step_def act_def listen_def Let_def split_def)

text \<open>
  With no event left, the first half achieves something, or the child is reaped, or it comes before the deadline.
\<close>

lemma act_post:
  assumes live: "live_kernel K E N C" and run: "act K ctx s w = Some (s', w')"
  shows "advances s s'" "E (kern w') \<le> E (kern w)" "C (kern w) \<le> C (kern w')"
    "E (kern w) = 0 \<Longrightarrow> achieved s' = achieved s \<Longrightarrow> child_reaped s' \<or> C (kern w) < cleanup_deadline s"
proof -
  from run obtain s1 w1 where 1: "observe_exit K ctx s w = Some (s1, w1)" by (auto simp: act_def bind_eq_Some_conv)
  obtain s2 w2 where 2: "observe_cancellation K ctx s1 w1 = (s2, w2)" by fastforce
  from run 1 2 obtain s3 w3 s4 w4 where 3: "release_start K ctx s2 w2 = Some (s3, w3)"
    "send_cancellation_signal K ctx s3 w3 = Some (s4, w4)" by (auto simp: act_def bind_eq_Some_conv)
  obtain now w5 where 4: "syscall K (Ctl Clock_now) w4 = (now, w5)" by fastforce
  from run 1 2 3 4 obtain s6 w6 s7 w7 s8 w8 where 5: "force_cancellation K ctx now s4 w5 = Some (s6, w6)"
    "start_cleanup K ctx now s6 w6 = Some (s7, w7)" "continue_cleanup K ctx now s7 w7 = Some (s8, w8)"
    "reap_child K ctx s8 w8 = Some (s', w')" by (auto simp: act_def bind_eq_Some_conv)
  have a1: "advances s1 s6" using observe_cancellation_advances [OF 2] release_start_advances [OF 3(1)]
    send_cancellation_signal_advances [OF 3(2)] force_cancellation_advances [OF 5(1)] by (meson advances_trans)
  have a7: "advances s s7" using observe_exit_advances [OF 1] a1 start_cleanup_advances(1) [OF 5(2)] by (meson advances_trans)
  have a8: "advances s s8" using a7 continue_cleanup_advances(1) [OF 5(3)] by (rule advances_trans)
  from a8 reap_child_advances(1) [OF 5(4)] show a: "advances s s'" by (rule advances_trans)
  have to4: "I (kern w4)" if st: "lasting K I" and "I (kern w)" for I
    using wp_result [OF observe_exit_ends [OF live st] 1] observe_cancellation_lasting [OF st, of w1 ctx s1]
      wp_result [OF release_start_ends [OF live st] 3(1)] wp_result [OF send_cancellation_signal_ends [OF live st] 3(2)] 2 that
    by simp
  have to': "I (kern w')" if st: "lasting K I" and "I (kern w4)" for I
    using wp_result [OF force_cancellation_ends [OF live st] 5(1)] wp_result [OF start_cleanup_ends [OF live st] 5(2)]
      wp_result [OF continue_cleanup_ends [OF live st] 5(3)] wp_result [OF reap_child_ends [OF live st] 5(4)]
      lasting_syscall [OF st 4] that by simp
  show "E (kern w') \<le> E (kern w)" "C (kern w) \<le> C (kern w')"
    using live_lasting [OF live] to4 to' by blast+
  assume z: "E (kern w) = 0" and same: "achieved s' = achieved s"
  have x: "child_exited s6" by (rule advancesD(1) [OF a1 observe_exit_final [OF live z 1]])
  then have x7: "child_exited s7" using start_cleanup_advances(1) [OF 5(2)] advancesD(1) by blast
  then have x8: "child_exited s8" using continue_cleanup_advances(1) [OF 5(3)] advancesD(1) by blast
  have now: "C (kern w) \<le> now" using live_lasting(2) [OF live, of "C (kern w)", THEN to4] 4
    by (auto elim!: syscallD dest!: live_kernelD(4) [OF live])
  note s7 = advances_between [OF a7 advances_trans [OF continue_cleanup_advances(1) [OF 5(3)] reap_child_advances(1) [OF 5(4)]] same]
  note s8 = advances_between(1) [OF a8 reap_child_advances(1) [OF 5(4)] same]
  have "now < cleanup_deadline s7" if "cancellation ctx" "\<not> cleanup_complete s8"
    using continue_cleanup_advances(2) [OF 5(3) x7 that(1) start_cleanup_advances(2) [OF 5(2) x that(1)]] that(2) s7(1) s8
    by (auto simp: achieved_def)
  then show "child_reaped s' \<or> C (kern w) < cleanup_deadline s"
    using reap_child_advances(2) [OF 5(4) x8] now s7(2) by fastforce
qed

lemma listen_post:
  assumes live: "live_kernel K E N C" and run: "listen K ctx s w = Some (s', w')"
  shows "advances s s'" "E (kern w') \<le> E (kern w)" "0 < E (kern w) \<Longrightarrow> E (kern w') < E (kern w)" "C (kern w) < C (kern w')"
    "E (kern w) = 0 \<Longrightarrow> output_fd s' < 0 \<and> error_fd s' < 0 \<and> control_fd s' < 0 \<and> ready_fd s' < 0"
proof -
  let ?v = "poll_pipes K ctx s w"
  from run obtain s1 w1 s2 w2 where b: "drain_streams K s ?v = Some (s1, w1)" "read_control K s1 w1 = Some (s2, w2)"
    "read_ready K s2 w2 = Some (s', w')" by (auto simp: listen_def bind_eq_Some_conv)
  obtain r where p: "K (Fd (Poll [output_fd s, error_fd s, control_fd s, ready_fd s, pidfd ctx] 10)) (kern w) = (r, kern ?v)"
    by (simp add: poll_pipes_def syscall_def invoke_def case_prod_beta prod_eq_iff)
  have a: "advances s1 s'" "advances s2 s'"
    using read_control_advances [OF b(2)] read_ready_advances [OF b(3)] by (meson advances_trans)+
  then show "advances s s'" using drain_streams_advances [OF b(1)] by (meson advances_trans)
  have to': "I (kern w')" if st: "lasting K I" and "I (kern ?v)" for I
    using wp_result [OF drain_streams_ends [OF live st] b(1)] wp_result [OF read_control_ends [OF live st] b(2)]
      wp_result [OF read_ready_ends [OF live st] b(3)] that by simp
  have e: "E (kern w') \<le> E (kern ?v)" and c: "C (kern ?v) \<le> C (kern w')" using to' live_lasting [OF live] by blast+
  note l = live_kernelD(1,8,9) [OF live p]
  from l e c show "E (kern w') \<le> E (kern w)" "0 < E (kern w) \<Longrightarrow> E (kern w') < E (kern w)" "C (kern w) < C (kern w')" by auto
  assume "E (kern w) = 0"
  with l(1) have "E (kern ?v) = 0" by simp
  then have 1: "E (kern w1) = 0 \<and> output_fd s1 < 0 \<and> error_fd s1 < 0"
    using wp_result [OF drain_streams_ends [OF live live_lasting(1) [OF live, of 0]] b(1)] by simp
  then have 2: "E (kern w2) = 0 \<and> control_fd s2 < 0"
    using wp_result [OF read_control_ends [OF live live_lasting(1) [OF live, of 0]] b(2)] by simp
  then have "ready_fd s' < 0" using wp_result [OF read_ready_ends [OF live live_lasting(1) [OF live, of 0]] b(3)] by simp
  with 1 2 a show "output_fd s' < 0 \<and> error_fd s' < 0 \<and> control_fd s' < 0 \<and> ready_fd s' < 0" by (simp add: advancesD)
qed

lemma supervise_step_decreases:
  assumes live: "live_kernel K E N C" and run: "running s" and step: "supervise_step K ctx s w = Some (s', w')"
  shows "(measures_left E C (s', w'), measures_left E C (s, w)) \<in> less_than <*lex*> less_than <*lex*> less_than"
proof -
  from step obtain s1 w1 where h: "act K ctx s w = Some (s1, w1)" "listen K ctx s1 w1 = Some (s', w')"
    by (auto simp: supervise_step_halves bind_eq_Some_conv)
  note a = act_post [OF live h(1)] and l = listen_post [OF live h(2)]
  have adv: "advances s s'" by (rule advances_trans [OF a(1) l(1)])
  show ?thesis
  proof (cases "E (kern w') < E (kern w) \<or> remaining s' < remaining s")
    case False
    with advances_remaining [OF adv] have same: "achieved s' = achieved s" "cleanup_deadline s' = cleanup_deadline s" by auto
    from False a(2) l(2,3) have z: "E (kern w) = 0" "E (kern w1) = 0" by linarith+
    have "\<not> child_reaped s1"
    proof -
      from l(5) [OF z(2)] same(1) run have "\<not> child_reaped s'" by (auto simp: running_def achieved_def)
      then show ?thesis using advancesD(5) [OF l(1)] by blast
    qed
    with a(4) [OF z(1)] advances_between(1) [OF a(1) l(1) same(1)] have "C (kern w) < cleanup_deadline s" by blast
    with a(3) l(4) same show ?thesis using False a(2) l(2) by (simp add: measures_left_def remaining_def)
  qed (use a(2) l(2) in \<open>auto simp: measures_left_def\<close>)
qed

lemma supervise_returns:
  assumes live: "live_kernel K events entries clock"
  shows "\<exists>s' w'. supervise K ctx s w = Some (s', w') \<and> \<not> running s'"
proof -
  let ?R = "inv_image (less_than <*lex*> less_than <*lex*> less_than) (measures_left events clock)"
  have "wf ?R" by (intro wf_inv_image wf_lex_prod wf_less_than)
  then have "\<exists>s' w'. supervise K ctx (fst x) (snd x) = Some (s', w') \<and> \<not> running s'" for x
  proof (induction x rule: wf_induct_rule)
    case (less x)
    obtain s w where x: "x = (s, w)" by fastforce
    show ?case
    proof (cases "running s")
      case True
      obtain s1 w1 where st: "supervise_step K ctx s w = Some (s1, w1)"
        using supervise_step_returns [OF live, of ctx s w] by auto
      from less [of "(s1, w1)"] supervise_step_decreases [OF live True st] x
      show ?thesis by (simp add: supervise.simps [of K ctx s w] True st)
    qed (simp add: x supervise.simps)
  qed
  from this [of "(s, w)"] show ?thesis by simp
qed


text \<open>
  A kernel whose child runs for a number of rounds and writes nothing, and in which the process table cannot be read, so
  that the group is never seen to be gone. One round takes a second.
\<close>

definition expiring :: "(nat \<times> int) kernel" where
  "expiring c k =
     (let (n, t) = k in
      case c of
        Fd (Poll fds d) \<Rightarrow> (ok_reply, (n - 1, t + 1000000000))
      | Fd (Read fd m) \<Rightarrow> (if n = 0 then ok_reply else err_reply EAGAIN, k)
      | Dir (Opendir q) \<Rightarrow> (err_reply EACCES, k)
      | Ctl Clock_now \<Rightarrow> (num_reply t, k)
      | Proc Fork \<Rightarrow> (num_reply 7, k)
      | Proc (Waitid_pid p fl) \<Rightarrow>
          (data_reply 0 (Siginfo_data (if n = 0 then \<lparr>si_pid = 7, si_code = 1, si_status = 0\<rparr> else zero_siginfo)), k)
      | Proc (Waitid_pidfd fd fl) \<Rightarrow>
          (data_reply 0 (Siginfo_data (if n = 0 then \<lparr>si_pid = 7, si_code = 1, si_status = 0\<rparr> else zero_siginfo)), k)
      | _ \<Rightarrow> (ok_reply, k))"

lemma expiring_live: "live_kernel expiring fst (\<lambda>k. 0) snd"
proof -
  have "EAGAIN \<noteq> EINTR" "EACCES \<noteq> EINTR" "EINTR \<noteq> 0" by (simp_all add: errno_defs)
  then show ?thesis
    unfolding live_kernel_def
    by (auto simp: expiring_def ok_reply_def err_reply_def num_reply_def data_reply_def reply_siginfo_def Let_def
        split: syscall.split fd_call.split dir_call.split control_call.split proc_call.split if_split)
qed


end
