(* ===== verification/Execution_Liveness.thy ===== *)
theory Execution_Liveness
  imports Execution Supervisor_Liveness
begin

text \<open>
  \<open>execute_backend\<close> returns: admission reads directories and files that end, and the parent reports once
  a process is created.
\<close>

section \<open>Operations that return\<close>

definition returns :: "'a option \<Rightarrow> bool" where
  "returns m \<longleftrightarrow> m \<noteq> None"

named_theorems returns_intros "structural rules for operations that return"

lemma returns_Some [returns_intros]: "returns (Some y)"
  by (simp add: returns_def)

lemma returns_bind [returns_intros]: "returns m \<Longrightarrow> (\<And>x w. returns (f (x, w))) \<Longrightarrow> returns (Option.bind m f)"
  by (cases m) (auto simp: returns_def)

lemma returns_if [returns_intros]: "(b \<Longrightarrow> returns x) \<Longrightarrow> (\<not> b \<Longrightarrow> returns y) \<Longrightarrow> returns (if b then x else y)"
  by simp

lemma returns_prod [returns_intros]: "(\<And>x w. returns (f x w)) \<Longrightarrow> returns (case p of (x, w) \<Rightarrow> f x w)"
  by (cases p) simp

lemma returns_sum [returns_intros]:
  "(\<And>a. returns (f a)) \<Longrightarrow> (\<And>b. returns (g b)) \<Longrightarrow> returns (case s of Inl a \<Rightarrow> f a | Inr b \<Rightarrow> g b)"
  by (cases s) simp_all

lemma returns_option [returns_intros]: "returns f \<Longrightarrow> (\<And>b. returns (g b)) \<Longrightarrow> returns (case s of None \<Rightarrow> f | Some b \<Rightarrow> g b)"
  by (cases s) simp_all

lemma wp_returnsI: "wp m Q \<Longrightarrow> returns m"
  by (auto simp: wp_def returns_def)

section \<open>Admission returns\<close>

text \<open>No file delivers data beyond a bound.\<close>

definition bounded_files :: "'k kernel \<Rightarrow> nat \<Rightarrow> bool" where
  "bounded_files K bound \<longleftrightarrow> (\<forall>fd n offset k r k'. K (Fd (Pread fd n offset)) k = (r, k') \<longrightarrow> ret r > 0 \<longrightarrow> offset < bound)"

lemma entries_absent_returns:
  assumes live: "live_kernel K E N C"
  shows "returns (entries_absent K d w)"
proof (induction "N (kern w)" arbitrary: w rule: less_induct)
  case less
  obtain r w1 where i: "invoke K (Dir (Readdir d)) w = (r, w1)" by fastforce
  from less [of "set_errno 0 w1"] live_kernelD(5) [OF live invokeD(1) [OF i]] show ?case
    by (subst entries_absent.simps) (simp add: i returns_intros)
qed

lemma digest_loop_returns:
  assumes live: "live_kernel K E N C" and files: "bounded_files K bound"
  shows "returns (digest_loop errstr D K fd c offset w)"
proof (induction "bound - offset + E (kern w)" arbitrary: c offset w rule: less_induct)
  case less
  obtain r w1 where i: "invoke K (Fd (Pread fd 65536 offset)) w = (r, w1)" by fastforce
  note k = invokeD(1) [OF i]
  have "bound - (offset + nat (ret r)) + E (kern w1) < bound - offset + E (kern w)" if "ret r > 0"
  proof -
    have "offset < bound" using files k that unfolding bounded_files_def by blast
    with that live_kernelD(1) [OF live k] show ?thesis by linarith
  qed
  with less.hyps live_kernelD(3) [OF live k] invokeD(3) [OF i] show ?case
    by (subst digest_loop.simps) (auto simp: i returns_intros split: sum.split)
qed

lemma admit_isolated_resources_returns:
  assumes "live_kernel K E N C"
  shows "returns (admit_isolated_resources errstr K m view bs w)"
proof -
  note entries_absent_returns [OF assms, returns_intros]
  have [returns_intros]: "returns (directory_is_empty errstr K fd w)" for fd w
    unfolding directory_is_empty_def Let_def by (intro returns_intros)
  have [returns_intros]: "returns (admit_input errstr K root l nss w)" for root l nss w
    unfolding admit_input_def Let_def by (intro returns_intros)
  have [returns_intros]: "returns (admit_target errstr K root b nss w)" for root b nss w
    unfolding admit_target_def Let_def by (intro returns_intros)
  have [returns_intros]: "returns (admit_binding errstr K m v root st b w)" for v root st b w
    unfolding admit_binding_def Let_def by (intro returns_intros)
  have [returns_intros]: "returns (admit_bindings errstr K m v root st bs w)" for v root st bs w
    by (induction bs arbitrary: st w) (simp_all add: returns_intros split_def)
  show ?thesis unfolding admit_isolated_resources_def Let_def by (intro returns_intros)
qed

lemma admit_request_returns:
  assumes "live_kernel K E N C"
  shows "returns (admit_request L K q R isolated w)"
  unfolding admit_request_def Let_def by (intro returns_intros admit_isolated_resources_returns [OF assms])

lemma admit_interpreter_returns:
  assumes "live_kernel K E N C" "bounded_files K bound"
  shows "returns (admit_interpreter L K bs wanted w)"
proof -
  have [returns_intros]: "returns (digest_fd errstr D K fd w)" for errstr D fd w
    unfolding digest_fd_def by (intro returns_intros digest_loop_returns [OF assms])
  have [returns_intros]: "returns (verify_interpreter L K b fd w)" for b fd w
    unfolding verify_interpreter_def Let_def by (intro returns_intros)
  show ?thesis unfolding admit_interpreter_def Let_def by (intro returns_intros)
qed

section \<open>Execution returns\<close>

lemma execute_parent_returns:
  assumes live: "live_kernel K E N C"
  shows "wp (execute_parent L K q b housing p fd cancellable child w) (\<lambda>(x, _). \<exists>r. x = Reported r)"
proof -
  have t: "lasting K (\<lambda>k. True)" by (simp add: lasting_def)
  have "wp (abandon_child L K housing p child w) (\<lambda>(x, _). \<exists>r. x = Reported r)" for w
    unfolding abandon_child_def Let_def split_def
    by (rule wp_bind [OF waitpid_retry_ends [OF live t TrueI]]) simp
  moreover have "wp (supervise_child L K t housing p ctx w) (\<lambda>(x, _). \<exists>r. x = Reported r)" for t ctx w
  proof -
    obtain s w1 where "supervise K ctx (initial_supervision (read_end (standard_out p)) (read_end (standard_err p))
        (read_end (control p)) (read_end (ready p)) (write_end (start p))) w = Some (s, w1)"
      using supervise_returns [OF live] by blast
    then show ?thesis by (simp add: supervise_child_def Let_def split_def)
  qed
  ultimately show ?thesis by (simp add: execute_parent_def Let_def split_def)
qed

lemma start_process_returns:
  assumes live: "live_kernel K E N C" and parent: "\<And>k r k'. K (Proc Fork) k = (r, k') \<Longrightarrow> ret r \<noteq> 0"
  shows "wp (start_process L K q R isolated cancellable housing b fd w) (\<lambda>(x, _). \<exists>r. x = Reported r)"
proof -
  have "fst (syscall K (Proc Fork) v) \<noteq> 0" for v
  proof -
    obtain n v' where c: "syscall K (Proc Fork) v = (n, v')" by fastforce
    then obtain r where "ret r = n" "K (Proc Fork) (kern v) = (r, kern v')" by (rule syscallD)
    with parent c show ?thesis by auto
  qed
  then show ?thesis
    using execute_parent_returns [OF live] by (auto simp: start_process_def Let_def split_def split: sum.split)
qed

lemma execute_admitted_returns:
  assumes live: "live_kernel K E N C" "bounded_files K bound" and parent: "\<And>k r k'. K (Proc Fork) k = (r, k') \<Longrightarrow> ret r \<noteq> 0"
  shows "wp (execute_admitted L K bs q R isolated cancellable housing w) (\<lambda>(x, _). \<exists>r. x = Reported r)"
proof -
  have "wp (admit_interpreter L K bs (request_interpreter q) v) (\<lambda>_. True)" for v
    using admit_interpreter_returns [OF live] by (auto simp: returns_def wp_def)
  then show ?thesis
    using start_process_returns [OF live(1) parent]
    by (auto simp: execute_admitted_def Let_def split_def intro!: wp_bind split: sum.split)
qed



end
