(* ===== verification/Ownership.thy ===== *)
theory Ownership
  imports Mount_Isolation "HOL-Library.Multiset"
begin

text \<open>
  The classes that own a descriptor, \<open>owned_fd\<close> (\<open>mount_isolation.cpp\<close>), \<open>unique_fd\<close> (\<open>backend.cpp\<close>) and
  \<open>local_fd\<close> (\<open>network_isolation.cpp\<close>), and the moves of \<open>isolated_admission\<close>. Elsewhere in the development
  an owner is its value; here are the objects themselves, with the moves between them, and the account of what is closed.
\<close>

section \<open>Objects that own a descriptor\<close>

text \<open>The living objects and their member \<open>value_\<close>; an operation on an object outside its lifetime is undefined, \<open>None\<close>.\<close>

type_synonym 'o handles = "'o \<Rightarrow> fd option"

definition fd_construct :: "'o \<Rightarrow> fd \<Rightarrow> 'o handles \<Rightarrow> 'o handles option" where
  "fd_construct this v m = (if m this = None then Some (m(this \<mapsto> v)) else None)"

definition fd_release :: "'o \<Rightarrow> 'o handles \<Rightarrow> (fd \<times> 'o handles) option" where
  "fd_release this m = do { v \<leftarrow> m this; Some (v, m(this \<mapsto> -1)) }"

definition fd_reset :: "'k kernel \<Rightarrow> 'o \<Rightarrow> fd \<Rightarrow> 'o handles \<Rightarrow> 'k world \<Rightarrow> ('o handles \<times> 'k world) option" where
  "fd_reset K this v m w = do { old \<leftarrow> m this; Some (m(this \<mapsto> v), reset_fd K old w) }"

definition fd_destroy :: "'k kernel \<Rightarrow> 'o \<Rightarrow> 'o handles \<Rightarrow> 'k world \<Rightarrow> ('o handles \<times> 'k world) option" where
  "fd_destroy K this m w = do { (m, w) \<leftarrow> fd_reset K this (-1) m w; Some (m(this := None), w) }"

definition fd_move_construct :: "'o \<Rightarrow> 'o \<Rightarrow> 'o handles \<Rightarrow> 'o handles option" where
  "fd_move_construct this other m =
     do { (v, m) \<leftarrow> fd_release other m; fd_construct this v m }"

definition fd_move_assign :: "'k kernel \<Rightarrow> 'o \<Rightarrow> 'o \<Rightarrow> 'o handles \<Rightarrow> 'k world \<Rightarrow> ('o handles \<times> 'k world) option" where
  "fd_move_assign K this other m w =
     (if this \<noteq> other then do { (v, m) \<leftarrow> fd_release other m; fd_reset K this v m w }
      else do { _ \<leftarrow> m this; Some (m, w) })"

text \<open>\<open>local_fd\<close> closes before it takes the other's descriptor over, and its destructor closes without resetting.\<close>

definition local_move_assign :: "'k kernel \<Rightarrow> 'o \<Rightarrow> 'o \<Rightarrow> 'o handles \<Rightarrow> 'k world \<Rightarrow> ('o handles \<times> 'k world) option" where
  "local_move_assign K this other m w =
     (if this \<noteq> other
      then do { old \<leftarrow> m this;
                let w = reset_fd K old w;
                (v, m) \<leftarrow> fd_release other m;
                Some (m(this \<mapsto> v), w) }
      else do { _ \<leftarrow> m this; Some (m, w) })"

definition local_destroy :: "'k kernel \<Rightarrow> 'o \<Rightarrow> 'o handles \<Rightarrow> 'k world \<Rightarrow> ('o handles \<times> 'k world) option" where
  "local_destroy K this m w = do { v \<leftarrow> m this; Some (m(this := None), reset_fd K v w) }"

lemma local_move_assign_same: "local_move_assign K this other m w = fd_move_assign K this other m w"
  by (cases "m this"; cases "m other") (simp_all add: local_move_assign_def fd_move_assign_def fd_release_def fd_reset_def)

lemma local_destroy_same: "local_destroy K this m w = fd_destroy K this m w"
  by (cases "m this") (simp_all add: local_destroy_def fd_destroy_def fd_reset_def)

section \<open>Programs over owners\<close>

datatype 'o handle_op =
    Construct 'o fd | Move_construct 'o 'o | Move_assign 'o 'o | Reset 'o fd | Release 'o | Destroy 'o

text \<open>One operation: the objects after it, what it hands to its caller, and the world.\<close>

fun handle_step ::
  "'k kernel \<Rightarrow> 'o handle_op \<Rightarrow> 'o handles \<Rightarrow> 'k world \<Rightarrow> ('o handles \<times> fd list \<times> 'k world) option" where
  "handle_step K (Construct this v) m w = do { m \<leftarrow> fd_construct this v m; Some (m, [], w) }"
| "handle_step K (Move_construct this other) m w = do { m \<leftarrow> fd_move_construct this other m; Some (m, [], w) }"
| "handle_step K (Move_assign this other) m w = do { (m, w) \<leftarrow> fd_move_assign K this other m w; Some (m, [], w) }"
| "handle_step K (Reset this v) m w = do { (m, w) \<leftarrow> fd_reset K this v m w; Some (m, [], w) }"
| "handle_step K (Release this) m w = do { (v, m) \<leftarrow> fd_release this m; Some (m, [v], w) }"
| "handle_step K (Destroy this) m w = do { (m, w) \<leftarrow> fd_destroy K this m w; Some (m, [], w) }"

fun handle_run ::
  "'k kernel \<Rightarrow> 'o handle_op list \<Rightarrow> 'o handles \<Rightarrow> 'k world \<Rightarrow> ('o handles \<times> fd list \<times> 'k world) option" where
  "handle_run K [] m w = Some (m, [], w)"
| "handle_run K (op # ops) m w =
     do { (m, out, w) \<leftarrow> handle_step K op m w;
          (m, outs, w) \<leftarrow> handle_run K ops m w;
          Some (m, out @ outs, w) }"

section \<open>The account\<close>

text \<open>Descriptors that an operation puts under ownership, that living objects own, and that a history closes.\<close>

definition valid_fds :: "fd list \<Rightarrow> fd multiset" where
  "valid_fds vs = mset (filter (\<lambda>v. v \<ge> 0) vs)"

fun acquired :: "'o handle_op \<Rightarrow> fd multiset" where
  "acquired (Construct this v) = valid_fds [v]"
| "acquired (Reset this v) = valid_fds [v]"
| "acquired _ = {#}"

definition owned :: "'o handles \<Rightarrow> fd multiset" where
  "owned m = (\<Sum>x\<in>dom m. valid_fds [the (m x)])"

definition closed_fds :: "(syscall \<times> reply) list \<Rightarrow> fd multiset" where
  "closed_fds cs = mset (List.map_filter (\<lambda>(c, r). case c of Fd (Close fd) \<Rightarrow> Some fd | _ \<Rightarrow> None) cs)"

lemma valid_fds_simps [simp]: "valid_fds [] = {#}" "valid_fds [-1] = {#}" "valid_fds (xs @ ys) = valid_fds xs + valid_fds ys"
  by (simp_all add: valid_fds_def)

lemma closed_append [simp]: "closed_fds (cs @ ds) = closed_fds cs + closed_fds ds" "closed_fds [] = {#}"
  by (simp_all add: closed_fds_def map_filter_def)

lemma owned_update:
  assumes "finite (dom m)"
  shows "owned (m(x := y)) + valid_fds (case m x of None \<Rightarrow> [] | Some v \<Rightarrow> [v]) =
    owned m + valid_fds (case y of None \<Rightarrow> [] | Some v \<Rightarrow> [v])"
proof -
  let ?f = "\<lambda>m x. valid_fds [the (m x)]"
  have rest: "(\<Sum>z\<in>dom m - {x}. ?f (m(x := y)) z) = (\<Sum>z\<in>dom m - {x}. ?f m z)"
    by (rule sum.cong) auto
  have "owned (m(x := y)) = (\<Sum>z\<in>dom m - {x}. ?f m z) + valid_fds (case y of None \<Rightarrow> [] | Some v \<Rightarrow> [v])"
  proof (cases y)
    case None
    then show ?thesis using rest by (simp add: owned_def)
  next
    case (Some v)
    then have d: "dom (m(x := y)) = insert x (dom m - {x})" by auto
    have "owned (m(x := y)) = ?f (m(x := y)) x + (\<Sum>z\<in>dom m - {x}. ?f (m(x := y)) z)"
      unfolding owned_def d using assms by (subst sum.insert) auto
    with Some show ?thesis unfolding rest by (simp add: add.commute)
  qed
  moreover have "owned m = (\<Sum>z\<in>dom m - {x}. ?f m z) + valid_fds (case m x of None \<Rightarrow> [] | Some v \<Rightarrow> [v])"
  proof (cases "m x")
    case None
    then have "dom m - {x} = dom m" by auto
    with None show ?thesis by (simp add: owned_def)
  next
    case (Some v)
    then show ?thesis using assms sum.remove [of "dom m" x "?f m"] by (simp add: owned_def domI add.commute)
  qed
  ultimately show ?thesis by (simp add: ac_simps)
qed

lemma reset_fd_closes: "extends w (reset_fd K fd w)" "closed_fds (calls_between w (reset_fd K fd w)) = valid_fds [fd]"
proof -
  obtain n w' where c: "syscall K (Fd (Close fd)) w = (n, w')" by fastforce
  then obtain r where "history w' = history w @ [(Fd (Close fd), r)]" by (rule syscallD)
  with c show "extends w (reset_fd K fd w)" "closed_fds (calls_between w (reset_fd K fd w)) = valid_fds [fd]"
    by (auto simp: reset_fd_def calls_between_def extends_def closed_fds_def map_filter_simps valid_fds_def)
qed

lemma owned_set:
  assumes "finite (dom m)" "m x = Some v"
  shows "owned (m(x \<mapsto> u)) + valid_fds [v] = owned m + valid_fds [u]" "owned (m(x := None)) + valid_fds [v] = owned m"
  using owned_update [OF assms(1), of x "Some u"] owned_update [OF assms(1), of x None] assms(2) by simp_all

lemma owned_new: "finite (dom m) \<Longrightarrow> m x = None \<Longrightarrow> owned (m(x \<mapsto> u)) = owned m + valid_fds [u]"
  using owned_update [of m x "Some u"] by simp

text \<open>Every operation keeps the account.\<close>

definition balanced :: "'o handles \<Rightarrow> fd multiset \<Rightarrow> 'k world \<Rightarrow> 'o handles \<Rightarrow> fd list \<Rightarrow> 'k world \<Rightarrow> bool" where
  "balanced m a w m' outs w' \<longleftrightarrow> finite (dom m') \<and> extends w w' \<and>
     a + owned m = closed_fds (calls_between w w') + valid_fds outs + owned m'"

lemma calls_between_self [simp]: "calls_between w w = []"
  by (simp add: calls_between_def)

lemma fd_reset_balanced:
  assumes "fd_reset K x u m w = Some (m', w')" "finite (dom m)"
  shows "balanced m (valid_fds [u]) w m' [] w'"
proof -
  from assms obtain v where v: "m x = Some v" "m' = m(x \<mapsto> u)" "w' = reset_fd K v w"
    by (auto simp: fd_reset_def bind_eq_Some_conv)
  with owned_set(1) [OF assms(2) v(1), of u] reset_fd_closes [of w K v] assms(2) show ?thesis
    by (simp add: balanced_def ac_simps)
qed

lemma fd_release_account:
  assumes "fd_release x m = Some (v, m')" "finite (dom m)"
  shows "finite (dom m')" "owned m = valid_fds [v] + owned m'"
  using assms owned_set(1) [OF assms(2), of x v "-1"] by (auto simp: fd_release_def bind_eq_Some_conv add.commute)

lemma handle_step_balanced:
  assumes "handle_step K op m w = Some (m', outs, w')" "finite (dom m)"
  shows "balanced m (acquired op) w m' outs w'"
  using assms
proof (cases op)
  case (Construct x v)
  with assms show ?thesis by (auto simp: fd_construct_def balanced_def owned_new bind_eq_Some_conv split: if_split_asm)
next
  case (Move_construct x y)
  with assms obtain v m1 where r: "fd_release y m = Some (v, m1)" "m1 x = None" "m' = m1(x \<mapsto> v)" "outs = []" "w' = w"
    by (auto simp: fd_move_construct_def fd_construct_def bind_eq_Some_conv split: if_split_asm)
  with fd_release_account [OF r(1) assms(2)] Move_construct show ?thesis by (simp add: balanced_def owned_new)
next
  case (Move_assign x y)
  show ?thesis
  proof (cases "x = y")
    case False
    with Move_assign assms obtain v m1 where r: "fd_release y m = Some (v, m1)" "fd_reset K x v m1 w = Some (m', w')" "outs = []"
      by (auto simp: fd_move_assign_def bind_eq_Some_conv)
    from fd_release_account [OF r(1) assms(2)] fd_reset_balanced [OF r(2)] r(3) Move_assign show ?thesis
      by (simp add: balanced_def ac_simps)
  qed (use Move_assign assms in \<open>auto simp: fd_move_assign_def balanced_def bind_eq_Some_conv\<close>)
next
  case (Reset x v)
  with assms fd_reset_balanced [OF _ assms(2)] show ?thesis by (auto simp: bind_eq_Some_conv)
next
  case (Release x)
  with assms obtain v where r: "fd_release x m = Some (v, m')" "outs = [v]" "w' = w" by (auto simp: bind_eq_Some_conv)
  with fd_release_account [OF r(1) assms(2)] Release show ?thesis by (simp add: balanced_def)
next
  case (Destroy x)
  with assms obtain m1 where r: "fd_reset K x (-1) m w = Some (m1, w')" "m' = m1(x := None)" "outs = []"
    by (auto simp: fd_destroy_def bind_eq_Some_conv)
  have "m1 x = Some (-1)" using r(1) by (auto simp: fd_reset_def bind_eq_Some_conv)
  with owned_set(2) [of m1 x "-1"] fd_reset_balanced [OF r(1) assms(2)] r(2,3) Destroy show ?thesis by (simp add: balanced_def)
qed

lemma handle_run_balanced:
  assumes "handle_run K ops m w = Some (m', outs, w')" "finite (dom m)"
  shows "balanced m (sum_list (map acquired ops)) w m' outs w'"
  using assms
proof (induction ops arbitrary: m w outs)
  case Nil
  then show ?case by (simp add: balanced_def)
next
  case (Cons op ops)
  from Cons.prems(1) obtain m1 o1 w1 o2 where s: "handle_step K op m w = Some (m1, o1, w1)"
    and r: "handle_run K ops m1 w1 = Some (m', o2, w')" and o: "outs = o1 @ o2"
    by (auto simp: bind_eq_Some_conv)
  let ?c = "\<lambda>a b. closed_fds (calls_between a b)" and ?S = "sum_list (map acquired ops)"
  have b1: "finite (dom m1)" "extends w w1" "acquired op + owned m = ?c w w1 + valid_fds o1 + owned m1"
    using handle_step_balanced [OF s Cons.prems(2)] by (simp_all add: balanced_def)
  have b2: "finite (dom m')" "extends w1 w'" "?S + owned m1 = ?c w1 w' + valid_fds o2 + owned m'"
    using Cons.IH [OF r b1(1)] by (simp_all add: balanced_def)
  have "acquired op + ?S + owned m = (acquired op + owned m) + ?S" by (simp add: ac_simps)
  also have "\<dots> = (?c w w1 + valid_fds o1) + (?S + owned m1)" unfolding b1(3) by (simp add: ac_simps)
  also have "\<dots> = ?c w w' + valid_fds outs + owned m'"
    unfolding b2(3) calls_between_trans [OF b1(2) b2(2)] o by (simp add: ac_simps)
  finally show ?case using b2(1) extends_trans [OF b1(2) b2(2)] by (simp add: balanced_def)
qed

text \<open>
  C18. Every descriptor is closed exactly once or still has an owner. A program over descriptor owners
  constructs, moves (also onto itself), resets, releases and destroys them in any order. Counted with multiplicity,
  the descriptors that were put under ownership are those that were closed, those that were released to the
  caller and those that living owners hold: none is closed twice and none is lost.
\<close>

theorem descriptors_accounted:
  assumes "handle_run K ops Map.empty w = Some (m', outs, w')"
  shows "sum_list (map acquired ops) = closed_fds (calls_between w w') + valid_fds outs + owned m'"
  using handle_run_balanced [OF assms] by (simp add: balanced_def owned_def)

text \<open>An owner is moved from, assigned to itself, and everything is destroyed: each descriptor is closed once.\<close>

theorem descriptors_accounted_witness:
  "\<exists>m' outs w'. handle_run scripted
     [Construct (1 :: nat) 5, Move_construct 2 1, Move_assign 2 2, Construct 3 6, Move_assign 3 2, Destroy 3, Destroy 2, Destroy 1]
     Map.empty (start_world []) = Some (m', outs, w') \<and> closed_fds (calls_between (start_world []) w') = {#5, 6#}"
proof -
  let ?ops = "[Construct (1 :: nat) 5, Move_construct 2 1, Move_assign 2 2, Construct 3 6, Move_assign 3 2, Destroy 3, Destroy 2, Destroy 1]"
  have "\<exists>w'. handle_run scripted ?ops Map.empty (start_world []) = Some (Map.empty, [], w')"
    by (simp add: fd_construct_def fd_move_construct_def fd_release_def fd_move_assign_def fd_reset_def fd_destroy_def fun_eq_iff)
  then obtain w' where r: "handle_run scripted ?ops Map.empty (start_world []) = Some (Map.empty, [], w')" by blast
  from descriptors_accounted [OF r] have "closed_fds (calls_between (start_world []) w') = {#5, 6#}"
    by (simp add: owned_def valid_fds_def add_mset_commute)
  with r show ?thesis by blast
qed

section \<open>Moving an admission\<close>

text \<open>What a moved-from admission is: the descriptors are gone to the new one, and nothing is left to clean up.\<close>

definition moved_from :: "isolated_admission \<Rightarrow> isolated_admission" where
  "moved_from other = other\<lparr>root_source_fd := -1, admitted_bindings := [], namespaces := [], scratch_path := [], cleanup_attempted := True\<rparr>"

definition admission_move_construct :: "isolated_admission \<Rightarrow> isolated_admission \<times> isolated_admission" where
  "admission_move_construct other = (other, moved_from other)"

text \<open>Assignment cleans up first; the members' assignments close what this admission held.\<close>

definition admission_move_assign ::
  "'k kernel \<Rightarrow> bool \<Rightarrow> isolated_admission \<Rightarrow> isolated_admission \<Rightarrow> 'k world \<Rightarrow>
   isolated_admission \<times> isolated_admission \<times> 'k world" where
  "admission_move_assign K same_object this other w =
     (if same_object then (this, other, w)
      else let (this, w) = cleanup_best_effort K this w;
               w = reset_fd K (root_source_fd this) w;
               w = close_all K (map source_fd (admitted_bindings this)) w
           in (other, moved_from other, w))"

lemma moved_from_released: "release_admission K (moved_from other) w = w"
  by (simp add: release_admission_def cleanup_best_effort_def moved_from_def reset_fd_def)

lemma move_assign_releases_once:
  assumes "admission_move_assign K False this other w = (this', other', w')"
  shows "release_admission K other' (release_admission K this' w') = release_admission K other w'"
  using assms by (auto simp: admission_move_assign_def Let_def moved_from_released split: prod.splits)

lemma move_construct_releases_once:
  assumes "admission_move_construct other = (this, other')"
  shows "release_admission K other' (release_admission K this w) = release_admission K other w"
  using assms by (auto simp: admission_move_construct_def moved_from_released)

end
