(* ===== verification/Spec2Isabelle.thy ===== *)
theory Spec2Isabelle
  imports Capability Execution_Liveness Ownership
begin

text \<open>
  A verification development for libpkgexec-linux, the Linux execution backends of libpkgexec.

  \<^bold>\<open>The program.\<close> The library runs one program (\<open>interpreter -c material\<close>) per execution request and says in its
  result what was guaranteed. Two backends share one routine, \<open>execute_backend\<close> in \<open>src/backend.cpp\<close>: the host supervisor, which
  runs in the caller's view of the file system, and the isolated backend, which builds a private root
  (\<open>src/mount_isolation.cpp\<close>) and a private network namespace (\<open>src/network_isolation.cpp\<close>). A backend is made from
  interpreter bindings (\<open>src/interpreter.cpp\<close>) and a capability report (\<open>src/capability.cpp\<close>). An execution checks the
  request against the report's profile, admits resources and interpreter, forks, and supervises. The child
  (\<open>child_main\<close>) enters its session, redirects its streams, isolates itself, drops capabilities, installs resource limits
  (\<open>src/resource_limits.cpp\<close>) and a seccomp filter (\<open>src/process_control.cpp\<close>), writes a ready byte,
  waits for the start byte and executes the interpreter by descriptor. The parent drains the pipes, decides about the start gate, observes exit
  and cancellation, signals the group through pidfds, verifies that it is gone and classifies what it has seen. Errors,
  digests, path checks and group identities are in \<open>src/support.cpp\<close>.

  \<^bold>\<open>How it is modelled.\<close> Every function is a function on an explicit \<open>world\<close>: the state of the kernel, \<open>errno\<close>, and the
  history of system calls with their replies. The kernel is a parameter \<open>K\<close>, a function from call and state to reply and
  state, about which nothing is assumed unless a theorem says so; errors and early returns are values (\<open>error + 'a\<close>, \<open>option\<close>, failure
  records); machine integers are words where width matters (BPF words, limits, time points, wire records, netlink
  lengths). A loop that the source does not bound is a \<open>partial_function (option)\<close>, whose \<open>None\<close> is not returning: there is no fuel. \<open>Blocked\<close> and
  \<open>Exited\<close> are the ends of a forked probe child. libpkgexec's requests and results are records and datatypes with the
  fields the source reads; its operations (profile sealing, \<open>supports\<close>, identities from digests), OpenSSL's EVP interface and \<open>strerror\<close> are
  parameters, with the laws that are used as hypotheses of the theorem that uses them.

  \<^bold>\<open>The theories\<close>, in the order of their imports.
  \<^item> \<open>Prelude\<close>, \<open>Kernel\<close>: integer types, \<open>errno\<close>, status macros; calls, replies, worlds and histories; structural rules for the calls of an
    operation (\<open>makes_intros\<close>); the locale \<open>call_guard\<close> for statements about the order of calls; retried calls; the replay kernel of the concrete runs.
  \<^item> \<open>Seccomp\<close>: the BPF program of \<open>install_process_group_containment\<close> with an interpreter for it; it computes exactly the containment policy.
  \<^item> \<open>Process_Control\<close>: the scan of \<open>/proc\<close>, signals through pidfds, waiting for a group, capabilities, inherited descriptors, and the probes of these.
  \<^item> \<open>Resource_Limits\<close>: installing exact limits, the decision as a function of request and inherited limits, and the probes.
  \<^item> \<open>Wire\<close>: object representation of integers, sending and receiving of a record through a pipe; the locale \<open>wire_record\<close>, interpreted by both failure records.
  \<^item> \<open>Supervisor\<close>, \<open>Supervisor_History\<close>, \<open>Supervisor_Liveness\<close>: the supervision loop of \<open>execute_backend\<close>, block by block, with its local variables as a record; the
    loop as a transition system and the locales \<open>supervision_invariant\<close> and \<open>state_invariant\<close>; start gate, escalation, captured streams, verified cleanup and the
    failure record over whole histories; and that the loop returns.
  \<^item> \<open>Network_Isolation\<close>, \<open>Network_Setup\<close>: netlink requests and the decoding of dumps byte by byte, the network policies, the probe; what a reported policy means.
  \<^item> \<open>Paths\<close>, \<open>Support\<close>, \<open>Interpreter\<close>: \<open>std::filesystem::path\<close> as far as it is used; digests, symbolic links, groups; inspected interpreters, admission and binary search.
  \<^item> \<open>Mount_Isolation\<close>, \<open>Mount_Setup\<close>: admission of resources, the private root, the scratch directory, the probe; disjointness of
    admitted resources, sealed and private mounts, the cleanup of the parent.
  \<^item> \<open>Ownership\<close>: the descriptor-owning classes as objects with moves, and the account of closed descriptors.
  \<^item> \<open>Outcome\<close>: the classification of what supervision saw, and the evidence every result rests on.
  \<^item> \<open>Child\<close>: the child from \<open>fork\<close> to the program; the program runs only contained and released.
  \<^item> \<open>Backend\<close>, \<open>Execution\<close>, \<open>Execution_Liveness\<close>: \<open>execute_backend\<close> in both processes with the release of all objects; a process rests on admission and is
    waited for, and every execution returns.
  \<^item> \<open>Capability\<close>: both capability reports, and the making of both backends; guarantees and observations agree.
  \<^item> This theory: a process rests on the observations of the report its backend was made with.

  \<^bold>\<open>What the lemmas show.\<close> Safety of the order of calls (containment before the ready byte, start byte before execution, confirmation before
  signal, sealing before attaching, clock before \<open>SIGKILL\<close>); functional correctness and refinement against reference definitions (BPF policy, limit verdict, netlink policy,
  binary search, containment of paths); round trips of the wire records and the stat line; bounds (no read past a datagram, exact deadlines); errors (which code for which
  cause); termination and liveness. Statements about unbounded loops that say a result is right are partial by nature; those that say the loop returns (\<open>supervision_ends\<close>,
  \<open>execution_returns\<close>, \<open>digest_fd_total\<close>, the failure record) have an explicit assumption that the kernel does not interrupt for ever, that
  directories and data are finite and that the clock advances.

  \<^bold>\<open>Bounds.\<close> Loops with a bound in the source keep it (20 and 100 polls for a group, 16384 bytes per read, 8192 and 16384 bytes per netlink
  datagram, 12 bytes per failure record); no other bound is introduced. The architecture is x86-64 Linux, little endian; whether the build supports seccomp is a
  parameter. Memory exhaustion and exceptions of the standard library are not modelled.

  \<^bold>\<open>Not modelled.\<close> Constructors that only store, getters and move operations of plain data are the record fields themselves;
  export macros and the umbrella header are preprocessor text; the tests, documents, build and packaging files are not part of the library.
  Concurrent threads of the calling process (which could reap or close under the library) and signals delivered to it are outside the model.
\<close>

section \<open>From the report to the process\<close>

text \<open>The observations that a guarantee of a profile stands for.\<close>

definition grounds :: "bool \<Rightarrow> execution_guarantee \<Rightarrow> capability_kind list" where
  "grounds isolated g =
     (case g of
        G_exact_interpreter \<Rightarrow> [Cap_descriptor_execution]
      | G_cleanup_verified \<Rightarrow> Cap_process_group_containment # (if isolated then [Cap_mount_namespace] else [])
      | G_cancellation \<Rightarrow> [Cap_pidfd_cancellation, Cap_process_group_containment]
      | G_root_view \<Rightarrow> Cap_current_root_view # (if isolated then [Cap_capability_drop] else [])
      | G_writable_resources \<Rightarrow> Cap_writable_resources # (if isolated then [Cap_capability_drop] else [])
      | G_read_only_resources \<Rightarrow> [Cap_mount_setattr, Cap_capability_drop]
      | G_address_space_limit \<Rightarrow> [Cap_address_space_limit]
      | G_file_size_limit \<Rightarrow> [Cap_file_size_limit]
      | G_open_files_limit \<Rightarrow> [Cap_open_files_limit]
      | G_network_denied \<Rightarrow> [Cap_process_group_containment, Cap_capability_drop, Cap_network_namespace]
      | G_loopback_isolated \<Rightarrow> [Cap_process_group_containment, Cap_capability_drop, Cap_loopback_configuration]
      | _ \<Rightarrow> [])"

lemma consistent_grounds:
  assumes "consistent isolated gs available" "g \<in> gs" "k \<in> set (grounds isolated g)"
  shows "available k"
  using assms unfolding grounds_def consistent_def by (cases g) (auto split: if_split_asm)

lemma made_backend:
  assumes "(if isolated then make_isolated errstr E P K supp bs w else make_host E P K supp bs w) = Some (Returned (Inr B), w')"
  obtains r where
    "(if isolated then probe_isolated errstr E P K supp w else probe E P K supp w) = Some (Returned (Inr r), w')"
    "offered_guarantees B = guarantees_of P (profile r)" "admit_interpreters bs = Inr (interpreters B)"
proof -
  from assms obtain bs' r where a: "admit_interpreters bs = Inr bs'"
    "(if isolated then probe_isolated errstr E P K supp w else probe E P K supp w) = Some (Returned r, w')"
    "make_backend P bs' r = Inr B"
    by (auto simp: make_isolated_def make_host_def elim!: then_probe_Returned split: sum.split_asm if_split_asm)
  then obtain rep where "r = Inr rep" "B = \<lparr>offered_guarantees = guarantees_of P (profile rep), interpreters = bs'\<rparr>"
    by (auto simp: make_backend_def bind_result_def split: sum.split_asm)
  with a that show ?thesis by simp
qed

text \<open>
  C10. A process is created only on what was observed. A backend is made on a list of interpreters and then executes
  a request. Either no process is created, and the result says that the program was not started, or the report that the making of the backend
  obtained found every mechanism available that the guarantees required by the request stand for, and the interpreter is the one
  binding of the list with the requested identity, opened and digested during this execution.
\<close>

theorem process_rests_on_observations:
  assumes made: "(if isolated then make_isolated errstr E P K0 supp bs w0 else make_host E P K0 supp bs w0) = Some (Returned (Inr B), w1)"
    and sealed: "\<And>b gs. set (guarantees_of P (seal P b gs)) = set gs"
    and supporting: "\<And>offered q. supports L offered q \<Longrightarrow> set (request_guarantees q) \<subseteq> set offered"
    and run: "(if isolated then execute_isolated L K B q R cancellable w else execute_host L K B q R cancellable w) = Some (x, w')"
  shows "(\<exists>r. x = Reported r \<and> before_start r \<and> admits w w') \<or>
    (\<exists>report b fd v r v'.
      (if isolated then probe_isolated errstr E P K0 supp w0 else probe E P K0 supp w0) = Some (Returned (Inr report), w1) \<and>
      (\<forall>g\<in>set (request_guarantees q). \<forall>k\<in>set (grounds isolated g). state report k = Inr Available) \<and>
      b \<in> set bs \<and> identity b = request_interpreter q \<and> creation_admitted L K (interpreters B) q cancellable b fd w v \<and>
      invoke K (Proc Fork) v = (r, v') \<and> after_fork L K q R isolated b fd (ret r) x v' w')"
proof -
  from made obtain report where rep:
    "(if isolated then probe_isolated errstr E P K0 supp w0 else probe E P K0 supp w0) = Some (Returned (Inr report), w1)"
    and B: "offered_guarantees B = guarantees_of P (profile report)" "admit_interpreters bs = Inr (interpreters B)" by (rule made_backend)
  note con = conjunct2 [OF report_consistency [OF rep sealed]]
  from run have "execute_backend L K (offered_guarantees B) (interpreters B) q R isolated cancellable w = Some (x, w')"
    by (cases isolated) (simp_all add: execute_isolated_def execute_host_def)
  from execution_cases [OF this] show ?thesis
  proof (elim disjE conjE exE)
    fix b fd v r v'
    assume s: "supports L (offered_guarantees B) q" and c: "creation_admitted L K (interpreters B) q cancellable b fd w v"
      and f: "invoke K (Proc Fork) v = (r, v')" "after_fork L K q R isolated b fd (ret r) x v' w'"
    from supporting [OF s] have "set (request_guarantees q) \<subseteq> set (guarantees_of P (profile report))" unfolding B(1) .
    then have "\<forall>g\<in>set (request_guarantees q). \<forall>k\<in>set (grounds isolated g). state report k = Inr Available"
      using consistent_grounds [OF con] by blast
    moreover from c have "find_interpreter (interpreters B) (request_interpreter q) = Some b"
      by (auto simp: creation_admitted_def interpreter_admitted_def)
    with admitted_lookup [OF B(2)] have "b \<in> set bs \<and> identity b = request_interpreter q" by blast
    ultimately show ?thesis using rep c f by blast
  qed blast
qed

lemma sample_backend:
  "\<exists>B w'. make_host blank_digests plain_profiles forking True [sample_binding] (start_world ()) = Some (Returned (Inr B), w') \<and>
     G_exact_interpreter \<in> set (offered_guarantees B) \<and> interpreters B = [sample_binding]"
  by (simp add: make_host_def admit_interpreters_def probe_def host_probes_of_def probe_simps forking_def host_guarantees_def add_resource_limit_guarantees_def
      cancellation_probe_parent_def abandon_probe_child_def make_backend_def cong: run_congs)

theorem process_rests_on_observations_witness:
  "\<exists>B w1 x w' report v r v'.
     make_host blank_digests plain_profiles forking True [sample_binding] (start_world ()) = Some (Returned (Inr B), w1) \<and>
     execute_host sample_runtime scripted B sample_request sample_resources False (start_world execution_script) = Some (x, w') \<and>
     probe blank_digests plain_profiles forking True (start_world ()) = Some (Returned (Inr report), w1) \<and>
     state report Cap_descriptor_execution = Inr Available \<and> invoke scripted (Proc Fork) v = (r, v')"
proof -
  from sample_backend obtain B w1 where
    m: "make_host blank_digests plain_profiles forking True [sample_binding] (start_world ()) = Some (Returned (Inr B), w1)"
    and B: "G_exact_interpreter \<in> set (offered_guarantees B)" "interpreters B = [sample_binding]" by blast
  from sample_execution [OF B(1)] obtain w' where
    e: "execute_host sample_runtime scripted B sample_request sample_resources False (start_world execution_script) =
      Some (Reported (Succeeded 7 (Some [104, 105, 10]) None [G_exact_interpreter]), w')"
    by (auto simp: execute_host_def B(2))
  have s: "set (guarantees_of plain_profiles (seal plain_profiles b gs)) = set gs" for b gs by (simp add: plain_profiles_def)
  have l: "supports sample_runtime offered q \<Longrightarrow> set (request_guarantees q) \<subseteq> set offered" for offered q
    by (simp add: sample_runtime_def)
  from process_rests_on_observations [of False "\<lambda>e. []" blank_digests plain_profiles forking True "[sample_binding]" "start_world ()" B w1
      sample_runtime scripted sample_request sample_resources False "start_world execution_script", OF _ s l, simplified, OF m e]
  obtain report v r v' where
    "probe blank_digests plain_profiles forking True (start_world ()) = Some (Returned (Inr report), w1)"
    "\<forall>g\<in>set (request_guarantees sample_request). \<forall>k\<in>set (grounds False g). state report k = Inr Available"
    "invoke scripted (Proc Fork) v = (r, v')" by (auto simp: before_start_def)
  moreover have "G_exact_interpreter \<in> set (request_guarantees sample_request)" by (simp add: sample_request_def)
  ultimately show ?thesis using m e by (fastforce simp: grounds_def)
qed

end
